(* ===== verification/Regex.thy ===== *)
theory Regex
  imports Prelude
begin

text \<open>
  The part of \<open>std::regex\<close> (ECMAScript grammar, greedy quantifiers) that the program
  uses. A regular expression is a datatype; \<open>run r st\<close> lists every way \<open>r\<close> can match at
  the state \<open>st\<close>, in the order the backtracking matcher tries them, so that the head of the
  list that satisfies what follows is the match the library reports. A state holds how many
  characters lie before the current position, the text from there on, and the groups
  captured so far (the latest first).
\<close>

section \<open>Syntax and matching\<close>

datatype regex =
    Eps
  | Cls "char \<Rightarrow> bool"        \<comment> \<open>one character of a class\<close>
  | Sq regex regex
  | Alt regex regex              \<comment> \<open>the left alternative first\<close>
  | Star regex                   \<comment> \<open>greedy repetition\<close>
  | Grp nat regex                \<comment> \<open>capture group\<close>
  | Bol
  | Eol

type_synonym caps = "(nat \<times> string) list"
type_synonym mstate = "nat \<times> string \<times> caps"

abbreviation (input) mpos :: "mstate \<Rightarrow> nat" where "mpos st \<equiv> fst st"
abbreviation (input) mrest :: "mstate \<Rightarrow> string" where "mrest st \<equiv> fst (snd st)"
abbreviation (input) mcaps :: "mstate \<Rightarrow> caps" where "mcaps st \<equiv> snd (snd st)"

definition Plus :: "regex \<Rightarrow> regex" where
  "Plus r = Sq r (Star r)"

definition Opt :: "regex \<Rightarrow> regex" where
  "Opt r = Alt r Eps"

definition Lit :: "char \<Rightarrow> regex" where
  "Lit c = Cls (\<lambda>x. x = c)"

text \<open>
  A greedy repetition: try the body, and from each of its matches that consumed something
  the repetition again; the empty repetition is the last resort. The number bounds the
  iterations; the length of the text is always enough, because every iteration consumes.
\<close>

primrec repeat :: "(mstate \<Rightarrow> mstate list) \<Rightarrow> nat \<Rightarrow> mstate \<Rightarrow> mstate list" where
  "repeat f 0 st = [st]"
| "repeat f (Suc k) st =
     concat (map (repeat f k) (filter (\<lambda>st'. length (mrest st') < length (mrest st)) (f st))) @ [st]"

primrec run :: "regex \<Rightarrow> mstate \<Rightarrow> mstate list" where
  "run Eps st = [st]"
| "run (Cls P) st = (case mrest st of [] \<Rightarrow> []
     | c # s \<Rightarrow> if P c then [(Suc (mpos st), s, mcaps st)] else [])"
| "run (Sq a b) st = concat (map (run b) (run a st))"
| "run (Alt a b) st = run a st @ run b st"
| "run (Star r) st = repeat (run r) (length (mrest st)) st"
| "run (Grp i r) st = map (\<lambda>st'. (mpos st', mrest st',
       (i, take (mpos st' - mpos st) (mrest st)) # mcaps st')) (run r st)"
| "run Bol st = (if mpos st = 0 then [st] else [])"
| "run Eol st = (if mrest st = [] then [st] else [])"

text \<open>\<open>match[i]\<close>: what group \<open>i\<close> captured, empty if it took no part in the match.\<close>

definition group :: "nat \<Rightarrow> caps \<Rightarrow> string" where
  "group i c = (case map_of c i of None \<Rightarrow> [] | Some s \<Rightarrow> s)"

text \<open>\<open>std::regex_match\<close>: the whole text has to match.\<close>

definition regex_match :: "regex \<Rightarrow> string \<Rightarrow> caps option" where
  "regex_match r s = map_option (\<lambda>st. mcaps st) (List.find (\<lambda>st. mrest st = []) (run r (0, s, [])))"

text \<open>A search from a position: the leftmost start, there the first match in order.\<close>

fun search_from :: "regex \<Rightarrow> nat \<Rightarrow> string \<Rightarrow> (nat \<times> nat \<times> caps \<times> string) option" where
  "search_from r n s = (case run r (n, s, []) of
     st # _ \<Rightarrow> Some (n, mpos st - n, mcaps st, mrest st)
   | [] \<Rightarrow> (case s of [] \<Rightarrow> None | _ # s' \<Rightarrow> search_from r (Suc n) s'))"

declare search_from.simps [simp del]

text \<open>
  \<open>std::regex_iterator\<close>: successive matches, each as its position, its length and its
  groups. No regular expression of the program matches the empty string; a match that
  consumes nothing ends the iteration of the model.
\<close>

function regex_iterate :: "regex \<Rightarrow> nat \<Rightarrow> string \<Rightarrow> (nat \<times> nat \<times> caps) list" where
  "regex_iterate r n s = (case search_from r n s of
     None \<Rightarrow> []
   | Some (p, l, c, t) \<Rightarrow> (p, l, c) #
       (if length t < length s then regex_iterate r (p + l) t else []))"
  by pat_completeness auto
termination by (relation "measure (\<lambda>(r, n, s). length s)") auto

declare regex_iterate.simps [simp del]


section \<open>General laws\<close>

text \<open>A match consumes a prefix of what was left.\<close>

lemma repeat_suffix:
  assumes f: "\<And>a b. b \<in> set (f a) \<Longrightarrow> \<exists>u. mrest a = u @ mrest b \<and> mpos b = mpos a + length u"
  shows "st' \<in> set (repeat f k st) \<Longrightarrow>
    \<exists>u. mrest st = u @ mrest st' \<and> mpos st' = mpos st + length u"
proof (induction k arbitrary: st)
  case (Suc k)
  show ?case
  proof (cases "st' = st")
    case False
    with Suc.prems obtain a where a: "a \<in> set (f st)" "st' \<in> set (repeat f k a)" by auto
    from f [OF a(1)] obtain u where u: "mrest st = u @ mrest a" "mpos a = mpos st + length u" by blast
    from Suc.IH [OF a(2)] obtain v where "mrest a = v @ mrest st'" "mpos st' = mpos a + length v" by blast
    with u show ?thesis by (intro exI [of _ "u @ v"]) simp
  qed simp
qed simp

lemma run_suffix:
  "st' \<in> set (run r st) \<Longrightarrow> \<exists>u. mrest st = u @ mrest st' \<and> mpos st' = mpos st + length u"
proof (induction r arbitrary: st st')
  case (Sq a b)
  then obtain x where x: "x \<in> set (run a st)" "st' \<in> set (run b x)" by auto
  from Sq.IH(1) [OF x(1)] obtain u where "mrest st = u @ mrest x" "mpos x = mpos st + length u" by blast
  moreover from Sq.IH(2) [OF x(2)] obtain v where "mrest x = v @ mrest st'" "mpos st' = mpos x + length v"
    by blast
  ultimately show ?case by (intro exI [of _ "u @ v"]) simp
next
  case (Star r)
  then show ?case using repeat_suffix [of "run r"] by auto
next
  case (Cls P)
  then show ?case
    by (cases "mrest st") (auto intro!: exI [of _ "[hd (mrest st)]"] split: if_splits)
next
  case (Alt a b)
  then have "st' \<in> set (run a st) \<or> st' \<in> set (run b st)" by simp
  then show ?case by (rule disjE) (fact Alt.IH)+
next
  case (Grp i r)
  then obtain x where "x \<in> set (run r st)" "mrest st' = mrest x" "mpos st' = mpos x" by auto
  then show ?case using Grp.IH [of x st] by simp
qed (simp_all split: if_splits)

lemma repeat_enough:
  "length (mrest st) \<le> k \<Longrightarrow> repeat f k st = repeat f (length (mrest st)) st"
proof (induction "length (mrest st)" arbitrary: st k rule: less_induct)
  case less
  show ?case
  proof (cases "length (mrest st)")
    case 0
    then show ?thesis by (cases k) simp_all
  next
    case (Suc m)
    with less.prems obtain k' where k: "k = Suc k'" "m \<le> k'" by (cases k) auto
    have "repeat f k' a = repeat f m a" if "length (mrest a) < length (mrest st)" for a
      using less.hyps [OF that, of k'] less.hyps [OF that, of m] that Suc k by simp
    then have m: "map (repeat f k') (filter (\<lambda>a. length (mrest a) < Suc m) (f st)) =
        map (repeat f m) (filter (\<lambda>a. length (mrest a) < Suc m) (f st))"
      unfolding Suc [symmetric] by (intro map_cong) auto
    show ?thesis by (simp add: k Suc m)
  qed
qed

text \<open>The defining equation of the greedy repetition.\<close>

lemma run_Star:
  "run (Star r) st = concat (map (run (Star r))
     (filter (\<lambda>a. length (mrest a) < length (mrest st)) (run r st))) @ [st]"
proof (cases "length (mrest st)")
  case 0
  then show ?thesis by simp
next
  case (Suc m)
  have "repeat (run r) m a = repeat (run r) (length (mrest a)) a"
    if "length (mrest a) < length (mrest st)" for a
    using that Suc by (intro repeat_enough) simp
  then have m: "map (repeat (run r) m) (filter (\<lambda>a. length (mrest a) < Suc m) (run r st)) =
      map (run (Star r)) (filter (\<lambda>a. length (mrest a) < Suc m) (run r st))"
    unfolding Suc [symmetric] by (intro map_cong) auto
  show ?thesis by (simp add: Suc m)
qed

section \<open>Repetition of a character class\<close>

lemma run_Star_Cls:
  "run (Star (Cls P)) (n, s, c) = (case s of
     [] \<Rightarrow> [(n, s, c)]
   | x # t \<Rightarrow> if P x then run (Star (Cls P)) (Suc n, t, c) @ [(n, s, c)] else [(n, s, c)])"
  by (subst run_Star) (simp split: list.split)

lemma run_Star_Cls_list:
  "run (Star (Cls P)) (n, s, c) =
     map (\<lambda>i. (n + i, drop i s, c)) (rev [0..<Suc (length (takeWhile P s))])"
proof (induction s arbitrary: n)
  case Nil
  then show ?case by (simp add: run_Star_Cls [of P n "[]"])
next
  case (Cons x t)
  show ?case
  proof (cases "P x")
    case True
    let ?k = "length (takeWhile P t)"
    have "[0..<Suc (Suc ?k)] = 0 # map Suc [0..<Suc ?k]"
      by (metis map_Suc_upt upt_conv_Cons zero_less_Suc)
    then have "map (\<lambda>i. (n + i, drop i (x # t), c)) (rev [0..<Suc (Suc ?k)]) =
        map (\<lambda>i. (Suc n + i, drop i t, c)) (rev [0..<Suc ?k]) @ [(n, x # t, c)]"
      by (simp add: rev_map del: upt_Suc)
    with True Cons show ?thesis
      by (subst run_Star_Cls) (simp del: upt_Suc run.simps)
  next
    case False
    then show ?thesis by (subst run_Star_Cls) simp
  qed
qed

text \<open>The first match of a repetition takes the longest run of the class.\<close>

lemma run_Star_Cls_hd:
  "\<exists>ys. run (Star (Cls P)) (n, s, c) =
     (n + length (takeWhile P s), dropWhile P s, c) # ys \<and>
     (\<forall>st \<in> set ys. \<exists>x t. st = (mpos st, x # t, c) \<and> P x)"
proof (induction s arbitrary: n)
  case Nil
  then show ?case by (simp add: run_Star_Cls [of P n "[]"])
next
  case (Cons x t)
  show ?case
  proof (cases "P x")
    case True
    from Cons.IH [of "Suc n"] obtain ys where
      "run (Star (Cls P)) (Suc n, t, c) = (Suc n + length (takeWhile P t), dropWhile P t, c) # ys"
      "\<forall>st \<in> set ys. \<exists>x t. st = (mpos st, x # t, c) \<and> P x" by blast
    with True show ?thesis by (subst run_Star_Cls) (simp del: run.simps)
  next
    case False
    then show ?thesis by (subst run_Star_Cls) (simp del: run.simps)
  qed
qed

text \<open>
  When what follows cannot start with a character of the class, only the longest run can
  succeed, and the repetition is deterministic.
\<close>

lemma star_cls_then:
  assumes "\<And>m x t. P x \<Longrightarrow> K (m, x # t, c) = []"
  shows "concat (map K (run (Star (Cls P)) (n, s, c))) = K (n + length (takeWhile P s), dropWhile P s, c)"
proof -
  obtain ys where ys: "run (Star (Cls P)) (n, s, c) =
     (n + length (takeWhile P s), dropWhile P s, c) # ys"
     "\<forall>st \<in> set ys. \<exists>x t. st = (mpos st, x # t, c) \<and> P x"
    using run_Star_Cls_hd by blast
  have "K st = []" if "st \<in> set ys" for st
    using ys(2) that assms by (metis)
  with ys(1) show ?thesis by (simp del: run.simps)
qed

definition rejects :: "regex \<Rightarrow> (char \<Rightarrow> bool) \<Rightarrow> bool" where
  "rejects r P \<longleftrightarrow> (\<forall>n x t c. P x \<longrightarrow> run r (n, x # t, c) = [])"

lemma rejects_Cls: "(\<And>x. P x \<Longrightarrow> \<not> Q x) \<Longrightarrow> rejects (Cls Q) P"
  by (simp add: rejects_def)

lemma rejects_Sq: "rejects a P \<Longrightarrow> rejects (Sq a b) P"
  by (simp add: rejects_def)

lemma rejects_Plus: "rejects r P \<Longrightarrow> rejects (Plus r) P"
  by (simp add: Plus_def rejects_Sq)

lemma rejects_Grp: "rejects r P \<Longrightarrow> rejects (Grp i r) P"
  by (simp add: rejects_def)

lemma rejects_Eol: "rejects Eol P"
  by (simp add: rejects_def)

lemma rejects_Alt: "rejects a P \<Longrightarrow> rejects b P \<Longrightarrow> rejects (Alt a b) P"
  by (simp add: rejects_def)

lemma rejects_Sq_Star:
  assumes "\<And>x. P x \<Longrightarrow> \<not> Q x" and "rejects r P"
  shows "rejects (Sq (Star (Cls Q)) r) P"
proof -
  have "run (Star (Cls Q)) (n, x # t, c) = [(n, x # t, c)]" if "P x" for n x t c
    using assms(1) [OF that] by (subst run_Star_Cls) simp
  then show ?thesis using assms(2) by (simp add: rejects_def del: run.simps add: run.simps(3))
qed

lemmas rejects_intros =
  rejects_Cls rejects_Plus rejects_Grp rejects_Eol rejects_Alt rejects_Sq_Star rejects_Sq

lemma run_Sq_Star_det:
  assumes "rejects r P"
  shows "run (Sq (Star (Cls P)) r) (n, s, c) = run r (n + length (takeWhile P s), dropWhile P s, c)"
proof -
  have "concat (map (run r) (run (Star (Cls P)) (n, s, c))) =
      run r (n + length (takeWhile P s), dropWhile P s, c)"
    by (rule star_cls_then) (use assms in \<open>simp add: rejects_def\<close>)
  then show ?thesis by (simp del: run.simps add: run.simps(3))
qed

lemma run_Plus_Cls:
  "run (Plus (Cls P)) (n, s, c) = (case s of
     [] \<Rightarrow> [] | x # t \<Rightarrow> if P x then run (Star (Cls P)) (Suc n, t, c) else [])"
  by (simp add: Plus_def split: list.split)

lemma run_Sq_Plus_det:
  assumes "rejects r P"
  shows "run (Sq (Plus (Cls P)) r) (n, s, c) = (if takeWhile P s = [] then []
    else run r (n + length (takeWhile P s), dropWhile P s, c))"
proof (cases s)
  case (Cons x t)
  then show ?thesis
    using run_Sq_Star_det [OF assms, of "Suc n" t c]
    by (simp add: Plus_def del: run.simps add: run.simps(2,3))
qed (simp add: Plus_def)

lemma take_takeWhile_len [simp]: "take (length (takeWhile P s)) s = takeWhile P s"
  by (simp add: takeWhile_eq_take [symmetric])

lemma run_Sq_Grp_Plus_det:
  assumes "rejects r P"
  shows "run (Sq (Grp i (Plus (Cls P))) r) (n, s, c) = (if takeWhile P s = [] then []
    else run r (n + length (takeWhile P s), dropWhile P s, (i, takeWhile P s) # c))"
proof (cases s)
  case (Cons x t)
  show ?thesis
  proof (cases "P x")
    case True
    let ?K = "\<lambda>st. run r (mpos st, mrest st, (i, take (mpos st - n) s) # mcaps st)"
    have "run (Sq (Grp i (Plus (Cls P))) r) (n, s, c) = concat (map ?K (run (Star (Cls P)) (Suc n, t, c)))"
      using True Cons by (simp del: run.simps(5) add: run_Plus_Cls comp_def)
    also have "\<dots> = ?K (Suc n + length (takeWhile P t), dropWhile P t, c)"
      by (rule star_cls_then) (use assms in \<open>simp add: rejects_def\<close>)
    finally show ?thesis using True Cons by simp
  next
    case False
    then show ?thesis using Cons by (simp add: run_Plus_Cls)
  qed
qed (simp add: run_Plus_Cls)

lemma run_Sq_Grp_Star_det:
  assumes "rejects r P"
  shows "run (Sq (Grp i (Star (Cls P))) r) (n, s, c) =
    run r (n + length (takeWhile P s), dropWhile P s, (i, takeWhile P s) # c)"
proof -
  let ?K = "\<lambda>st. run r (mpos st, mrest st, (i, take (mpos st - n) s) # mcaps st)"
  have "run (Sq (Grp i (Star (Cls P))) r) (n, s, c) = concat (map ?K (run (Star (Cls P)) (n, s, c)))"
    by (simp del: run.simps(5) add: comp_def)
  also have "\<dots> = ?K (n + length (takeWhile P s), dropWhile P s, c)"
    by (rule star_cls_then) (use assms in \<open>simp add: rejects_def\<close>)
  finally show ?thesis by simp
qed

lemma run_Sq_Cls:
  "run (Sq (Cls P) r) (n, s, c) = (case s of
     [] \<Rightarrow> [] | x # t \<Rightarrow> if P x then run r (Suc n, t, c) else [])"
  by (simp split: list.split)

lemma run_Sq_Bol: "run (Sq Bol r) (n, s, c) = (if n = 0 then run r (n, s, c) else [])"
  by simp

lemmas run_det = run_Sq_Bol run_Sq_Cls run_Sq_Grp_Plus_det run_Sq_Grp_Star_det
  run_Sq_Plus_det run_Sq_Star_det

section \<open>Matching and searching\<close>

lemma regex_match_single:
  "run r (0, s, []) = [(n, t, c)] \<Longrightarrow> regex_match r s = (if t = [] then Some c else None)"
  by (simp add: regex_match_def)

lemma regex_match_none: "run r (0, s, []) = [] \<Longrightarrow> regex_match r s = None"
  by (simp add: regex_match_def)

lemma find_first: "List.find P (K x) = Some y \<Longrightarrow> List.find P (concat (map K (x # xs))) = Some y"
  by (simp add: find_append)

lemma search_from_hit:
  "run r (n, s, []) = st # sts \<Longrightarrow> search_from r n s = Some (n, mpos st - n, mcaps st, mrest st)"
  by (simp add: search_from.simps)

lemma search_from_skip:
  "run r (n, x # s, []) = [] \<Longrightarrow> search_from r n (x # s) = search_from r (Suc n) s"
  by (subst search_from.simps) simp

lemma search_from_end: "run r (n, [], []) = [] \<Longrightarrow> search_from r n [] = None"
  by (subst search_from.simps) simp

lemma regex_iterate_hit:
  "run r (n, s, []) = (m, t, c) # sts \<Longrightarrow> length t < length s \<Longrightarrow>
    regex_iterate r n s = (n, m - n, c) # regex_iterate r m t"
  using run_suffix [of "(m, t, c)" r "(n, s, [])"]
  by (subst regex_iterate.simps) (auto simp: search_from_hit)

lemma regex_iterate_skip:
  assumes "run r (n, x # s, []) = []"
    and "\<And>p l c t. search_from r (Suc n) s = Some (p, l, c, t) \<Longrightarrow> length t < length s"
  shows "regex_iterate r n (x # s) = regex_iterate r (Suc n) s"
  using assms(2)
  by (subst (1 2) regex_iterate.simps)
    (auto simp: search_from_skip [OF assms(1)] less_SucI split: option.splits prod.splits)

lemma regex_iterate_end: "run r (n, [], []) = [] \<Longrightarrow> regex_iterate r n [] = []"
  by (subst regex_iterate.simps) (simp add: search_from_end)

text \<open>
  A regular expression that always consumes: its searches shorten the text, so the
  iteration of the model is the iteration of the library.
\<close>

definition consumes :: "regex \<Rightarrow> bool" where
  "consumes r \<longleftrightarrow> (\<forall>st st'. st' \<in> set (run r st) \<longrightarrow> length (mrest st') < length (mrest st))"

lemma consumesI:
  "(\<And>st st'. st' \<in> set (run r st) \<Longrightarrow> length (mrest st') < length (mrest st)) \<Longrightarrow> consumes r"
  unfolding consumes_def by blast

lemma consumesD: "consumes r \<Longrightarrow> st' \<in> set (run r st) \<Longrightarrow> length (mrest st') < length (mrest st)"
  unfolding consumes_def by blast

lemma run_le: "st' \<in> set (run r st) \<Longrightarrow> length (mrest st') \<le> length (mrest st)"
  using run_suffix [of st' r st] by auto

lemma search_from_shrinks:
  "consumes r \<Longrightarrow> search_from r n s = Some (p, l, c, t) \<Longrightarrow> length t < length s"
proof (induction r n s rule: search_from.induct)
  case (1 r n s)
  show ?case
  proof (cases "run r (n, s, [])")
    case (Cons st sts)
    then have "length (mrest st) < length s"
      using consumesD [OF "1.prems"(1), of st "(n, s, [])"] by simp
    then show ?thesis using "1.prems"(2) Cons by (simp add: search_from.simps)
  next
    case Nil
    then show ?thesis
      using 1 by (cases s) (auto simp: search_from.simps [of r n] dest: less_SucI)
  qed
qed

lemma consumes_Cls: "consumes (Cls P)"
  by (rule consumesI) (auto split: list.splits if_splits)

lemma consumes_Sq1:
  assumes "consumes a" shows "consumes (Sq a b)"
proof (rule consumesI)
  fix st st' assume "st' \<in> set (run (Sq a b) st)"
  then obtain x where "x \<in> set (run a st)" "st' \<in> set (run b x)" by auto
  then show "length (mrest st') < length (mrest st)"
    using consumesD [OF assms, of x st] run_le [of st' b x] by simp
qed

lemma consumes_Sq2:
  assumes "consumes b" shows "consumes (Sq a b)"
proof (rule consumesI)
  fix st st' assume "st' \<in> set (run (Sq a b) st)"
  then obtain x where "x \<in> set (run a st)" "st' \<in> set (run b x)" by auto
  then show "length (mrest st') < length (mrest st)"
    using consumesD [OF assms, of st' x] run_le [of x a st] by simp
qed

lemma consumes_Alt:
  assumes "consumes a" "consumes b" shows "consumes (Alt a b)"
proof (rule consumesI)
  fix st st' assume "st' \<in> set (run (Alt a b) st)"
  then show "length (mrest st') < length (mrest st)"
    using consumesD [OF assms(1), of st' st] consumesD [OF assms(2), of st' st]
    by (auto simp del: split_paired_All)
qed

lemma consumes_Grp:
  assumes "consumes r" shows "consumes (Grp i r)"
proof (rule consumesI)
  fix st st' assume "st' \<in> set (run (Grp i r) st)"
  then obtain x where "x \<in> set (run r st)" "mrest st' = mrest x" by auto
  then show "length (mrest st') < length (mrest st)"
    using consumesD [OF assms, of x st] by simp
qed

lemma consumes_Plus: "consumes r \<Longrightarrow> consumes (Plus r)"
  by (simp add: Plus_def consumes_Sq1)

lemma regex_iterate_next:
  "consumes r \<Longrightarrow> run r (n, x # s, []) = [] \<Longrightarrow> regex_iterate r n (x # s) = regex_iterate r (Suc n) s"
  by (rule regex_iterate_skip) (auto dest: search_from_shrinks)


section \<open>Whole-text matches\<close>

text \<open>
  The matches that use up the text. A repetition of a class before something that, started
  at a character of the class, never uses up the text is deterministic again.
\<close>

definition run_end :: "regex \<Rightarrow> mstate \<Rightarrow> mstate list" where
  "run_end r st = filter (\<lambda>st. mrest st = []) (run r st)"

lemma regex_match_run_end:
  "regex_match r s = (case run_end r (0, s, []) of [] \<Rightarrow> None | st # _ \<Rightarrow> Some (mcaps st))"
proof -
  have "List.find P xs = (case filter P xs of [] \<Rightarrow> None | x # _ \<Rightarrow> Some x)" for P and xs :: "mstate list"
    by (induction xs) auto
  then show ?thesis by (simp add: regex_match_def run_end_def split: list.split)
qed

lemma run_end_Sq: "run_end (Sq a b) st = concat (map (run_end b) (run a st))"
proof -
  have "filter P (concat (map f xs)) = concat (map (\<lambda>x. filter P (f x)) xs)" for P and f :: "mstate \<Rightarrow> mstate list" and xs
    by (induction xs) auto
  then show ?thesis by (simp add: run_end_def [abs_def])
qed

lemma run_end_Alt: "run_end (Alt a b) st = run_end a st @ run_end b st"
  by (simp add: run_end_def)

lemma run_end_Eps: "run_end Eps st = (if mrest st = [] then [st] else [])"
  by (simp add: run_end_def)

lemma run_end_Eol: "run_end Eol st = (if mrest st = [] then [st] else [])"
  by (simp add: run_end_def)

lemma run_end_Opt: "run_end (Opt r) st = run_end r st @ (if mrest st = [] then [st] else [])"
  by (simp add: Opt_def run_end_Alt run_end_Eps)

lemma run_end_Grp: "run_end (Grp i r) st = map (\<lambda>st'. (mpos st', mrest st',
     (i, take (mpos st' - mpos st) (mrest st)) # mcaps st')) (run_end r st)"
  by (simp add: run_end_def filter_map comp_def)

definition rejects_end :: "regex \<Rightarrow> (char \<Rightarrow> bool) \<Rightarrow> bool" where
  "rejects_end r P \<longleftrightarrow> (\<forall>n x t c. P x \<longrightarrow> run_end r (n, x # t, c) = [])"

lemma rejects_endD: "rejects_end r P \<Longrightarrow> P x \<Longrightarrow> run_end r (n, x # t, c) = []"
  by (simp add: rejects_end_def)

lemma rejects_end: "rejects r P \<Longrightarrow> rejects_end r P"
  by (simp add: rejects_def rejects_end_def run_end_def)

lemma rejects_end_Opt: "rejects r P \<Longrightarrow> rejects_end (Opt r) P"
  using rejects_end [of r P] by (simp add: rejects_end_def run_end_Opt)

lemma run_end_Sq_Cls: "run_end (Sq (Cls P) r) (n, s, c) = (case s of
     [] \<Rightarrow> [] | x # t \<Rightarrow> if P x then run_end r (Suc n, t, c) else [])"
  by (simp add: run_end_Sq split: list.split)

lemma run_end_Sq_Bol: "run_end (Sq Bol r) (n, s, c) = (if n = 0 then run_end r (n, s, c) else [])"
  by (simp add: run_end_Sq)

lemma run_end_Sq_Star:
  assumes "rejects_end r P"
  shows "run_end (Sq (Star (Cls P)) r) (n, s, c) =
    run_end r (n + length (takeWhile P s), dropWhile P s, c)"
  unfolding run_end_Sq by (rule star_cls_then) (rule rejects_endD [OF assms])

lemma run_end_Star:
  "run_end (Star (Cls P)) (n, s, c) =
    (if dropWhile P s = [] then [(n + length (takeWhile P s), [], c)] else [])"
proof -
  have "run_end (Star (Cls P)) (n, s, c) =
      concat (map (\<lambda>st. if mrest st = [] then [st] else []) (run (Star (Cls P)) (n, s, c)))"
  proof -
    have "filter P xs = concat (map (\<lambda>st. if P st then [st] else []) xs)" for P and xs :: "mstate list"
      by (induction xs) auto
    then show ?thesis unfolding run_end_def by blast
  qed
  also have "\<dots> = (if dropWhile P s = [] then [(n + length (takeWhile P s), [], c)] else [])"
    by (subst star_cls_then) simp_all
  finally show ?thesis .
qed

lemma run_end_Sq_Plus:
  assumes "rejects_end r P"
  shows "run_end (Sq (Plus (Cls P)) r) (n, s, c) = (if takeWhile P s = [] then []
    else run_end r (n + length (takeWhile P s), dropWhile P s, c))"
proof (cases s)
  case (Cons x t)
  then show ?thesis
    using run_end_Sq_Star [OF assms, of "Suc n" t c]
    by (simp add: run_end_Sq run_Plus_Cls del: run.simps(5))
qed (simp add: run_end_Sq Plus_def)

lemma run_end_Sq_Grp_Star:
  assumes "rejects_end r P"
  shows "run_end (Sq (Grp i (Star (Cls P))) r) (n, s, c) =
    run_end r (n + length (takeWhile P s), dropWhile P s, (i, takeWhile P s) # c)"
proof -
  let ?K = "\<lambda>st. run_end r (mpos st, mrest st, (i, take (mpos st - n) s) # mcaps st)"
  have "run_end (Sq (Grp i (Star (Cls P))) r) (n, s, c) = concat (map ?K (run (Star (Cls P)) (n, s, c)))"
    by (simp add: run_end_Sq comp_def del: run.simps(5))
  also have "\<dots> = ?K (n + length (takeWhile P s), dropWhile P s, c)"
    by (rule star_cls_then) (use rejects_endD [OF assms] in simp)
  finally show ?thesis by simp
qed

lemma run_end_Sq_Grp_Plus:
  assumes "rejects_end r P"
  shows "run_end (Sq (Grp i (Plus (Cls P))) r) (n, s, c) = (if takeWhile P s = [] then []
    else run_end r (n + length (takeWhile P s), dropWhile P s, (i, takeWhile P s) # c))"
proof (cases s)
  case (Cons x t)
  show ?thesis
  proof (cases "P x")
    case True
    let ?K = "\<lambda>st. run_end r (mpos st, mrest st, (i, take (mpos st - n) s) # mcaps st)"
    have "run_end (Sq (Grp i (Plus (Cls P))) r) (n, s, c) =
        concat (map ?K (run (Star (Cls P)) (Suc n, t, c)))"
      using True Cons by (simp del: run.simps(5) add: run_end_Sq run_Plus_Cls comp_def)
    also have "\<dots> = ?K (Suc n + length (takeWhile P t), dropWhile P t, c)"
      by (rule star_cls_then) (use rejects_endD [OF assms] in simp)
    finally show ?thesis using True Cons by simp
  qed (simp add: Cons run_end_Sq run_Plus_Cls)
qed (simp add: run_end_Sq run_Plus_Cls)

text \<open>\<open>.*r\<close> with a class: some suffix reached through the class matches.\<close>

lemma run_end_Sq_Star_iff:
  "run_end (Sq (Star (Cls P)) r) (n, s, c) \<noteq> [] \<longleftrightarrow>
    (\<exists>i \<le> length (takeWhile P s). run_end r (n + i, drop i s, c) \<noteq> [])"
  by (auto simp: run_end_Sq run_Star_Cls_list less_Suc_eq_le simp del: run.simps upt_Suc)

lemma regex_match_None_iff: "regex_match r s = None \<longleftrightarrow> run_end r (0, s, []) = []"
  by (simp add: regex_match_run_end split: list.split)


section \<open>Matching with a continuation\<close>

definition run_k :: "regex \<Rightarrow> (mstate \<Rightarrow> mstate list) \<Rightarrow> mstate \<Rightarrow> mstate list" where
  "run_k r K st = concat (map K (run r st))"

lemma run_k_Sq: "run_k (Sq a b) K st = run_k a (run_k b K) st"
proof -
  have "concat (map K (concat (map f xs))) = concat (map (\<lambda>x. concat (map K (f x))) xs)"
    for f :: "mstate \<Rightarrow> mstate list" and xs
    by (induction xs) auto
  then show ?thesis by (simp add: run_k_def [abs_def])
qed

lemma run_k_Grp: "run_k (Grp i r) K st = run_k r (\<lambda>st'. K (mpos st', mrest st',
     (i, take (mpos st' - mpos st) (mrest st)) # mcaps st')) st"
  by (simp add: run_k_def comp_def)

lemma run_k_Cls: "run_k (Cls P) K (n, s, c) = (case s of
     [] \<Rightarrow> [] | x # t \<Rightarrow> if P x then K (Suc n, t, c) else [])"
  by (simp add: run_k_def split: list.split)

lemma run_k_Star:
  assumes "\<And>m x t. P x \<Longrightarrow> K (m, x # t, c) = []"
  shows "run_k (Star (Cls P)) K (n, s, c) = K (n + length (takeWhile P s), dropWhile P s, c)"
  unfolding run_k_def by (rule star_cls_then) (rule assms)

lemma run_k_Plus:
  assumes "\<And>m x t. P x \<Longrightarrow> K (m, x # t, c) = []"
  shows "run_k (Plus (Cls P)) K (n, s, c) =
    (if takeWhile P s = [] then [] else K (n + length (takeWhile P s), dropWhile P s, c))"
proof (cases s)
  case (Cons x t)
  then show ?thesis
    using run_k_Star [of P K c "Suc n" t] assms
    by (simp add: run_k_def run_Plus_Cls del: run.simps(5))
qed (simp add: run_k_def run_Plus_Cls)

lemma run_end_Sq_k: "run_end (Sq a b) st = run_k a (run_end b) st"
  by (simp add: run_end_Sq run_k_def)

text \<open>A literal string.\<close>

fun Lits :: "string \<Rightarrow> regex \<Rightarrow> regex" where
  "Lits [] r = r"
| "Lits (c # cs) r = Sq (Lit c) (Lits cs r)"

lemma run_end_Lits: "run_end (Lits w r) (n, s, c) =
   (if take (length w) s = w then run_end r (n + length w, drop (length w) s, c) else [])"
proof (induction w arbitrary: n s)
  case (Cons x w)
  then show ?case by (cases s) (auto simp: Lit_def run_end_Sq_Cls)
qed simp

end
