(* ===== verification/Errors.thy ===== *)
theory Errors
  imports Prelude
begin

text \<open>
  The exception classes of the program, one datatype per header, and what their
  constructors put into the message. The class hierarchy is the nesting of the datatypes
  in \<open>exn\<close>; a \<open>catch\<close> clause of the code is one of the \<open>is_\<close> predicates or a
  constructor pattern. Exceptions of libraries are the last constructors.
\<close>

type_synonym port_type = "16 word"

definition quoted :: "string \<Rightarrow> string" where
  "quoted s = [DQUOTE] @ s @ [DQUOTE]"

section \<open>base/mapped_file_exceptions\<close>

datatype mapped_file_error =
    Mf_path_not_found string
  | Mf_path_is_directory string
  | Mf_incorrect_path string

fun mapped_file_what :: "mapped_file_error \<Rightarrow> string" where
  "mapped_file_what (Mf_path_not_found path) = ''Mapped file: '' @ ''Path not found: '' @ quoted path"
| "mapped_file_what (Mf_path_is_directory path) = ''Mapped file: '' @ ''Path is directory: '' @ quoted path"
| "mapped_file_what (Mf_incorrect_path path) = ''Mapped file: '' @ ''Path is incorrect: '' @ quoted path"

section \<open>server/exceptions, server/protocol/exceptions, server/protocol/http/exceptions\<close>

definition server_error_what :: "string \<Rightarrow> string" where
  "server_error_what what_arg = ''Server: '' @ what_arg"

definition protocol_error_what :: "string \<Rightarrow> string" where
  "protocol_error_what what_arg = server_error_what (''Protocol: '' @ what_arg)"

datatype http_error =
    Incorrect_start_string string
  | Uri_parse_error string
  | Unimplemented_method string
  | Incorrect_protocol string
  | Unsupported_protocol_version string
  | Incorrect_header_string string
  | Empty_header_string
  | Header_required string
  | Incorrect_host_header string
  | Incorrect_port string
  | Content_length_must_be_0 string

fun http_error_arg :: "http_error \<Rightarrow> string" where
  "http_error_arg (Incorrect_start_string str) = ''Incorrect start string: '' @ quoted str"
| "http_error_arg (Uri_parse_error uri) = ''Can'' @ [CHR 0x27] @ ''t parse URI: '' @ quoted uri"
| "http_error_arg (Unimplemented_method m) = ''Unimplemented method: '' @ quoted m"
| "http_error_arg (Incorrect_protocol p) = ''Incorrect protocol: '' @ quoted p"
| "http_error_arg (Unsupported_protocol_version v) = ''Unsupported protocol version: '' @ quoted v"
| "http_error_arg (Incorrect_header_string str) = ''Incorrect header string: '' @ quoted str"
| "http_error_arg Empty_header_string = ''Empty header string''"
| "http_error_arg (Header_required h) = ''Header required: '' @ quoted h"
| "http_error_arg (Incorrect_host_header h) = ''Incorrect Host header: '' @ quoted h"
| "http_error_arg (Incorrect_port p) = ''Incorrect port: '' @ quoted p"
| "http_error_arg (Content_length_must_be_0 m) = ''Content length must be 0 for method: '' @ quoted m"

definition http_what :: "http_error \<Rightarrow> string" where
  "http_what e = protocol_error_what (''HTTP: '' @ http_error_arg e)"

section \<open>server/host/exceptions\<close>

datatype host_error =
    Host_error string               \<comment> \<open>the base class itself\<close>
  | Incorrect_config string
  | Host_exists string
  | Host_not_exists
  | Host_not_found string
  | Host_manager_not_constructed
  | Port_not_allowed string port_type
  | Method_not_allowed string
  | Path_forbidden string
  | Path_forbidden_msg string string
  | Path_not_found string
  | Path_is_directory string
  | Incorrect_uri string

fun host_error_arg :: "host_error \<Rightarrow> string" where
  "host_error_arg (Host_error what_arg) = what_arg"
| "host_error_arg (Incorrect_config what_arg) = ''Incorrect config: '' @ what_arg"
| "host_error_arg (Host_exists name) = ''Host already exists: '' @ quoted name"
| "host_error_arg Host_not_exists = ''Host not exists. Are you kidding?''"
| "host_error_arg (Host_not_found name) = ''Host not found: '' @ quoted name"
| "host_error_arg Host_manager_not_constructed = ''Host manager not constructed''"
| "host_error_arg (Port_not_allowed host port) =
     ''Port not allowed: '' @ to_string (unat port) @ ''(host: '' @ quoted host @ '')''"
| "host_error_arg (Method_not_allowed m) = ''Method not allowed: '' @ quoted m"
| "host_error_arg (Path_forbidden path) = ''Path forbidden: '' @ quoted path"
| "host_error_arg (Path_forbidden_msg path message) = ''Path forbidden: '' @ quoted path @ '': '' @ message"
| "host_error_arg (Path_not_found path) = ''Path not found: '' @ quoted path"
| "host_error_arg (Path_is_directory path) = ''Path is directory: '' @ quoted path"
| "host_error_arg (Incorrect_uri uri) = ''Incorrect URI: '' @ quoted uri"

definition host_what :: "host_error \<Rightarrow> string" where
  "host_what e = server_error_what (''Host: '' @ host_error_arg e)"

section \<open>templatizer: exceptions, chunk_exceptions, model_exceptions, page_exceptions\<close>

datatype page_error =
    Page_error string               \<comment> \<open>the base class itself\<close>
  | File_mapping_error string string
  | File_parsing_error string string
  | Page_path_not_found string

datatype model_error =
    Model_error string
  | Variable_not_found string

datatype templatizer_error =
    Page_err page_error
  | Model_err model_error
  | Chunk_error string string

definition templatizer_error_what :: "string \<Rightarrow> string" where
  "templatizer_error_what what_arg = ''Templatizer: '' @ what_arg"

fun page_error_arg :: "page_error \<Rightarrow> string" where
  "page_error_arg (Page_error what_arg) = what_arg"
| "page_error_arg (File_mapping_error file message) = ''File '' @ quoted file @ '' mapping error: '' @ message"
| "page_error_arg (File_parsing_error file message) = ''File '' @ quoted file @ '' parsing error: '' @ message"
| "page_error_arg (Page_path_not_found path) = ''Path not found: '' @ quoted path"

fun model_error_arg :: "model_error \<Rightarrow> string" where
  "model_error_arg (Model_error what_arg) = what_arg"
| "model_error_arg (Variable_not_found var) = ''Variable not found: '' @ quoted var"

fun templatizer_what :: "templatizer_error \<Rightarrow> string" where
  "templatizer_what (Page_err e) = templatizer_error_what (''Page: '' @ page_error_arg e)"
| "templatizer_what (Model_err e) = templatizer_error_what (''Model: '' @ model_error_arg e)"
| "templatizer_what (Chunk_error cmd what_arg) =
     templatizer_error_what (''Chunk '' @ quoted cmd @ '': '' @ what_arg)"

section \<open>logic/exceptions\<close>

datatype logic_error =
    Global_instance_init_error string
  | Mongodb_incorrect_uri string
  | Mongodb_connection_error string
  | Incorrect_cursor
  | User_not_found string
  | Duplicate_user_found string
  | Password_not_match string string
  | Session_error string string
  | Session_not_found string
  | Cant_start_session string
  | Cant_create_user_ref string
  | Incorrect_form string

fun logic_error_arg :: "logic_error \<Rightarrow> string" where
  "logic_error_arg (Global_instance_init_error d) = ''Can'' @ [CHR 0x27] @ ''t initialize global instance: '' @ d"
| "logic_error_arg (Mongodb_incorrect_uri d) = ''Incorrect MongoDB URI: '' @ d"
| "logic_error_arg (Mongodb_connection_error d) = ''Can'' @ [CHR 0x27] @ ''t connect to MongoDB: '' @ d"
| "logic_error_arg Incorrect_cursor = ''Incorrect mongo cursor''"
| "logic_error_arg (User_not_found d) = ''User not found: '' @ d"
| "logic_error_arg (Duplicate_user_found d) = ''Duplicate user found: '' @ d"
| "logic_error_arg (Password_not_match uid pw) =
     ''Password not match for id: '' @ quoted uid @ '' and password: '' @ quoted pw"
| "logic_error_arg (Session_error sid message) = ''Session error: '' @ quoted sid @ '': '' @ message"
| "logic_error_arg (Session_not_found sid) = ''Session error: '' @ quoted sid @ '': '' @ ''Not found''"
| "logic_error_arg (Cant_start_session uid) =
     ''Can'' @ [CHR 0x27] @ ''t start session for user id: '' @ quoted uid"
| "logic_error_arg (Cant_create_user_ref uid) =
     ''Can'' @ [CHR 0x27] @ ''t create user ref for user id: '' @ quoted uid"
| "logic_error_arg (Incorrect_form d) = ''Incorrect form: '' @ d"

definition logic_what :: "logic_error \<Rightarrow> string" where
  "logic_what e = ''Logic: '' @ logic_error_arg e"

text \<open>\<open>logic::session_not_found\<close> derives from \<open>logic::session_error\<close>.\<close>

fun is_session_error :: "logic_error \<Rightarrow> bool" where
  "is_session_error (Session_error _ _) = True"
| "is_session_error (Session_not_found _) = True"
| "is_session_error _ = False"

section \<open>system\_/exceptions\<close>

datatype system_error =
    Incorrect_process_id string
  | Invalid_signal string
  | Permission_error
  | Process_not_found
  | Unknown_error

text \<open>The message each passes to \<open>std::system_error\<close>; \<open>err\<close> is \<open>std::strerror(errno)\<close>.\<close>

fun system_error_arg :: "string \<Rightarrow> system_error \<Rightarrow> string" where
  "system_error_arg err (Incorrect_process_id message) = ''Incorrect process id: '' @ message"
| "system_error_arg err (Invalid_signal message) = ''Invalid signal: '' @ message @ '': '' @ err"
| "system_error_arg err Permission_error = ''Permission error: '' @ err"
| "system_error_arg err Process_not_found = ''Process not found: '' @ err"
| "system_error_arg err Unknown_error = ''Unknown error: '' @ err"

section \<open>All exceptions\<close>

datatype fs_errc = No_such_file_or_directory | Permission_denied | Other_errc

datatype interprocess_errc = Not_such_file_or_directory | Not_found_error | Invalid_argument_error | Other_error

datatype exn =
    Mapped mapped_file_error
  | Http http_error
  | Host host_error
  | Templ templatizer_error
  | Logic logic_error
  | Sys system_error
  | Out_of_range string            \<comment> \<open>\<open>std::out_of_range\<close>\<close>
  | Std_logic string               \<comment> \<open>\<open>std::logic_error\<close> and its other library subclasses\<close>
  | Std_exception string           \<comment> \<open>any other \<open>std::exception\<close>\<close>
  | Fs_error fs_errc string        \<comment> \<open>\<open>boost::filesystem::filesystem_error\<close>\<close>
  | Interprocess interprocess_errc string
  | Mongo_operation string         \<comment> \<open>\<open>mongo::OperationException\<close>\<close>
  | Non_std                        \<comment> \<open>not a \<open>std::exception\<close>\<close>

text \<open>\<open>catch (const std::exception &)\<close>\<close>

fun is_std_exception :: "exn \<Rightarrow> bool" where
  "is_std_exception Non_std = False"
| "is_std_exception _ = True"

text \<open>\<open>catch (const std::logic_error &)\<close>\<close>

fun is_std_logic_error :: "exn \<Rightarrow> bool" where
  "is_std_logic_error (Mapped _) = True"
| "is_std_logic_error (Http _) = True"
| "is_std_logic_error (Host _) = True"
| "is_std_logic_error (Templ _) = True"
| "is_std_logic_error (Logic _) = True"
| "is_std_logic_error (Out_of_range _) = True"
| "is_std_logic_error (Std_logic _) = True"
| "is_std_logic_error _ = False"

text \<open>\<open>e.what()\<close>; what libraries put there is kept as the constructor's argument.\<close>

fun what :: "exn \<Rightarrow> string" where
  "what (Mapped e) = mapped_file_what e"
| "what (Http e) = http_what e"
| "what (Host e) = host_what e"
| "what (Templ e) = templatizer_what e"
| "what (Logic e) = logic_what e"
| "what (Sys e) = system_error_arg [] e"
| "what (Out_of_range s) = s"
| "what (Std_logic s) = s"
| "what (Std_exception s) = s"
| "what (Fs_error _ s) = s"
| "what (Interprocess _ s) = s"
| "what (Mongo_operation s) = s"
| "what Non_std = []"

lemma std_logic_is_std: "is_std_logic_error e \<Longrightarrow> is_std_exception e"
  by (cases e) auto

end
