(* ===== verification/Http_Types.thy ===== *)
theory Http_Types
  imports Errors
begin

text \<open>
  Constants of the protocol (\<open>server/protocol/http.h\<close>, \<open>http.cpp\<close>), its methods and
  versions with their names, and the table of statuses (\<open>status.h\<close>, \<open>statuses.hpp\<close>).
\<close>

section \<open>Constant strings\<close>

definition default_port :: port_type where "default_port = 80"

definition str_space :: string where "str_space = '' ''"
definition str_newline :: string where "str_newline = [CR, LF]"
definition str_HTTP :: string where "str_HTTP = ''HTTP''"
definition str_slash :: string where "str_slash = ''/''"
definition str_header_separator :: string where "str_header_separator = '': ''"
definition header_body_separator :: string where "header_body_separator = [CR, LF, CR, LF]"

definition header_content_length :: string where "header_content_length = ''Content-Length''"
definition header_content_type :: string where "header_content_type = ''Content-Type''"
definition header_server :: string where "header_server = ''Server''"
definition header_connection :: string where "header_connection = ''Connection''"
definition header_host :: string where "header_host = ''Host''"
definition header_cookie :: string where "header_cookie = ''Cookie''"
definition header_set_cookie :: string where "header_set_cookie = ''Set-Cookie''"
definition header_location :: string where "header_location = ''Location''"

definition text_plain :: string where "text_plain = ''text/plain''"
definition text_html :: string where "text_html = ''text/html''"
definition application_json :: string where "application_json = ''application/json''"

lemmas str_defs = str_space_def str_newline_def str_HTTP_def str_slash_def
  str_header_separator_def header_body_separator_def

lemmas header_name_defs = header_content_length_def header_content_type_def header_server_def
  header_connection_def header_host_def header_cookie_def header_set_cookie_def header_location_def

section \<open>Methods and versions\<close>

datatype http_method = M_unknown | GET | HEAD | POST | DELETE

datatype http_version = V_unknown | V_1_1


fun method_to_str :: "http_method \<Rightarrow> string" where
  "method_to_str M_unknown = ''unknown''"
| "method_to_str GET = ''GET''"
| "method_to_str HEAD = ''HEAD''"
| "method_to_str POST = ''POST''"
| "method_to_str DELETE = ''DELETE''"

definition str_to_method_map :: "(string \<times> http_method) list" where
  "str_to_method_map = [(''GET'', GET), (''HEAD'', HEAD), (''POST'', POST),
     (''DELETE'', DELETE), (''unknown'', M_unknown)]"

definition str_to_method :: "string \<Rightarrow> http_method" where
  "str_to_method str = (case map_of str_to_method_map str of
     None \<Rightarrow> M_unknown | Some m \<Rightarrow> m)"

fun version_to_str :: "http_version \<Rightarrow> string" where
  "version_to_str V_unknown = ''unknown''"
| "version_to_str V_1_1 = ''1.1''"

definition str_to_version_map :: "(string \<times> http_version) list" where
  "str_to_version_map = [(''1.1'', V_1_1), (''unknown'', V_unknown)]"

definition str_to_version :: "string \<Rightarrow> http_version" where
  "str_to_version str = (case map_of str_to_version_map str of
     None \<Rightarrow> V_unknown | Some v \<Rightarrow> v)"

lemma str_to_method_to_str: "str_to_method (method_to_str m) = m"
  by (cases m) (simp_all add: str_to_method_def str_to_method_map_def)

lemma method_to_str_to_method:
  "str_to_method s \<noteq> M_unknown \<Longrightarrow> method_to_str (str_to_method s) = s"
  by (auto simp: str_to_method_def str_to_method_map_def split: if_splits)

lemma str_to_version_to_str: "str_to_version (version_to_str v) = v"
  by (cases v) (simp_all add: str_to_version_def str_to_version_map_def)

lemma str_to_version_1_1_iff: "str_to_version s = V_1_1 \<longleftrightarrow> s = ''1.1''"
  by (auto simp: str_to_version_def str_to_version_map_def)

section \<open>Statuses\<close>

record status =
  code :: nat
  code_str :: string
  description :: string
  start_string :: string

text \<open>The constructor computes \<open>code_str_\<close> from the number.\<close>

definition mk_status :: "nat \<Rightarrow> string \<Rightarrow> string \<Rightarrow> status" where
  "mk_status c d s = \<lparr>code = c, code_str = to_string c, description = d, start_string = s\<rparr>"

text \<open>
  The macro \<open>HTTP_STATUS\<close>: its second argument is used as a number and, stringised, inside
  the start string; here it is the token.
\<close>

definition HTTP_STATUS :: "string \<Rightarrow> string \<Rightarrow> status" where
  "HTTP_STATUS tok desc =
     mk_status (dec_val tok) desc ('' '' @ tok @ '' '' @ desc @ [CR, LF])"

definition statuses :: "(string \<times> status) list" where
  "statuses = [
   (''continue_'', HTTP_STATUS ''100'' ''Continue''),
   (''switching_protocols'', HTTP_STATUS ''101'' ''Switching Protocols''),
   (''processing'', HTTP_STATUS ''102'' ''Processing''),
   (''name_not_resolved'', HTTP_STATUS ''105'' ''Name Not Resolved''),
   (''ok'', HTTP_STATUS ''200'' ''OK''),
   (''created'', HTTP_STATUS ''201'' ''Created''),
   (''accepted'', HTTP_STATUS ''202'' ''Accepted''),
   (''non_authoritative_information'', HTTP_STATUS ''204'' ''Non-Authoritative Information''),
   (''no_content'', HTTP_STATUS ''204'' ''No Content''),
   (''reset_content'', HTTP_STATUS ''205'' ''Reset Content''),
   (''partial_content'', HTTP_STATUS ''206'' ''Partial Content''),
   (''multi_status'', HTTP_STATUS ''207'' ''Multi-Status''),
   (''im_used'', HTTP_STATUS ''226'' ''IM Used''),
   (''multiple_choices'', HTTP_STATUS ''300'' ''Multiple Choices''),
   (''moded_permanently'', HTTP_STATUS ''301'' ''Moved Permanently''),
   (''moved_temporarily'', HTTP_STATUS ''302'' ''Moved Temporarily''),
   (''found'', HTTP_STATUS ''302'' ''Found''),
   (''see_other'', HTTP_STATUS ''303'' ''See Other''),
   (''not_modified'', HTTP_STATUS ''304'' ''Not Modified''),
   (''use_proxy'', HTTP_STATUS ''305'' ''Use Proxy''),
   (''temporary_redirect'', HTTP_STATUS ''307'' ''Temporary Redirect''),
   (''bad_request'', HTTP_STATUS ''400'' ''Bad Request''),
   (''unauthorized'', HTTP_STATUS ''401'' ''Unauthorized''),
   (''payment_required'', HTTP_STATUS ''402'' ''Payment Required''),
   (''forbidden'', HTTP_STATUS ''403'' ''Forbidden''),
   (''not_found'', HTTP_STATUS ''404'' ''Not Found''),
   (''method_not_allowed'', HTTP_STATUS ''405'' ''Method Not Allowed''),
   (''not_acceptable'', HTTP_STATUS ''406'' ''Not Acceptable''),
   (''proxy_authentication_required'', HTTP_STATUS ''407'' ''Proxy Authentication Required''),
   (''request_timeout'', HTTP_STATUS ''408'' ''Request Timeout''),
   (''conflict'', HTTP_STATUS ''409'' ''Conflict''),
   (''gone'', HTTP_STATUS ''410'' ''Gone''),
   (''length_required'', HTTP_STATUS ''411'' ''Length Required''),
   (''precondition_failed'', HTTP_STATUS ''412'' ''Precondition Failed''),
   (''request_entity_too_large'', HTTP_STATUS ''413'' ''Request Entity Too Large''),
   (''request_uri_too_large'', HTTP_STATUS ''414'' ''Request-URI Too Large''),
   (''unsupported_media_type'', HTTP_STATUS ''415'' ''Unsupported Media Type''),
   (''requested_range_not_satisfiable'', HTTP_STATUS ''416'' ''Requested Range Not Satisfiable''),
   (''expectation_failed'', HTTP_STATUS ''417'' ''Expectation Failed''),
   (''im_a_teapot'', HTTP_STATUS ''418'' (''I'' @ [CHR 0x27] @ ''m a teapot'')),
   (''unprocessable_entity'', HTTP_STATUS ''422'' ''Unprocessable Entity''),
   (''locked'', HTTP_STATUS ''423'' ''Locked''),
   (''failed_dependency'', HTTP_STATUS ''424'' ''Failed Dependency''),
   (''unordered_collection'', HTTP_STATUS ''425'' ''Unordered Collection''),
   (''upgrade_required'', HTTP_STATUS ''426'' ''Upgrade Required''),
   (''precondition_required'', HTTP_STATUS ''428'' ''Precondition Required''),
   (''too_many_requests'', HTTP_STATUS ''429'' ''Too Many Requests''),
   (''request_header_fields_too_large'', HTTP_STATUS ''431'' ''Request Header Fields Too Large''),
   (''requested_host_unavailable'', HTTP_STATUS ''434'' ''Requested Host Unavailable''),
   (''retry_with'', HTTP_STATUS ''449'' ''Retry With''),
   (''unavailable_for_legal_reasons'', HTTP_STATUS ''451'' ''Unavailable For Legal Reasons''),
   (''unrecoverable_error'', HTTP_STATUS ''456'' ''Unrecoverable Error''),
   (''internal_server_error'', HTTP_STATUS ''500'' ''Internal Server Error''),
   (''not_implemented'', HTTP_STATUS ''501'' ''Not Implemented''),
   (''bad_gateway'', HTTP_STATUS ''502'' ''Bad Gateway''),
   (''service_unavailable'', HTTP_STATUS ''503'' ''Service Unavailable''),
   (''gateway_timeout'', HTTP_STATUS ''504'' ''Gateway Timeout''),
   (''http_version_not_supported'', HTTP_STATUS ''505'' ''HTTP Version Not Supported''),
   (''variant_also_negotiates'', HTTP_STATUS ''506'' ''Variant Also Negotiates''),
   (''insufficient_storage'', HTTP_STATUS ''507'' ''Insufficient Storage''),
   (''loop_detected'', HTTP_STATUS ''508'' ''Loop Detected''),
   (''bandwidth_limit_exceeded'', HTTP_STATUS ''509'' ''Bandwidth Limit Exceeded''),
   (''not_extended'', HTTP_STATUS ''510'' ''Not Extended''),
   (''network_authentication_required'', HTTP_STATUS ''511'' ''Network Authentication Required'')]"

definition status_ok :: status where
  "status_ok = HTTP_STATUS ''200'' ''OK''"

definition status_see_other :: status where
  "status_see_other = HTTP_STATUS ''303'' ''See Other''"

definition status_bad_request :: status where
  "status_bad_request = HTTP_STATUS ''400'' ''Bad Request''"

definition status_forbidden :: status where
  "status_forbidden = HTTP_STATUS ''403'' ''Forbidden''"

definition status_not_found :: status where
  "status_not_found = HTTP_STATUS ''404'' ''Not Found''"

definition status_internal_server_error :: status where
  "status_internal_server_error = HTTP_STATUS ''500'' ''Internal Server Error''"

definition status_not_implemented :: status where
  "status_not_implemented = HTTP_STATUS ''501'' ''Not Implemented''"

definition status_http_version_not_supported :: status where
  "status_http_version_not_supported = HTTP_STATUS ''505'' ''HTTP Version Not Supported''"

lemmas status_defs = status_ok_def status_see_other_def status_bad_request_def
  status_forbidden_def status_not_found_def status_internal_server_error_def
  status_not_implemented_def status_http_version_not_supported_def

lemma HTTP_STATUS_sel [simp]:
  "description (HTTP_STATUS c d) = d"
  "start_string (HTTP_STATUS c d) = '' '' @ c @ '' '' @ d @ [CR, LF]"
  "code (HTTP_STATUS c d) = dec_val c"
  "code_str (HTTP_STATUS c d) = to_string (dec_val c)"
  by (simp_all add: HTTP_STATUS_def mk_status_def)

text \<open>A start string is the one the other members determine.\<close>

definition status_consistent :: "status \<Rightarrow> bool" where
  "status_consistent st \<longleftrightarrow>
     code_str st = to_string (code st) \<and>
     start_string st = str_space @ code_str st @ str_space @ description st @ str_newline \<and>
     100 \<le> code st \<and> code st < 600 \<and> CR \<notin> set (description st) \<and> LF \<notin> set (description st)"

end
