(* ===== verification/Http_Utils.thy ===== *)
theory Http_Utils
  imports Regex Http_Types
begin

text \<open>
  \<open>server/protocol/http/utils\<close>: decoding of percent-encoded strings and of the
  arguments of a URI or of a form, first as the code does it (regular expressions and an
  iterator over the matches), then as plain scanners, and the proof that both agree.
\<close>

section \<open>\<open>decode_str\<close>\<close>

definition percent_regex :: regex where
  "percent_regex = Sq (Lit CHR ''%'') (Grp 1 (Sq (Cls is_xdigit) (Cls is_xdigit)))"

text \<open>\<open>std::stoi(s, nullptr, 16)\<close> of a string of hexadecimal digits.\<close>

definition xdigit_val :: "char \<Rightarrow> nat" where
  "xdigit_val c = (if is_digit c then of_char c - 48
     else if is_upper c then of_char c - 55 else of_char c - 87)"

definition stoi16 :: "string \<Rightarrow> nat" where
  "stoi16 s = foldl (\<lambda>n c. 16 * n + xdigit_val c) 0 s"

text \<open>
  The lambda \<open>add_data\<close> over its captured variables \<open>res\<close> and \<open>str_pos_old\<close>. The
  subtraction of the code cannot wrap, because matches come in the order of the text.
\<close>

definition add_data :: "string \<Rightarrow> nat \<Rightarrow> string \<times> nat \<Rightarrow> string \<times> nat" where
  "add_data str str_pos_curr = (\<lambda>(res, str_pos_old).
     let len = str_pos_curr - str_pos_old in
     if len > 0 then (res @ take len (drop str_pos_old str), str_pos_curr) else (res, str_pos_old))"

fun decode_loop :: "string \<Rightarrow> (nat \<times> nat \<times> caps) list \<Rightarrow> string \<times> nat \<Rightarrow> string \<times> nat" where
  "decode_loop str [] acc = acc"
| "decode_loop str ((position, len, m) # it) acc =
     (let (res, str_pos_old) = add_data str position acc in
      decode_loop str it (res @ [char_of (stoi16 (group 1 m))], str_pos_old + len))"

definition decode_str :: "string \<Rightarrow> string" where
  "decode_str str0 =
     (let str = map (\<lambda>c. if c = CHR ''+'' then CHR '' '' else c) str0;
          acc = decode_loop str (regex_iterate percent_regex 0 str) ([], 0)
      in fst (add_data str (length str) acc))"

section \<open>\<open>decode_uri_args\<close> and \<open>decode_uri\<close>\<close>

text \<open>A call of \<open>kv_action(key, value)\<close> or of \<open>k_action(key)\<close>.\<close>

datatype uri_item = KV string string | K string

definition is_sep :: "char \<Rightarrow> bool" where
  "is_sep c \<longleftrightarrow> c = CHR ''&'' \<or> c = CHR ''?''"

abbreviation not_sep :: "char \<Rightarrow> bool" where
  "not_sep c \<equiv> \<not> is_sep c"

definition args_regex :: regex where
  "args_regex =
     Sq (Opt (Grp 1 (Alt (Lit CHR ''&'') (Lit CHR ''?''))))
        (Grp 2 (Alt (Sq (Grp 3 (Plus (Cls not_sep))) (Sq (Lit CHR ''='') (Grp 4 (Star (Cls not_sep)))))
                    (Grp 5 (Plus (Cls not_sep)))))"

definition args_action :: "nat \<times> nat \<times> caps \<Rightarrow> uri_item" where
  "args_action = (\<lambda>(position, len, m).
     if length (group 3 m) > 0 then KV (decode_str (group 3 m)) (decode_str (group 4 m))
     else K (decode_str (group 5 m)))"

text \<open>The calls in order; the function itself always returns \<open>true\<close>.\<close>

definition decode_uri_args :: "string \<Rightarrow> bool \<times> uri_item list" where
  "decode_uri_args str =
     (True, if str = [] then [] else map args_action (regex_iterate args_regex 0 str))"

definition not_newline :: "char \<Rightarrow> bool" where
  "not_newline c \<longleftrightarrow> c \<noteq> CR \<and> c \<noteq> LF"

text \<open>What \<open>.\<close> matches in the ECMAScript grammar is \<open>not_newline\<close>.\<close>

definition base_regex :: regex where
  "base_regex = Sq (Grp 1 (Plus (Cls (\<lambda>c. c \<noteq> CHR ''?''))))
     (Opt (Grp 2 (Sq (Lit CHR ''?'') (Grp 3 (Star (Cls not_newline))))))"

text \<open>The result, the path (unchanged on failure) and the calls.\<close>

definition decode_uri :: "string \<Rightarrow> string \<Rightarrow> bool \<times> string \<times> uri_item list" where
  "decode_uri str path = (case regex_match base_regex str of
     None \<Rightarrow> (False, path, [])
   | Some m \<Rightarrow> (let (ok, items) = decode_uri_args (group 3 m) in (ok, group 1 m, items)))"

section \<open>The scanners\<close>

fun decode_ref :: "string \<Rightarrow> string" where
  "decode_ref (a # b # c # s) =
     (if a = CHR ''%'' \<and> is_xdigit b \<and> is_xdigit c then char_of (stoi16 [b, c]) # decode_ref s
      else (if a = CHR ''+'' then CHR '' '' else a) # decode_ref (b # c # s))"
| "decode_ref (a # s) = (if a = CHR ''+'' then CHR '' '' else a) # decode_ref s"
| "decode_ref [] = []"

function segments :: "string \<Rightarrow> string list" where
  "segments [] = []"
| "segments (c # s) = (if is_sep c then segments s
     else (c # takeWhile not_sep s) # segments (dropWhile not_sep s))"
  by pat_completeness auto
termination
  by (relation "measure length") (auto simp: less_Suc_eq_le length_dropWhile_le)

text \<open>A segment is split at its last \<open>=\<close>, unless that is its first character.\<close>

definition split_item :: "string \<Rightarrow> uri_item" where
  "split_item seg = (case split_last (\<lambda>c. c = CHR ''='') seg of
     Some (k, v) \<Rightarrow> if k = [] then K seg else KV k v
   | None \<Rightarrow> K seg)"

fun decode_item :: "uri_item \<Rightarrow> uri_item" where
  "decode_item (KV k v) = KV (decode_str k) (decode_str v)"
| "decode_item (K k) = K (decode_str k)"

section \<open>The code computes what the scanners do\<close>

lemma consumes_percent: "consumes percent_regex"
  by (simp add: percent_regex_def Lit_def consumes_Sq1 consumes_Cls)

lemma run_percent: "run percent_regex (n, s, []) =
   (case s of a # b # c # t \<Rightarrow>
      if a = CHR ''%'' \<and> is_xdigit b \<and> is_xdigit c then [(n + 3, t, [(1, [b, c])])] else []
    | _ \<Rightarrow> [])"
  by (auto simp: percent_regex_def Lit_def split: list.splits)

fun pct_ref :: "string \<Rightarrow> string" where
  "pct_ref (a # b # c # s) =
     (if a = CHR ''%'' \<and> is_xdigit b \<and> is_xdigit c then char_of (stoi16 [b, c]) # pct_ref s
      else a # pct_ref (b # c # s))"
| "pct_ref (a # s) = a # pct_ref s"
| "pct_ref [] = []"

lemma pct_ref_skip: "run percent_regex (n, x # s, []) = [] \<Longrightarrow> pct_ref (x # s) = x # pct_ref s"
  by (cases "x # s" rule: pct_ref.cases) (auto simp: run_percent split: if_splits)

lemma decode_loop_ref:
  "str = pre @ s \<Longrightarrow> old \<le> length pre \<Longrightarrow>
   fst (add_data str (length str) (decode_loop str (regex_iterate percent_regex (length pre) s) (res, old))) =
   res @ drop old pre @ pct_ref s"
proof (induction "length s" arbitrary: pre s res old rule: less_induct)
  case less
  show ?case
  proof (cases "run percent_regex (length pre, s, [])")
    case (Cons st sts)
    then obtain b c t where s: "s = CHR ''%'' # b # c # t" "is_xdigit b" "is_xdigit c"
      by (auto simp: run_percent split: list.splits if_splits)
    have it: "regex_iterate percent_regex (length pre) s =
        (length pre, 3, [(1, [b, c])]) # regex_iterate percent_regex (length pre + 3) t"
      using regex_iterate_hit [of percent_regex "length pre" s "length pre + 3" t "[(1, [b, c])]" "[]"] s
      by (simp add: run_percent)
    have ad: "add_data str (length pre) (res, old) = (res @ drop old pre, length pre)"
      using less.prems by (auto simp: add_data_def Let_def)
    have "fst (add_data str (length str) (decode_loop str
          (regex_iterate percent_regex (length (pre @ [CHR ''%'', b, c])) t)
          (res @ drop old pre @ [char_of (stoi16 [b, c])], length pre + 3))) =
        (res @ drop old pre @ [char_of (stoi16 [b, c])]) @
          drop (length pre + 3) (pre @ [CHR ''%'', b, c]) @ pct_ref t"
      by (rule less.hyps) (use less.prems s in simp_all)
    then show ?thesis unfolding it using s by (simp add: ad group_def numeral_3_eq_3)
  next
    case Nil
    show ?thesis
    proof (cases s)
      case Nil
      then show ?thesis using less.prems
        by (auto simp: regex_iterate_end run_percent add_data_def Let_def)
    next
      case (Cons x t)
      have "regex_iterate percent_regex (length pre) s = regex_iterate percent_regex (length (pre @ [x])) t"
        using regex_iterate_next [OF consumes_percent] Cons \<open>run percent_regex _ = []\<close> by simp
      moreover have "fst (add_data str (length str) (decode_loop str
          (regex_iterate percent_regex (length (pre @ [x])) t) (res, old))) =
          res @ drop old (pre @ [x]) @ pct_ref t"
        by (rule less.hyps) (use less.prems Cons in simp_all)
      moreover have "pct_ref s = x # pct_ref t"
        using pct_ref_skip Cons \<open>run percent_regex _ = []\<close> by simp
      ultimately show ?thesis using less.prems by simp
    qed
  qed
qed

lemma is_xdigit_space_plus [simp]: "\<not> is_xdigit CHR '' ''" "\<not> is_xdigit CHR ''+''"
  by (simp_all add: is_xdigit_def is_digit_def)

lemma pct_ref_plus:
  "pct_ref (map (\<lambda>c. if c = CHR ''+'' then CHR '' '' else c) s) = decode_ref s"
  by (induction s rule: decode_ref.induct) auto

lemma decode_str_eq_ref: "decode_str s = decode_ref s"
  using decode_loop_ref [of "map (\<lambda>c. if c = CHR ''+'' then CHR '' '' else c) s" "[]"
      "map (\<lambda>c. if c = CHR ''+'' then CHR '' '' else c) s" 0 "[]"]
  by (simp add: decode_str_def Let_def pct_ref_plus)

text \<open>The last \<open>=\<close> of a segment.\<close>

lemma split_last_Some:
  "split_last P u = Some (k, v) \<Longrightarrow> \<exists>x. u = k @ x # v \<and> P x \<and> (\<forall>y \<in> set v. \<not> P y)"
proof -
  assume a: "split_last P u = Some (k, v)"
  then obtain x where x: "dropWhile (\<lambda>x. \<not> P x) (rev u) = x # rev k"
    "v = rev (takeWhile (\<lambda>x. \<not> P x) (rev u))"
    by (auto simp: split_last_def split: list.splits)
  have "P x" using x(1) by (metis hd_dropWhile list.discI list.sel(1))
  moreover have "rev u = takeWhile (\<lambda>x. \<not> P x) (rev u) @ x # rev k"
    using x(1) by (metis takeWhile_dropWhile_id)
  then have "u = k @ x # v" using x(2) by (metis rev.simps(2) rev_append rev_rev_ident append_Cons append_Nil append_assoc)
  ultimately show ?thesis using x(2) by (auto dest: set_takeWhileD)
qed

lemma split_last_None: "split_last P u = None \<Longrightarrow> x \<in> set u \<Longrightarrow> \<not> P x"
  by (auto simp: split_last_def split: list.splits)

lemma split_last_iff: "P x \<Longrightarrow> (\<forall>y \<in> set v. \<not> P y) \<Longrightarrow> split_last P (k @ x # v) = Some (k, v)"
  by (simp add: split_last_def takeWhile_all dropWhile_all)

section \<open>Matches of \<open>args_regex\<close>\<close>

definition kv_regex :: regex where
  "kv_regex = Sq (Grp 3 (Plus (Cls not_sep))) (Sq (Lit CHR ''='') (Grp 4 (Star (Cls not_sep))))"

definition body_regex :: regex where
  "body_regex = Grp 2 (Alt kv_regex (Grp 5 (Plus (Cls not_sep))))"

lemma args_regex_alt:
  "args_regex = Sq (Opt (Grp 1 (Alt (Lit CHR ''&'') (Lit CHR ''?'')))) body_regex"
  by (simp add: args_regex_def body_regex_def kv_regex_def)

lemma consumes_body: "consumes body_regex"
  by (simp add: body_regex_def kv_regex_def consumes_Grp consumes_Alt consumes_Sq1 consumes_Plus consumes_Cls)

lemma consumes_args: "consumes args_regex"
  by (simp add: args_regex_alt consumes_Sq2 consumes_body)

lemma run_Plus_Cls_list:
  "run (Plus (Cls P)) (n, s, c) =
     map (\<lambda>i. (n + i, drop i s, c)) (rev [1..<Suc (length (takeWhile P s))])"
proof (cases s)
  case (Cons x t)
  show ?thesis
  proof (cases "P x")
    case True
    have "[Suc 0..<Suc (Suc (length (takeWhile P t)))] = map Suc [0..<Suc (length (takeWhile P t))]"
      by (simp only: map_Suc_upt)
    then show ?thesis using True Cons
      by (simp add: run_Plus_Cls run_Star_Cls_list rev_map comp_def del: upt_Suc run.simps)
  qed (simp add: Cons run_Plus_Cls)
qed (simp add: run_Plus_Cls)

lemma run_kv_list:
  "run kv_regex (n, s, c) = concat (map (\<lambda>i. run (Sq (Lit CHR ''='') (Grp 4 (Star (Cls not_sep))))
      (n + i, drop i s, (3, take i s) # c)) (rev [1..<Suc (length (takeWhile not_sep s))]))"
  by (simp add: kv_regex_def run_Plus_Cls_list comp_def del: run.simps(2,5) upt_Suc)

lemma run_eq_value:
  "run (Sq (Lit CHR ''='') (Grp 4 (Star (Cls not_sep)))) (m, s, c) = (case s of
     [] \<Rightarrow> []
   | x # t \<Rightarrow> if x = CHR ''='' then map (\<lambda>i. (Suc m + i, drop i t, (4, take i t) # c))
        (rev [0..<Suc (length (takeWhile not_sep t))]) else [])"
  by (cases s) (simp_all add: Lit_def run_Star_Cls_list comp_def del: run.simps(5) upt_Suc)

lemma run_kv_none:
  assumes "\<forall>i. 0 < i \<and> i < length (takeWhile not_sep s) \<longrightarrow> s ! i \<noteq> CHR ''=''"
  shows "run kv_regex (n, s, c) = []"
proof -
  let ?u = "takeWhile not_sep s"
  have "run (Sq (Lit CHR ''='') (Grp 4 (Star (Cls not_sep)))) (n + i, drop i s, (3, take i s) # c) = []"
    if "1 \<le> i" "i \<le> length ?u" for i
  proof (cases "i < length s")
    case True
    then have d: "drop i s = s ! i # drop (Suc i) s" by (simp add: Cons_nth_drop_Suc)
    have "s ! i \<noteq> CHR ''=''"
    proof (cases "i < length ?u")
      case False
      then have "i = length ?u" using that by simp
      then have "is_sep (s ! i)" using True nth_length_takeWhile [of not_sep s] by simp
      then show ?thesis by (auto simp: is_sep_def)
    qed (use assms that in auto)
    then show ?thesis by (simp add: run_eq_value d del: run.simps)
  next
    case False
    then show ?thesis by (simp add: run_eq_value del: run.simps)
  qed
  then show ?thesis by (auto simp add: run_kv_list simp del: run.simps upt_Suc)
qed

lemma upt_split: "i \<le> j \<Longrightarrow> j < k \<Longrightarrow> [i..<k] = [i..<j] @ j # [Suc j..<k]"
  using upt_add_eq_append [of i j "k - j"] by (simp add: upt_conv_Cons)

lemma run_kv_some:
  assumes u: "takeWhile not_sep s = k @ CHR ''='' # v" and k: "k \<noteq> []" and v: "CHR ''='' \<notin> set v"
  shows "\<exists>ys. run kv_regex (n, s, c) =
    (n + length (takeWhile not_sep s), dropWhile not_sep s, (4, v) # (3, k) # c) # ys"
proof -
  let ?u = "takeWhile not_sep s" and ?i = "length k"
  let ?K = "\<lambda>i. run (Sq (Lit CHR ''='') (Grp 4 (Star (Cls not_sep)))) (n + i, drop i s, (3, take i s) # c)"
  have s: "s = k @ CHR ''='' # v @ dropWhile not_sep s"
    using u takeWhile_dropWhile_id [of not_sep s] by simp
  have len: "length ?u = Suc (?i + length v)" using u by simp
  have "[1..<Suc (length ?u)] = [1..<?i] @ ?i # [Suc ?i..<Suc (length ?u)]"
    using k len by (intro upt_split) (auto simp: Suc_le_eq)
  then have sp: "rev [1..<Suc (length ?u)] = rev [Suc ?i..<Suc (length ?u)] @ ?i # rev [1..<?i]"
    by simp
  have empty: "?K i = []" if "i \<in> set (rev [Suc ?i..<Suc (length ?u)])" for i
  proof (cases "i < length s")
    case True
    have "s ! i \<noteq> CHR ''=''"
    proof (cases "i < length ?u")
      case True
      then have "s ! i = v ! (i - Suc ?i)" "i - Suc ?i < length v"
        using that len by (subst s, auto simp: nth_append nth_Cons')
      then show ?thesis using v by (metis nth_mem)
    next
      case False
      then have "i = length ?u" using that by auto
      then have "is_sep (s ! i)" using True nth_length_takeWhile [of not_sep s] by simp
      then show ?thesis by (auto simp: is_sep_def)
    qed
    then show ?thesis using True
      by (simp add: run_eq_value Cons_nth_drop_Suc [symmetric] del: run.simps)
  qed (simp add: run_eq_value del: run.simps)
  have vs: "\<forall>x \<in> set v. not_sep x"
    using u set_takeWhileD [of _ not_sep s] by (metis UnCI insertCI set_append list.simps(15))
  have tv: "takeWhile not_sep (v @ dropWhile not_sep s) = v"
    using vs by (simp add: takeWhile_all) (metis dropWhile_eq_Cons_conv takeWhile_hd hd_dropWhile)
  have "drop ?i s = CHR ''='' # v @ dropWhile not_sep s" "take ?i s = k"
    by (subst s, simp)+
  then have "?K ?i = map (\<lambda>i. (Suc (n + ?i) + i, drop i (v @ dropWhile not_sep s),
      (4, take i (v @ dropWhile not_sep s)) # (3, k) # c)) (rev [0..<Suc (length v)])"
    by (simp add: run_eq_value tv del: run.simps upt_Suc)
  also have "\<dots> = (n + length ?u, dropWhile not_sep s, (4, v) # (3, k) # c) #
      map (\<lambda>i. (Suc (n + ?i) + i, drop i (v @ dropWhile not_sep s),
      (4, take i (v @ dropWhile not_sep s)) # (3, k) # c)) (rev [0..<length v])"
    using len by simp
  finally have hit: "\<exists>ys. ?K ?i = (n + length ?u, dropWhile not_sep s, (4, v) # (3, k) # c) # ys"
    by blast
  have e: "concat (map ?K (rev [Suc ?i..<Suc (length ?u)])) = []"
    using empty by (simp del: run.simps upt_Suc)
  from hit obtain ys where h: "?K ?i = (n + length ?u, dropWhile not_sep s, (4, v) # (3, k) # c) # ys"
    by blast
  show ?thesis
    by (simp add: run_kv_list sp [unfolded One_nat_def] e h del: run.simps upt_Suc)
qed

text \<open>The groups of the first match of the body on a non-empty segment.\<close>

lemma run_body:
  assumes u: "takeWhile not_sep s = u" and ne: "u \<noteq> []" and c3: "map_of c 3 = None"
  shows "\<exists>m ys. run body_regex (n, s, c) = (n + length u, dropWhile not_sep s, m @ c) # ys \<and>
    (length (group 3 (m @ c)) > 0 \<longrightarrow> split_item u = KV (group 3 (m @ c)) (group 4 (m @ c))) \<and>
    (length (group 3 (m @ c)) = 0 \<longrightarrow> split_item u = K (group 5 (m @ c)))"
proof (cases "\<exists>k v. k \<noteq> [] \<and> split_last (\<lambda>x. x = CHR ''='') u = Some (k, v)")
  case True
  then obtain k v where kv: "k \<noteq> []" "split_last (\<lambda>x. x = CHR ''='') u = Some (k, v)" by blast
  from split_last_Some [OF kv(2)] have uk: "u = k @ CHR ''='' # v" "CHR ''='' \<notin> set v" by auto
  from run_kv_some [of s k v] u uk kv obtain ys where
    "run kv_regex (n, s, c) = (n + length u, dropWhile not_sep s, (4, v) # (3, k) # c) # ys" by blast
  then have "\<exists>ys. run body_regex (n, s, c) =
      (n + length u, dropWhile not_sep s, [(2, take (length u) s), (4, v), (3, k)] @ c) # ys"
    by (simp add: body_regex_def)
  then show ?thesis using kv by (auto simp: group_def split_item_def intro!: exI)
next
  case False
  then have it: "split_item u = K u"
    by (auto simp: split_item_def split: option.splits)
  have no: "\<forall>i. 0 < i \<and> i < length u \<longrightarrow> s ! i \<noteq> CHR ''=''"
  proof (intro allI impI notI)
    fix i assume i: "0 < i \<and> i < length u" and e: "s ! i = CHR ''=''"
    have "u ! i = CHR ''=''" using i e u takeWhile_nth [of i not_sep s] by simp
    with i have m: "CHR ''='' \<in> set u" by (metis nth_mem)
    then obtain k v where kv: "split_last (\<lambda>x. x = CHR ''='') u = Some (k, v)"
      using split_last_None [of "\<lambda>x. x = CHR ''=''" u "CHR ''=''"] by (cases "split_last (\<lambda>x. x = CHR ''='') u") auto
    with False have "k = []" by blast
    with split_last_Some [OF kv] have "u = CHR ''='' # v" "CHR ''='' \<notin> set v" by auto
    with \<open>u ! i = CHR ''=''\<close> i show False by (metis One_nat_def length_Cons less_Suc_eq_0_disj nth_Cons_Suc nth_mem not_less0)
  qed
  from run_kv_none [of s n c] no u have "run kv_regex (n, s, c) = []" by simp
  moreover have "\<exists>ys. run (Grp 5 (Plus (Cls not_sep))) (n, s, c) =
      (n + length u, dropWhile not_sep s, (5, u) # c) # ys"
  proof -
    obtain m where "length u = Suc m" using ne by (cases u) auto
    moreover have "take (Suc m) s = u" using u calculation by (metis take_takeWhile_len)
    ultimately show ?thesis using u
      by (simp add: run_Plus_Cls_list dropWhile_eq_drop del: run.simps(2,5))
  qed
  ultimately have "\<exists>ys. run body_regex (n, s, c) =
      (n + length u, dropWhile not_sep s, [(2, take (length u) s), (5, u)] @ c) # ys"
    by (auto simp: body_regex_def)
  then show ?thesis using it c3 by (auto simp: group_def intro!: exI)
qed


text \<open>
  At a separator the optional group takes it, at the start of a segment it is skipped; in
  both cases the whole segment is consumed. Nothing matches before another separator.
\<close>

lemma run_body_sep: "is_sep x \<Longrightarrow> run body_regex (n, x # s, c) = []"
  by (simp add: body_regex_def kv_regex_def Plus_def)

lemma run_body_nil: "run body_regex (n, [], c) = []"
  by (simp add: body_regex_def kv_regex_def Plus_def)

lemma run_args_cons: "run args_regex (n, x # s, []) =
   (if is_sep x then run body_regex (Suc n, s, [(1, [x])]) else []) @ run body_regex (n, x # s, [])"
  by (auto simp: args_regex_alt Opt_def Lit_def is_sep_def)

lemma args_action_split:
  assumes "length (group 3 m) > 0 \<longrightarrow> split_item u = KV (group 3 m) (group 4 m)"
    and "length (group 3 m) = 0 \<longrightarrow> split_item u = K (group 5 m)"
  shows "args_action (p, l, m) = decode_item (split_item u)"
  using assms by (cases "length (group 3 m) > 0") (simp_all add: args_action_def)

text \<open>What the iteration yields: one call per segment.\<close>

definition seg_groups :: "nat \<times> nat \<times> caps \<Rightarrow> string \<Rightarrow> bool" where
  "seg_groups = (\<lambda>(p, l, m) u.
     (length (group 3 m) > 0 \<longrightarrow> split_item u = KV (group 3 m) (group 4 m)) \<and>
     (length (group 3 m) = 0 \<longrightarrow> split_item u = K (group 5 m)))"

lemma segments_step:
  assumes "run args_regex (n, x # s, []) = run body_regex (n', t, c) @ zs"
    and "takeWhile not_sep t = u" "u \<noteq> []" "map_of c 3 = None" "length t \<le> length (x # s)"
    and IH: "\<And>m. list_all2 seg_groups (regex_iterate args_regex m (dropWhile not_sep t))
          (segments (dropWhile not_sep t))"
  shows "list_all2 seg_groups (regex_iterate args_regex n (x # s)) (u # segments (dropWhile not_sep t))"
proof -
  from run_body [OF assms(2,3,4), of n'] obtain m ys where
    m: "run body_regex (n', t, c) = (n' + length u, dropWhile not_sep t, m @ c) # ys"
      "seg_groups (n, n' + length u - n, m @ c) u"
    by (auto simp: seg_groups_def)
  have "length u + length (dropWhile not_sep t) = length t"
    unfolding assms(2) [symmetric] by (metis length_append takeWhile_dropWhile_id)
  then have "length (dropWhile not_sep t) < length (x # s)"
    using assms(3,5) by (cases u) auto
  with m assms(1) have "regex_iterate args_regex n (x # s) =
      (n, n' + length u - n, m @ c) # regex_iterate args_regex (n' + length u) (dropWhile not_sep t)"
    by (intro regex_iterate_hit) auto
  with m(2) IH show ?thesis by simp
qed

lemma segments_nonsep:
  "takeWhile not_sep s \<noteq> [] \<Longrightarrow> segments s = takeWhile not_sep s # segments (dropWhile not_sep s)"
  by (cases s) auto

lemma regex_iterate_args: "list_all2 seg_groups (regex_iterate args_regex n s) (segments s)"
proof (induction "length s" arbitrary: n s rule: less_induct)
  case less
  show ?case
  proof (cases s)
    case Nil
    have "run args_regex (n, [], []) = []"
      by (simp add: args_regex_alt Opt_def Lit_def run_body_nil)
    then show ?thesis using Nil by (simp add: regex_iterate_end)
  next
    case (Cons x t)
    have le: "length (dropWhile not_sep r) \<le> length r" for r by (rule length_dropWhile_le)
    show ?thesis
    proof (cases "is_sep x")
      case False
      then have "run args_regex (n, x # t, []) = run body_regex (n, s, []) @ []"
        using Cons by (simp add: run_args_cons del: run.simps)
      moreover have "dropWhile not_sep s = dropWhile not_sep t" using Cons False by simp
      then have "list_all2 seg_groups (regex_iterate args_regex m (dropWhile not_sep s))
          (segments (dropWhile not_sep s))" for m
        using less le [of t] Cons by simp
      ultimately have "list_all2 seg_groups (regex_iterate args_regex n (x # t))
          ((x # takeWhile not_sep t) # segments (dropWhile not_sep s))"
        using False Cons by (intro segments_step) auto
      then show ?thesis using Cons False by simp
    next
      case True
      then have ra: "run args_regex (n, x # t, []) = run body_regex (Suc n, t, [(1, [x])]) @ []"
        by (simp add: run_args_cons run_body_sep del: run.simps)
      show ?thesis
      proof (cases "takeWhile not_sep t = []")
        case True
        then have "run args_regex (n, x # t, []) = []"
          using ra by (cases t) (auto simp: run_body_sep run_body_nil simp del: run.simps split: if_splits)
        then show ?thesis
          using \<open>is_sep x\<close> Cons less [of t "Suc n"] regex_iterate_next [OF consumes_args] by simp
      next
        case False
        have "list_all2 seg_groups (regex_iterate args_regex m (dropWhile not_sep t))
            (segments (dropWhile not_sep t))" for m
          using less le [of t] Cons by simp
        then have "list_all2 seg_groups (regex_iterate args_regex n (x # t))
            (takeWhile not_sep t # segments (dropWhile not_sep t))"
          using ra False by (intro segments_step) auto
        then show ?thesis using Cons True segments_nonsep [OF False] by simp
      qed
    qed
  qed
qed

lemma list_all2_map_eq: "list_all2 R xs ys \<Longrightarrow> (\<And>x y. R x y \<Longrightarrow> f x = g y) \<Longrightarrow> map f xs = map g ys"
  by (induction rule: list_all2_induct) auto

lemma decode_uri_args_segments:
  "decode_uri_args str = (True, map (decode_item \<circ> split_item) (segments str))"
proof -
  have "map args_action (regex_iterate args_regex 0 str) = map (decode_item \<circ> split_item) (segments str)"
    by (rule list_all2_map_eq [OF regex_iterate_args])
      (auto simp: seg_groups_def intro: args_action_split)
  then show ?thesis by (simp add: decode_uri_args_def)
qed

section \<open>\<open>decode_uri\<close>\<close>

text \<open>The reference: up to the first \<open>?\<close>, and what follows it.\<close>

definition uri_split :: "string \<Rightarrow> (string \<times> string) option" where
  "uri_split str =
     (let p = takeWhile (\<lambda>c. c \<noteq> CHR ''?'') str; q = dropWhile (\<lambda>c. c \<noteq> CHR ''?'') str in
      if p = [] \<or> \<not> list_all not_newline (tl q) then None else Some (p, tl q))"

lemma regex_match_base:
  "map_option (\<lambda>m. (group 1 m, group 3 m)) (regex_match base_regex str) = uri_split str"
proof -
  let ?P = "\<lambda>c. c \<noteq> CHR ''?''"
  let ?p = "takeWhile ?P str" and ?q = "dropWhile ?P str"
  let ?R = "Opt (Grp 2 (Sq (Lit CHR ''?'') (Grp 3 (Star (Cls not_newline)))))"
  have rej: "rejects_end ?R ?P"
    by (rule rejects_end_Opt) (auto simp: Lit_def intro!: rejects_intros)
  have b: "run_end base_regex (0, str, []) = (if ?p = [] then [] else run_end ?R (length ?p, ?q, [(1, ?p)]))"
    unfolding base_regex_def by (subst run_end_Sq_Grp_Plus [OF rej]) simp
  show ?thesis
  proof (cases "?q")
    case Nil
    then show ?thesis
      by (simp add: regex_match_run_end b uri_split_def Let_def run_end_Opt run_end_Grp Lit_def
          run_end_Sq_Cls group_def del: dropWhile_eq_Nil_conv)
  next
    case (Cons x t)
    then have x: "x = CHR ''?''" by (metis (mono_tags, lifting) hd_dropWhile list.discI list.sel(1))
    show ?thesis
    proof (cases "list_all not_newline t")
      case True
      then have "dropWhile not_newline t = []" "takeWhile not_newline t = t" by (simp_all add: list_all_iff)
      with True show ?thesis
        by (simp add: regex_match_run_end b uri_split_def Let_def run_end_Opt run_end_Grp Lit_def
            run_end_Sq_Cls run_end_Star group_def Cons x del: dropWhile_eq_Nil_conv)
    next
      case False
      then have "dropWhile not_newline t \<noteq> []" by (simp add: list_all_iff)
      with False show ?thesis
        by (simp add: regex_match_run_end b uri_split_def Let_def run_end_Opt run_end_Grp Lit_def
            run_end_Sq_Cls run_end_Star group_def Cons x del: dropWhile_eq_Nil_conv)
    qed
  qed
qed

lemma decode_uri_split:
  "decode_uri str path = (case uri_split str of
     None \<Rightarrow> (False, path, [])
   | Some (p, q) \<Rightarrow> (True, p, map (decode_item \<circ> split_item) (segments q)))"
  unfolding regex_match_base [symmetric]
  by (simp add: decode_uri_def decode_uri_args_segments split: option.split)

section \<open>Round trip with a client's encoding\<close>

text \<open>
  The form encoding a browser sends: letters, digits and \<open>_\<close> as they are, a space as
  \<open>+\<close>, every other byte as two hexadecimal digits.
\<close>

definition hex_char :: "nat \<Rightarrow> char" where
  "hex_char d = (if d < 10 then char_of (48 + d) else char_of (55 + d))"

definition encode_char :: "char \<Rightarrow> string" where
  "encode_char c = (if is_alnum c \<or> c = CHR ''_'' then [c]
     else if c = CHR '' '' then ''+''
     else [CHR ''%'', hex_char (of_char c div 16), hex_char (of_char c mod 16)])"

definition encode_str :: "string \<Rightarrow> string" where
  "encode_str s = concat (map encode_char s)"

lemma hex_char_xdigit: "d < 16 \<Longrightarrow> is_xdigit (hex_char d)"
  by (simp add: hex_char_def is_xdigit_def is_digit_def)

lemma xdigit_val_hex_char: "d < 16 \<Longrightarrow> xdigit_val (hex_char d) = d"
  by (simp add: hex_char_def xdigit_val_def is_digit_def is_upper_def)

lemma stoi16_hex: "stoi16 [hex_char (n div 16), hex_char (n mod 16)] = n" if "n < 256"
  using that by (simp add: stoi16_def xdigit_val_hex_char)

lemma decode_ref_plain: "a \<noteq> CHR ''%'' \<Longrightarrow>
   decode_ref (a # s) = (if a = CHR ''+'' then CHR '' '' else a) # decode_ref s"
  by (cases "a # s" rule: decode_ref.cases) auto

lemma of_char_less: "(of_char c :: nat) < 256"
  using of_char_mod_256 [of c, where ?'a = nat] by (metis mod_less_divisor zero_less_numeral)

lemma decode_ref_encode: "decode_ref (encode_char c @ s) = c # decode_ref s"
proof -
  have n: "is_alnum c \<or> c = CHR ''_'' \<Longrightarrow> c \<noteq> CHR ''%'' \<and> c \<noteq> CHR ''+''"
    by (auto simp: char_class_defs)
  have h: "(of_char c :: nat) div 16 < 16" using of_char_less [of c] by (simp add: less_mult_imp_div_less)
  show ?thesis
    using n h stoi16_hex [OF of_char_less [of c]]
    by (auto simp: encode_char_def decode_ref_plain hex_char_xdigit)
qed

lemma decode_encode: "decode_str (encode_str s) = s"
proof -
  have "decode_ref (encode_str s) = s"
    by (induction s) (simp_all add: encode_str_def decode_ref_encode)
  then show ?thesis by (simp add: decode_str_eq_ref)
qed

lemma encode_char_clean: "x \<in> set (encode_char c) \<Longrightarrow> not_sep x \<and> x \<noteq> CHR ''='' \<and> not_newline x"
proof -
  have "is_xdigit x \<or> is_alnum x \<Longrightarrow> not_sep x \<and> x \<noteq> CHR ''='' \<and> not_newline x" for x
    by (auto simp: is_sep_def not_newline_def char_class_defs)
  moreover have "(of_char c :: nat) div 16 < 16" using of_char_less [of c] by (simp add: less_mult_imp_div_less)
  ultimately show "x \<in> set (encode_char c) \<Longrightarrow> ?thesis"
    by (auto simp: encode_char_def is_sep_def not_newline_def hex_char_xdigit split: if_splits)
qed

lemma encode_str_clean: "x \<in> set (encode_str s) \<Longrightarrow> not_sep x \<and> x \<noteq> CHR ''='' \<and> not_newline x"
  by (auto simp: encode_str_def dest: encode_char_clean)

lemma encode_char_ne [simp]: "encode_char c \<noteq> []"
  by (simp add: encode_char_def)

lemma encode_str_Nil_iff [simp]: "encode_str s = [] \<longleftrightarrow> s = []"
  by (cases s) (simp_all add: encode_str_def)

definition encode_form :: "(string \<times> string) list \<Rightarrow> string" where
  "encode_form kvs = concat (map (\<lambda>(k, v). CHR ''&'' # encode_str k @ CHR ''='' # encode_str v) kvs)"

lemma segments_seg: "\<forall>x \<in> set u. not_sep x \<Longrightarrow> u \<noteq> [] \<Longrightarrow> (s = [] \<or> is_sep (hd s)) \<Longrightarrow>
   segments (CHR ''&'' # u @ s) = u # segments s"
  by (cases u) (auto simp: is_sep_def takeWhile_all dropWhile_all takeWhile_hd dropWhile_hd)

lemma decode_uri_args_form:
  assumes "\<forall>(k, v) \<in> set kvs. k \<noteq> []"
  shows "decode_uri_args (encode_form kvs) = (True, map (\<lambda>(k, v). KV k v) kvs)"
proof -
  have "map (decode_item \<circ> split_item) (segments (encode_form kvs)) = map (\<lambda>(k, v). KV k v) kvs"
    using assms
  proof (induction kvs)
    case (Cons kv kvs)
    obtain k v where kv: "kv = (k, v)" "k \<noteq> []" using Cons.prems by (cases kv) auto
    let ?u = "encode_str k @ CHR ''='' # encode_str v"
    have "encode_form kvs = [] \<or> is_sep (hd (encode_form kvs))"
      by (cases kvs) (auto simp: encode_form_def is_sep_def)
    moreover have "\<forall>x \<in> set ?u. not_sep x"
      by (auto dest: encode_str_clean) (simp add: is_sep_def)
    ultimately have "segments (CHR ''&'' # ?u @ encode_form kvs) = ?u # segments (encode_form kvs)"
      by (intro segments_seg) auto
    moreover have "encode_form (kv # kvs) = CHR ''&'' # ?u @ encode_form kvs"
      using kv by (simp add: encode_form_def)
    moreover have "split_last (\<lambda>c. c = CHR ''='') ?u = Some (encode_str k, encode_str v)"
      by (rule split_last_iff) (auto dest: encode_str_clean)
    ultimately show ?case using Cons kv by (simp add: split_item_def decode_encode)
  qed (simp add: encode_form_def)
  then show ?thesis by (simp add: decode_uri_args_segments)
qed

end
