(* ===== verification/Http_Request.thy ===== *)
theory Http_Request
  imports Http_Utils
begin

text \<open>
  \<open>server/protocol/request\<close> and \<open>server/protocol/http/request\<close>: the request object, its
  reset, and the parser that fills it from a stream. A method that throws leaves the fields
  it has already assigned, because the session answers with the method and version of the
  request that failed; so every step returns its result and the request. What comes from
  Boost (\<open>lexical_cast\<close>) and from the allocator is the record \<open>req_env\<close>.
\<close>

section \<open>The request\<close>

record request =
  rq_client_address :: string
  rq_keep_alive :: bool
  rq_method :: http_method
  rq_version :: http_version
  rq_uri :: string
  rq_path :: string
  rq_args_map :: "(string \<times> string) list"
  rq_args_set :: "string list"
  rq_host :: string
  rq_port :: port_type
  rq_content_length :: "64 word"
  rq_cookies :: "(string \<times> string) list"
  rq_unparsed_headers :: "(string \<times> string) list"
  rq_parsed_headers :: "(string \<times> string) list"
  rq_body :: string
  rq_body_bytes_read :: "64 word"

text \<open>Multimaps are lists in the order of insertion, maps are lists with distinct keys.\<close>

definition emplace :: "'k \<Rightarrow> 'v \<Rightarrow> ('k \<times> 'v) list \<Rightarrow> ('k \<times> 'v) list" where
  "emplace k v m = (if k \<in> fst ` set m then m else m @ [(k, v)])"

definition emplace_multi :: "'k \<Rightarrow> 'v \<Rightarrow> ('k \<times> 'v) list \<Rightarrow> ('k \<times> 'v) list" where
  "emplace_multi k v m = m @ [(k, v)]"

definition new_request :: "string \<Rightarrow> request" where
  "new_request client_address = \<lparr>rq_client_address = client_address, rq_keep_alive = False,
     rq_method = M_unknown, rq_version = V_unknown, rq_uri = [], rq_path = [],
     rq_args_map = [], rq_args_set = [], rq_host = [], rq_port = default_port,
     rq_content_length = 0, rq_cookies = [], rq_unparsed_headers = [], rq_parsed_headers = [],
     rq_body = [], rq_body_bytes_read = 0\<rparr>"

text \<open>\<open>protocol::request::reset\<close>, called first by the reset of the derived class.\<close>

definition base_reset :: "request \<Rightarrow> request" where
  "base_reset rq = rq\<lparr>rq_keep_alive := False\<rparr>"

definition reset :: "request \<Rightarrow> request" where
  "reset rq = (base_reset rq)\<lparr>rq_method := M_unknown, rq_version := V_unknown,
     rq_uri := [], rq_path := [], rq_args_map := [], rq_args_set := [],
     rq_host := [], rq_port := default_port, rq_content_length := 0, rq_cookies := [],
     rq_parsed_headers := [], rq_unparsed_headers := [],
     rq_body := [], rq_body_bytes_read := 0\<rparr>"

record req_env =
  lexical_size :: "string \<Rightarrow> (64 word) option"   \<comment> \<open>\<open>boost::lexical_cast<size_t>\<close>\<close>
  lexical_port :: "string \<Rightarrow> port_type option"     \<comment> \<open>\<open>boost::lexical_cast<port_type>\<close>\<close>
  resize_error :: "64 word \<Rightarrow> exn option"          \<comment> \<open>what \<open>vector::resize\<close> throws, if it does\<close>

type_synonym 'a rx = "(request, exn, 'a) sx"

section \<open>Headers\<close>

definition bad_lexical_cast :: exn where
  "bad_lexical_cast = Std_exception ''bad lexical cast: source type value could not be interpreted as target''"

definition process_header_content_length :: "req_env \<Rightarrow> string \<Rightarrow> unit rx" where
  "process_header_content_length env value rq = (case lexical_size env value of
     None \<Rightarrow> (Inl bad_lexical_cast, rq)
   | Some n \<Rightarrow> (Inr (), rq\<lparr>rq_content_length := n\<rparr>))"

definition keep_alive_regex :: regex where
  "keep_alive_regex = Sq (Star (Cls not_newline)) (Lits ''keep-alive'' (Star (Cls not_newline)))"

definition process_header_connection :: "string \<Rightarrow> unit rx" where
  "process_header_connection value rq =
     (Inr (), rq\<lparr>rq_keep_alive := regex_match keep_alive_regex value \<noteq> None\<rparr>)"

definition not_colon :: "char \<Rightarrow> bool" where
  "not_colon c \<longleftrightarrow> c \<noteq> CHR '':''"

definition host_regex :: regex where
  "host_regex = Sq (Grp 1 (Plus (Cls not_colon)))
     (Opt (Grp 2 (Sq (Lit CHR '':'') (Grp 3 (Plus (Cls is_digit))))))"

definition process_header_host :: "req_env \<Rightarrow> string \<Rightarrow> unit rx" where
  "process_header_host env value rq = (case regex_match host_regex value of
     None \<Rightarrow> (Inl (Http (Incorrect_host_header value)), rq)
   | Some m \<Rightarrow>
      (let rq = rq\<lparr>rq_host := group 1 m\<rparr> in
       if length (group 3 m) > 0 then
         (case lexical_port env (group 3 m) of
            None \<Rightarrow> (Inl bad_lexical_cast, rq)
          | Some p \<Rightarrow> (Inr (), rq\<lparr>rq_port := p\<rparr>))
       else (Inr (), rq)))"

definition is_name_start :: "char \<Rightarrow> bool" where
  "is_name_start c \<longleftrightarrow> is_alpha c \<or> c = CHR ''_''"

definition is_name :: "char \<Rightarrow> bool" where
  "is_name c \<longleftrightarrow> is_alnum c \<or> c = CHR ''_''"

definition cookie_regex :: regex where
  "cookie_regex = Sq (Grp 1 (Sq (Cls is_name_start) (Star (Cls is_name))))
     (Sq (Lit CHR ''='') (Grp 2 (Plus (Cls is_name))))"

definition process_header_cookie :: "string \<Rightarrow> unit rx" where
  "process_header_cookie value rq = (Inr (), rq\<lparr>rq_cookies :=
     fold (\<lambda>(position, len, m). emplace (group 1 m) (group 2 m))
       (regex_iterate cookie_regex 0 value) (rq_cookies rq)\<rparr>)"

definition process_header_fn_map :: "req_env \<Rightarrow> (string \<times> (string \<Rightarrow> unit rx)) list" where
  "process_header_fn_map env =
     [(header_content_length, process_header_content_length env),
      (header_connection, process_header_connection),
      (header_host, process_header_host env),
      (header_cookie, process_header_cookie)]"

section \<open>The start line and a header line\<close>

abbreviation crlf_char :: "char \<Rightarrow> bool" where
  "crlf_char c \<equiv> \<not> not_newline c"

abbreviation not_space :: "char \<Rightarrow> bool" where
  "not_space c \<equiv> \<not> is_space c"

definition version_regex :: regex where
  "version_regex = Sq (Plus (Cls is_digit)) (Sq (Lit CHR ''.'') (Plus (Cls is_digit)))"

definition start_regex :: regex where
  "start_regex = Sq Bol
     (Sq (Grp 1 (Plus (Cls is_name))) (Sq (Plus (Cls is_space))
     (Sq (Grp 2 (Plus (Cls not_space))) (Sq (Plus (Cls is_space))
     (Sq (Grp 3 (Plus (Cls is_name))) (Sq (Lit CHR ''/'') (Sq (Grp 4 version_regex)
     (Sq (Star (Cls crlf_char)) Eol))))))))"

definition str_toupper :: "string \<Rightarrow> string" where
  "str_toupper str = map to_upper str"

definition process_start_string :: "string \<Rightarrow> unit rx" where
  "process_start_string str rq = (case regex_match start_regex str of
     None \<Rightarrow> (Inl (Http (Incorrect_start_string str)), rq)
   | Some m \<Rightarrow>
      (let rq = rq\<lparr>rq_method := str_to_method (str_toupper (group 1 m))\<rparr>;
           protocol_name = str_toupper (group 3 m) in
       if protocol_name \<noteq> str_HTTP then (Inl (Http (Incorrect_protocol protocol_name)), rq)
       else
         (let rq = rq\<lparr>rq_version := str_to_version (str_toupper (group 4 m))\<rparr> in
          if rq_version rq \<noteq> V_1_1 then
            (Inl (Http (Unsupported_protocol_version (version_to_str (rq_version rq)))), rq)
          else (Inr (), rq\<lparr>rq_uri := group 2 m\<rparr>))))"

definition header_regex :: regex where
  "header_regex = Sq Bol
     (Sq (Grp 1 (Plus (Cls not_space)))
     (Sq (Lit CHR '':'') (Sq (Star (Cls is_space))
     (Sq (Grp 2 (Plus (Cls not_newline)))
     (Sq (Star (Cls crlf_char)) Eol)))))"

definition empty_regex :: regex where
  "empty_regex = Sq Bol (Sq (Star (Cls (\<lambda>c. c = CR \<or> is_space c))) Eol)"

text \<open>The result says whether another header may follow.\<close>

definition process_header_string :: "req_env \<Rightarrow> string \<Rightarrow> bool rx" where
  "process_header_string env str rq = (case regex_match header_regex str of
     None \<Rightarrow> if regex_match empty_regex str \<noteq> None then (Inr False, rq)
             else (Inl (Http (Incorrect_header_string str)), rq)
   | Some m \<Rightarrow>
      (let header = group 1 m; value = group 2 m in
       case map_of (process_header_fn_map env) header of
         None \<Rightarrow> (Inr True, rq\<lparr>rq_unparsed_headers :=
                    emplace_multi header value (rq_unparsed_headers rq)\<rparr>)
       | Some fn \<Rightarrow>
          (case fn value rq of
             (Inl _, rq) \<Rightarrow> (Inl (Http (Incorrect_header_string str)), rq)
           | (Inr _, rq) \<Rightarrow> (Inr True, rq\<lparr>rq_parsed_headers :=
                    emplace_multi header value (rq_parsed_headers rq)\<rparr>))))"

section \<open>The URI\<close>

definition add_arg :: "nat \<times> nat \<times> caps \<Rightarrow> request \<Rightarrow> request" where
  "add_arg = (\<lambda>(position, len, m) rq.
     let key = group 3 m in
     if length key = 0 then rq\<lparr>rq_args_set := rq_args_set rq @ [group 5 m]\<rparr>
     else rq\<lparr>rq_args_map := emplace_multi key (group 4 m) (rq_args_map rq)\<rparr>)"

definition process_uri :: "unit rx" where
  "process_uri rq = (case regex_match base_regex (rq_uri rq) of
     None \<Rightarrow> (Inl (Http (Uri_parse_error (rq_uri rq))), rq)
   | Some m \<Rightarrow>
      (let rq = rq\<lparr>rq_path := group 1 m\<rparr>; args_sm = group 3 m in
       (Inr (), if length args_sm \<noteq> 0 then fold add_arg (regex_iterate args_regex 0 args_sm) rq
                else rq)))"

section \<open>Streams\<close>

text \<open>An input stream: what its buffer still holds and whether \<open>good()\<close> is true.\<close>

record istream =
  is_rest :: string
  is_good :: bool

text \<open>\<open>std::getline(stream, str)\<close>: whether the stream is still usable, and the string.\<close>

definition getline :: "istream \<Rightarrow> string \<Rightarrow> bool \<times> string \<times> istream" where
  "getline stream str =
     (if \<not> is_good stream then (False, str, stream)
      else if LF \<in> set (is_rest stream) then
        (True, takeWhile (\<lambda>c. c \<noteq> LF) (is_rest stream),
         stream\<lparr>is_rest := tl (dropWhile (\<lambda>c. c \<noteq> LF) (is_rest stream))\<rparr>)
      else (is_rest stream \<noteq> [], is_rest stream, stream\<lparr>is_rest := [], is_good := False\<rparr>))"

text \<open>\<open>stream.readsome(data, n)\<close>: what it copied (its length is \<open>gcount()\<close>).\<close>

definition readsome :: "istream \<Rightarrow> nat \<Rightarrow> string \<times> istream" where
  "readsome stream n =
     (if \<not> is_good stream then ([], stream)
      else (take n (is_rest stream), stream\<lparr>is_rest := drop n (is_rest stream)\<rparr>))"

text \<open>The loop over the header lines.\<close>

function process_headers :: "req_env \<Rightarrow> istream \<Rightarrow> string \<Rightarrow> request \<Rightarrow> (exn + unit) \<times> request \<times> istream" where
  "process_headers env stream str0 rq =
     (case getline stream str0 of
        (ok, str, stream') \<Rightarrow>
        if ok \<and> str \<noteq> [] then
          (case process_header_string env str rq of
             (Inl e, rq') \<Rightarrow> (Inl e, rq', stream')
           | (Inr again, rq') \<Rightarrow>
               if again then process_headers env stream' str rq' else (Inr (), rq', stream'))
        else (Inr (), rq, stream'))"
  by pat_completeness auto

lemma getline_shrinks:
  "getline stream str0 = (ok, str, stream') \<Longrightarrow> ok \<Longrightarrow> str \<noteq> [] \<Longrightarrow>
   length (is_rest stream') < length (is_rest stream)"
proof -
  assume a: "getline stream str0 = (ok, str, stream')" "ok" "str \<noteq> []"
  have g: "is_good stream" using a by (simp add: getline_def split: if_split_asm)
  have r: "is_rest stream \<noteq> []"
  proof
    assume "is_rest stream = []"
    then show False using a g by (simp add: getline_def)
  qed
  have l: "length (tl (dropWhile (\<lambda>c. c \<noteq> LF) (is_rest stream))) < length (is_rest stream)"
    using length_dropWhile_le [of "\<lambda>c. c \<noteq> LF" "is_rest stream"] r
    by (simp add: less_eq_Suc_le [symmetric] flip: length_greater_0_conv)
  show ?thesis
  proof (cases "LF \<in> set (is_rest stream)")
    case True
    then have "stream' = stream\<lparr>is_rest := tl (dropWhile (\<lambda>c. c \<noteq> LF) (is_rest stream))\<rparr>"
      using a g by (simp add: getline_def)
    then show ?thesis using l by simp
  next
    case False
    then have "stream' = stream\<lparr>is_rest := [], is_good := False\<rparr>"
      using a g by (simp add: getline_def)
    then show ?thesis using r by simp
  qed
qed

termination process_headers
  by (relation "measure (\<lambda>(env, stream, str, rq). length (is_rest stream))")
    (auto intro: getline_shrinks [OF sym])

declare process_headers.simps [simp del]

text \<open>\<open>process_stream_again\<close>: the number of bytes still missing.\<close>

definition process_stream_again :: "istream \<Rightarrow> request \<Rightarrow> 64 word \<times> request \<times> istream" where
  "process_stream_again stream rq =
     (let bytes_to_read = rq_content_length rq - rq_body_bytes_read rq in
      if bytes_to_read = 0 then (0, rq, stream)
      else
        (let (data, stream) = readsome stream (unat bytes_to_read);
             n = unat (rq_body_bytes_read rq);
             rq = rq\<lparr>rq_body := take n (rq_body rq) @ data @ drop (n + length data) (rq_body rq)\<rparr>;
             rq = rq\<lparr>rq_body_bytes_read := rq_body_bytes_read rq + of_nat (length data)\<rparr>
         in (rq_content_length rq - rq_body_bytes_read rq, rq, stream)))"

text \<open>\<open>body.resize(n)\<close>\<close>

definition resize :: "nat \<Rightarrow> string \<Rightarrow> string" where
  "resize n s = take n s @ replicate (n - length s) (CHR 0x00)"

definition process_body :: "req_env \<Rightarrow> istream \<Rightarrow> request \<Rightarrow> (exn + 64 word) \<times> request \<times> istream" where
  "process_body env stream rq =
     (if rq_content_length rq = 0 then (Inr 0, rq, stream)
      else if rq_method rq \<noteq> POST then
        (Inl (Http (Content_length_must_be_0 (method_to_str (rq_method rq)))), rq, stream)
      else (case resize_error env (rq_content_length rq) of
        Some e \<Rightarrow> (Inl e, rq, stream)
      | None \<Rightarrow>
         (let rq = rq\<lparr>rq_body := resize (unat (rq_content_length rq)) (rq_body rq)\<rparr>;
              (n, rq, stream) = process_stream_again stream rq
          in (Inr n, rq, stream))))"

definition process_stream :: "req_env \<Rightarrow> istream \<Rightarrow> request \<Rightarrow> (exn + 64 word) \<times> request \<times> istream" where
  "process_stream env stream rq0 =
     (let rq = reset rq0;
          (ok, str, stream) = getline stream [] in
      case process_start_string str rq of
        (Inl e, rq) \<Rightarrow> (Inl e, rq, stream)
      | (Inr _, rq) \<Rightarrow>
         (case process_headers env stream str rq of
            (Inl e, rq, stream) \<Rightarrow> (Inl e, rq, stream)
          | (Inr _, rq, stream) \<Rightarrow>
             (case process_uri rq of
                (Inl e, rq) \<Rightarrow> (Inl e, rq, stream)
              | (Inr _, rq) \<Rightarrow> process_body env stream rq)))"

section \<open>The start line\<close>

declare dropWhile_eq_Nil_conv [simp del] takeWhile_eq_Nil_iff [simp del]

text \<open>The start line, read from left to right without backtracking.\<close>

definition scan_start :: "string \<Rightarrow> (string \<times> string \<times> string \<times> string) option" where
  "scan_start s =
     (let m = takeWhile is_name s; s1 = dropWhile is_name s;
          u = takeWhile not_space (dropWhile is_space s1);
          s2 = dropWhile not_space (dropWhile is_space s1);
          s3 = dropWhile is_space s2; p = takeWhile is_name s3; s4 = dropWhile is_name s3;
          s5 = tl s4; d1 = takeWhile is_digit s5; s6 = dropWhile is_digit s5;
          s7 = tl s6; d2 = takeWhile is_digit s7; s8 = dropWhile is_digit s7
      in if m \<noteq> [] \<and> takeWhile is_space s1 \<noteq> [] \<and> u \<noteq> [] \<and> takeWhile is_space s2 \<noteq> [] \<and>
            p \<noteq> [] \<and> s4 \<noteq> [] \<and> hd s4 = CHR ''/'' \<and> d1 \<noteq> [] \<and> s6 \<noteq> [] \<and> hd s6 = CHR ''.'' \<and>
            d2 \<noteq> [] \<and> dropWhile crlf_char s8 = []
         then Some (m, u, p, d1 @ CHR ''.'' # d2) else None)"

lemma class_disjoint:
  "is_digit c \<Longrightarrow> not_newline c" "is_space c \<Longrightarrow> \<not> is_name c" "is_digit c \<Longrightarrow> c \<noteq> CHR ''.''"
  "is_digit c \<Longrightarrow> c \<noteq> CHR ''/''" "is_name c \<Longrightarrow> c \<noteq> CHR ''/''"
  by (auto simp: not_newline_def is_name_def char_class_defs)

lemma rejects_end_crlf: "(\<And>x. P x \<Longrightarrow> not_newline x) \<Longrightarrow> rejects_end (Sq (Star (Cls crlf_char)) Eol) P"
  by (intro rejects_end rejects_intros) auto

lemma run_end_crlf: "run_end (Sq (Star (Cls crlf_char)) Eol) (n, s, c) =
    (if dropWhile crlf_char s = [] then [(n + length s, [], c)] else [])"
proof -
  have "length (takeWhile crlf_char s) = length s" if "dropWhile crlf_char s = []"
    using that by (metis append_Nil2 takeWhile_dropWhile_id)
  then show ?thesis
    by (subst run_end_Sq_Star) (auto simp: run_end_Eol 
      intro!: rejects_end rejects_intros)
qed

lemma length_take_drop: "length (takeWhile P xs) + length (dropWhile P xs) = length xs"
  by (metis length_append takeWhile_dropWhile_id)

lemma run_end_version:
  "run_end (Sq (Grp 4 version_regex) (Sq (Star (Cls crlf_char)) Eol)) (n, s, c) =
    (let d1 = takeWhile is_digit s; s6 = dropWhile is_digit s; s7 = tl s6;
         d2 = takeWhile is_digit s7; s8 = dropWhile is_digit s7
     in if d1 \<noteq> [] \<and> s6 \<noteq> [] \<and> hd s6 = CHR ''.'' \<and> d2 \<noteq> [] \<and> dropWhile crlf_char s8 = []
        then [(n + length s, [], (4, d1 @ CHR ''.'' # d2) # c)] else [])"
proof -
  define E where "E = Sq (Star (Cls crlf_char)) Eol"
  define K where "K = (\<lambda>st'. run_end E (mpos st', mrest st', (4::nat, take (mpos st' - n) s) # mcaps st'))"
  have K: "K (m, x # t, c) = []" if "is_digit x" for m x t
    using rejects_endD [OF rejects_end_crlf [of is_digit] that] class_disjoint
    by (simp add: K_def E_def)
  let ?d1 = "takeWhile is_digit s" and ?s6 = "dropWhile is_digit s"
  have "run_end (Sq (Grp 4 version_regex) E) (n, s, c) = run_k version_regex K (n, s, c)"
    by (simp add: run_end_Sq_k run_k_Grp K_def)
  also have "\<dots> = run_k (Plus (Cls is_digit)) (run_k (Sq (Lit CHR ''.'') (Plus (Cls is_digit))) K) (n, s, c)"
    by (simp add: version_regex_def run_k_Sq)
  also have "\<dots> = (if ?d1 = [] then [] else
      run_k (Sq (Lit CHR ''.'') (Plus (Cls is_digit))) K (n + length ?d1, ?s6, c))"
    by (rule run_k_Plus) (auto simp: run_k_Sq run_k_Cls Lit_def is_digit_def)
  also have "\<dots> = (if ?d1 = [] then [] else case ?s6 of [] \<Rightarrow> [] | x # s7 \<Rightarrow>
      if x = CHR ''.'' then (if takeWhile is_digit s7 = [] then [] else
        K (Suc (n + length ?d1) + length (takeWhile is_digit s7), dropWhile is_digit s7, c)) else [])"
    using K by (simp add: run_k_Sq run_k_Cls Lit_def run_k_Plus split: list.split)
  also have "\<dots> = (let d1 = ?d1; s6 = ?s6; s7 = tl s6;
         d2 = takeWhile is_digit s7; s8 = dropWhile is_digit s7
     in if d1 \<noteq> [] \<and> s6 \<noteq> [] \<and> hd s6 = CHR ''.'' \<and> d2 \<noteq> [] \<and> dropWhile crlf_char s8 = []
        then [(n + length s, [], (4, d1 @ CHR ''.'' # d2) # c)] else [])"
  proof (cases ?s6)
    case (Cons x s7)
    let ?d2 = "takeWhile is_digit s7" and ?s8 = "dropWhile is_digit s7"
    have s: "s = ?d1 @ x # ?d2 @ ?s8" using Cons by (metis takeWhile_dropWhile_id)
    have len: "length s = Suc (length ?d1 + length ?d2 + length ?s8)"
      by (subst s) (simp add: length_take_drop)
    have tk: "take (Suc (length ?d1 + length ?d2)) s = ?d1 @ x # ?d2" by (subst s) simp
    have "K (Suc (n + length ?d1 + length ?d2), ?s8, c) = (if dropWhile crlf_char ?s8 = []
        then [(n + length s, [], (4, ?d1 @ x # ?d2) # c)] else [])"
      by (simp add: K_def E_def run_end_crlf tk len)
    then show ?thesis by (simp add: Let_def Cons)
  qed (simp add: Let_def)
  finally show ?thesis by (simp add: E_def)
qed

lemma regex_match_start: "regex_match start_regex s =
    map_option (\<lambda>(m, u, p, v). [(4, v), (3, p), (2, u), (1, m)]) (scan_start s)"
proof -
  have r1: "rejects_end (Sq (Lit CHR ''/'') r) is_name" for r
    by (rule rejects_end) (auto simp: Lit_def intro!: rejects_intros dest: class_disjoint)
  have r2: "rejects_end (Sq (Grp 3 (Plus (Cls is_name))) r) is_space" for r
    by (rule rejects_end) (auto intro!: rejects_intros simp: class_disjoint)
  have r3: "rejects_end (Sq (Plus (Cls is_space)) r) not_space" for r
    by (rule rejects_end) (auto intro!: rejects_intros)
  have r4: "rejects_end (Sq (Grp 2 (Plus (Cls not_space))) r) is_space" for r
    by (rule rejects_end) (auto intro!: rejects_intros)
  have r5: "rejects_end (Sq (Plus (Cls is_space)) r) is_name" for r
    by (rule rejects_end) (auto intro!: rejects_intros simp: class_disjoint)
  show ?thesis
    unfolding regex_match_run_end start_regex_def scan_start_def Let_def
    by (simp add: run_end_Sq_Bol run_end_Sq_Grp_Plus r1 r2 r3 r4 r5 run_end_Sq_Plus)
      (auto simp add: Lit_def run_end_Sq_Cls run_end_version Let_def split: list.split)
qed

text \<open>What \<open>process_start_string\<close> does with the scanned parts.\<close>

lemma process_start_scan: "process_start_string s rq = (case scan_start s of
     None \<Rightarrow> (Inl (Http (Incorrect_start_string s)), rq)
   | Some (m, u, p, v) \<Rightarrow>
      (let rq = rq\<lparr>rq_method := str_to_method (str_toupper m)\<rparr> in
       if str_toupper p \<noteq> ''HTTP'' then (Inl (Http (Incorrect_protocol (str_toupper p))), rq)
       else if str_toupper v \<noteq> ''1.1'' then
         (Inl (Http (Unsupported_protocol_version ''unknown'')), rq\<lparr>rq_version := V_unknown\<rparr>)
       else (Inr (), rq\<lparr>rq_version := V_1_1, rq_uri := u\<rparr>)))"
proof -
  have v: "str_to_version x = (if x = ''1.1'' then V_1_1 else V_unknown)" for x
    by (simp add: str_to_version_def str_to_version_map_def)
  show ?thesis
    by (cases "scan_start s")
      (auto simp add: process_start_string_def regex_match_start group_def Let_def str_HTTP_def v)
qed

section \<open>A header line\<close>

definition value_regex :: regex where
  "value_regex = Sq (Star (Cls is_space)) (Sq (Grp 2 (Plus (Cls not_newline)))
     (Sq (Star (Cls crlf_char)) Eol))"

lemma run_end_Sq_Star_first:
  assumes "run_end r (n + length (takeWhile P s), dropWhile P s, c) = st # ys"
  shows "\<exists>ys. run_end (Sq (Star (Cls P)) r) (n, s, c) = st # ys"
  using assms by (simp add: run_end_Sq run_Star_Cls_list dropWhile_eq_drop [symmetric] del: run.simps(5))

lemma run_end_value:
  assumes "v \<noteq> []" "\<not> is_space (hd v)" "\<forall>x\<in>set v. not_newline x" "\<forall>x\<in>set sp. is_space x"
    "\<forall>x\<in>set e. crlf_char x"
  shows "\<exists>ys. run_end value_regex (n, sp @ v @ e, c) = (n + length (sp @ v @ e), [], (2, v) # c) # ys"
proof -
  have sp: "takeWhile is_space (sp @ v @ e) = sp" "dropWhile is_space (sp @ v @ e) = v @ e"
    using assms by (cases v; simp add: takeWhile_all dropWhile_all)+
  have e: "e = [] \<or> \<not> not_newline (hd e)" using assms(5) by (cases e) auto
  have v: "takeWhile not_newline (v @ e) = v" "dropWhile not_newline (v @ e) = e"
    using assms(3) e by (simp_all add: takeWhile_all dropWhile_all takeWhile_hd dropWhile_hd)
  have d: "dropWhile crlf_char e = []" using assms(5) by (simp add: dropWhile_eq_Nil_conv)
  show ?thesis unfolding value_regex_def
    by (rule run_end_Sq_Star_first)
      (simp add: sp run_end_Sq_Grp_Plus rejects_end_crlf v assms(1) run_end_crlf d)
qed

lemma run_end_Sq_Grp_Plus_list:
  "run_end (Sq (Grp i (Plus (Cls P))) r) (n, s, c) =
     concat (map (\<lambda>l. run_end r (n + l, drop l s, (i, take l s) # c))
       (rev [1..<Suc (length (takeWhile P s))]))"
  by (simp add: run_end_Sq run_Plus_Cls_list comp_def del: upt_Suc run.simps(2,5))

lemma run_end_key:
  assumes k: "k \<noteq> []" "\<forall>x\<in>set k. P x" and colon: "P CHR '':''"
    and w: "CHR '':'' \<notin> set (takeWhile P w)"
    and r: "run_end r (Suc (n + length k), w, (1, k) # c) = st # ys"
  shows "\<exists>ys. run_end (Sq (Grp 1 (Plus (Cls P))) (Sq (Lit CHR '':'') r)) (n, k @ CHR '':'' # w, c) = st # ys"
proof -
  let ?s = "k @ CHR '':'' # w" and ?u = "takeWhile P w"
  let ?K = "\<lambda>i. run_end (Sq (Lit CHR '':'') r) (n + i, drop i ?s, (1, take i ?s) # c)"
  have u: "takeWhile P ?s = k @ CHR '':'' # ?u" using k colon by (simp add: takeWhile_all)
  have "[1..<Suc (length (k @ CHR '':'' # ?u))] =
      [1..<length k] @ length k # [Suc (length k)..<Suc (length (k @ CHR '':'' # ?u))]"
    using k(1) by (intro upt_split) (auto simp: Suc_le_eq)
  then have sp: "rev [1..<Suc (length (takeWhile P ?s))] =
      rev [Suc (length k)..<Suc (length (k @ CHR '':'' # ?u))] @ length k # rev [1..<length k]"
    by (simp add: u)
  have hit: "?K (length k) = st # ys" using r by (simp add: Lit_def run_end_Sq_Cls)
  have miss: "?K i = []" if "Suc (length k) \<le> i" "i < Suc (length (k @ CHR '':'' # ?u))" for i
  proof -
    define j where "j = i - Suc (length k)"
    have j: "i = Suc (length k + j)" "j \<le> length ?u" using that by (simp_all add: j_def)
    have "drop i ?s = drop j w" using j by simp
    moreover have "drop j w = [] \<or> hd (drop j w) \<noteq> CHR '':''"
    proof (cases "j < length ?u")
      case True
      then have "?u ! j \<in> set ?u" by (rule nth_mem)
      moreover have "?u ! j = w ! j" using True by (rule takeWhile_nth)
      moreover have "j < length w" using True length_takeWhile_le [of P w] by simp
      ultimately show ?thesis using w by (auto simp: hd_drop_conv_nth)
    next
      case False
      then have "drop j w = dropWhile P w" using j by (simp add: dropWhile_eq_drop)
      then show ?thesis using colon hd_dropWhile [of P w] by auto
    qed
    ultimately show ?thesis
      by (auto simp: Lit_def run_end_Sq_Cls split: list.splits)
  qed
  have "run_end (Sq (Grp 1 (Plus (Cls P))) (Sq (Lit CHR '':'') r)) (n, ?s, c) =
      concat (map ?K (rev [1..<Suc (length (takeWhile P ?s))]))"
    using run_end_Sq_Grp_Plus_list by blast
  also have "\<dots> = concat (map ?K (rev [Suc (length k)..<Suc (length (k @ CHR '':'' # ?u))])) @
      st # ys @ concat (map ?K (rev [1..<length k]))"
    unfolding sp by (simp add: hit [simplified] del: upt_Suc)
  also have "concat (map ?K (rev [Suc (length k)..<Suc (length (k @ CHR '':'' # ?u))])) = []"
    using miss by (simp del: upt_Suc)
  finally show ?thesis by simp
qed

text \<open>The header line of a name and a value, as a client prints it (without the line feed).\<close>

lemma regex_match_header:
  assumes "k \<noteq> []" "\<forall>x\<in>set k. not_space x"
    and "v \<noteq> []" "\<not> is_space (hd v)" "\<forall>x\<in>set v. not_newline x" "\<forall>x\<in>set sp. is_space x"
    and "\<forall>x\<in>set e. crlf_char x" and "sp = [] \<Longrightarrow> CHR '':'' \<notin> set (takeWhile not_space v)"
  shows "regex_match header_regex (k @ CHR '':'' # sp @ v @ e) = Some [(2, v), (1, k)]"
proof -
  let ?w = "sp @ v @ e"
  have c: "CHR '':'' \<notin> set (takeWhile not_space ?w)"
  proof (cases sp)
    case Nil
    have "crlf_char CHR '':'' = False" by (simp add: not_newline_def)
    moreover have "set (takeWhile not_space (v @ e)) \<subseteq> set (takeWhile not_space v) \<union> set e"
      by (induction v) (auto dest: set_takeWhileD)
    ultimately show ?thesis using assms(7,8) Nil by auto
  qed (use assms(6) in auto)
  obtain ys where "run_end value_regex (Suc (0 + length k), ?w, [(1, k)]) =
      (Suc (0 + length k) + length ?w, [], [(2, v), (1, k)]) # ys"
    using run_end_value [OF assms(3-7), of "Suc (0 + length k)" "[(1, k)]"] by auto
  from run_end_key [OF assms(1,2) _ c this] obtain zs where
    "run_end (Sq (Grp 1 (Plus (Cls not_space))) (Sq (Lit CHR '':'') value_regex)) (0, k @ CHR '':'' # ?w, []) =
      (Suc (0 + length k) + length ?w, [], [(2, v), (1, k)]) # zs"
    by (auto simp: is_space_def)
  then show ?thesis
    by (simp add: regex_match_run_end header_regex_def run_end_Sq_Bol value_regex_def)
qed

section \<open>What a step leaves alone\<close>

definition same_start :: "request \<Rightarrow> request \<Rightarrow> bool" where
  "same_start rq rq' \<longleftrightarrow> rq_client_address rq' = rq_client_address rq \<and> rq_method rq' = rq_method rq \<and>
     rq_version rq' = rq_version rq \<and> rq_uri rq' = rq_uri rq \<and> rq_path rq' = rq_path rq \<and>
     rq_args_map rq' = rq_args_map rq \<and> rq_args_set rq' = rq_args_set rq \<and>
     rq_body rq' = rq_body rq \<and> rq_body_bytes_read rq' = rq_body_bytes_read rq"

lemma same_start_refl [simp]: "same_start rq rq"
  by (simp add: same_start_def)

lemma same_start_trans: "same_start a b \<Longrightarrow> same_start b c \<Longrightarrow> same_start a c"
  by (simp add: same_start_def)

lemmas process_header_defs = process_header_content_length_def process_header_connection_def
  process_header_host_def process_header_cookie_def

lemma header_fn_cases:
  assumes "map_of (process_header_fn_map env) header = Some fn"
  obtains "fn = process_header_content_length env" | "fn = process_header_connection"
    | "fn = process_header_host env" | "fn = process_header_cookie"
  using assms by (auto simp: process_header_fn_map_def split: if_splits)

lemma header_fn_same_start:
  "map_of (process_header_fn_map env) header = Some fn \<Longrightarrow> fn value rq = (r, rq') \<Longrightarrow> same_start rq rq'"
  by (erule header_fn_cases)
    (auto simp: process_header_defs same_start_def Let_def split: option.splits if_splits)

lemma process_header_string_same_start:
  "process_header_string env str rq = (r, rq') \<Longrightarrow> same_start rq rq'"
proof -
  assume a: "process_header_string env str rq = (r, rq')"
  show ?thesis
  proof (cases "regex_match header_regex str")
    case (Some m)
    show ?thesis
    proof (cases "map_of (process_header_fn_map env) (group 1 m)")
      case (Some fn)
      obtain r1 rq1 where f: "fn (group 2 m) rq = (r1, rq1)" by fastforce
      then have "same_start rq rq1" by (rule header_fn_same_start [OF Some])
      then show ?thesis using a Some \<open>regex_match header_regex str = Some m\<close> f
        by (cases r1) (auto simp: process_header_string_def Let_def same_start_def)
    qed (use a Some in \<open>auto simp: process_header_string_def same_start_def\<close>)
  qed (use a in \<open>auto simp: process_header_string_def split: if_splits\<close>)
qed

lemma process_headers_same_start:
  "process_headers env stream str0 rq = (r, rq', stream') \<Longrightarrow> same_start rq rq'"
proof (induction env stream str0 rq arbitrary: r rq' stream' rule: process_headers.induct)
  case (1 env stream str0 rq)
  obtain ok str st where g: "getline stream str0 = (ok, str, st)" by (cases "getline stream str0") auto
  show ?case
  proof (cases "ok \<and> str \<noteq> []")
    case True
    obtain r1 rq1 where h: "process_header_string env str rq = (r1, rq1)" by fastforce
    from process_header_string_same_start [OF this] have s: "same_start rq rq1" .
    show ?thesis
    proof (cases "r1 = Inr True")
      case True
      then have "process_headers env st str rq1 = (r, rq', stream')"
        using "1.prems" g h \<open>ok \<and> str \<noteq> []\<close> by (subst (asm) process_headers.simps) simp
      then show ?thesis
        using "1.IH" [OF g [symmetric] refl \<open>ok \<and> str \<noteq> []\<close> h [symmetric]] True s same_start_trans by blast
    qed (use "1.prems" g h \<open>ok \<and> str \<noteq> []\<close> s in
        \<open>subst (asm) process_headers.simps, auto split: sum.splits if_splits\<close>)
  next
    case False
    then show ?thesis using "1.prems" g by (subst (asm) process_headers.simps) auto
  qed
qed

section \<open>Errors of the parser\<close>

fun is_parse_error :: "exn \<Rightarrow> bool" where
  "is_parse_error (Http (Incorrect_start_string _)) = True"
| "is_parse_error (Http (Incorrect_protocol _)) = True"
| "is_parse_error (Http (Unsupported_protocol_version _)) = True"
| "is_parse_error (Http (Incorrect_header_string _)) = True"
| "is_parse_error (Http (Uri_parse_error _)) = True"
| "is_parse_error (Http (Content_length_must_be_0 _)) = True"
| "is_parse_error _ = False"

lemma process_start_error: "process_start_string str rq = (Inl e, rq') \<Longrightarrow> is_parse_error e"
  by (auto simp: process_start_scan Let_def split: option.splits if_splits)

lemma process_header_error: "process_header_string env str rq = (Inl e, rq') \<Longrightarrow> is_parse_error e"
  by (auto simp: process_header_string_def Let_def split: option.splits if_splits prod.splits sum.splits)

lemma process_headers_error:
  "process_headers env stream str0 rq = (Inl e, rq', stream') \<Longrightarrow> is_parse_error e"
proof (induction env stream str0 rq arbitrary: rq' stream' rule: process_headers.induct)
  case (1 env stream str0 rq)
  obtain ok str st where g: "getline stream str0 = (ok, str, st)" by (cases "getline stream str0") auto
  have ok: "ok \<and> str \<noteq> []"
    using "1.prems" g by (subst (asm) process_headers.simps) (auto split: if_splits)
  obtain r1 rq1 where h: "process_header_string env str rq = (r1, rq1)" by fastforce
  show ?case
  proof (cases r1)
    case (Inl e1)
    then have "e1 = e" using "1.prems" g h ok by (subst (asm) process_headers.simps) simp
    then show ?thesis using h Inl process_header_error by blast
  next
    case (Inr again)
    then have "again \<and> process_headers env st str rq1 = (Inl e, rq', stream')"
      using "1.prems" g h ok by (subst (asm) process_headers.simps) (auto split: if_splits)
    then show ?thesis using "1.IH" [OF g [symmetric] refl ok h [symmetric] Inr] by blast
  qed
qed

lemma process_uri_error: "process_uri rq = (Inl e, rq') \<Longrightarrow> is_parse_error e"
  by (auto simp: process_uri_def Let_def split: option.splits)

lemma process_body_error: "process_body env stream rq = (Inl e, rq', stream') \<Longrightarrow>
    is_parse_error e \<or> (\<exists>n. resize_error env n = Some e)"
  by (auto simp: process_body_def Let_def split: option.splits if_splits prod.splits)

section \<open>The body\<close>

text \<open>\<open>got\<close> is what the body holds so far; the rest of it is still zeros.\<close>

definition body_inv :: "string \<Rightarrow> request \<Rightarrow> bool" where
  "body_inv got rq \<longleftrightarrow> length got \<le> unat (rq_content_length rq) \<and>
     rq_body_bytes_read rq = of_nat (length got) \<and>
     rq_body rq = got @ replicate (unat (rq_content_length rq) - length got) (CHR 0x00)"

lemma unat_of_nat_le:
  fixes w :: "64 word" shows "n \<le> unat w \<Longrightarrow> unat (of_nat n :: 64 word) = n"
  by (metis le_unat_uoi)

lemma unat_sub_of_nat: "n \<le> unat w \<Longrightarrow> unat (w - of_nat n :: 64 word) = unat w - n"
  by (subst unat_sub) (simp_all add: unat_of_nat_le word_le_nat_alt)

lemma process_stream_again_step:
  assumes inv: "body_inv got rq" and "is_good stream"
    and r: "process_stream_again stream rq = (left, rq', stream')"
  shows "body_inv (got @ take (unat (rq_content_length rq) - length got) (is_rest stream)) rq'"
    and "unat left = unat (rq_content_length rq) - (length got + length (is_rest stream))"
    and "rq_content_length rq' = rq_content_length rq"
    and "is_rest stream' = drop (unat (rq_content_length rq) - length got) (is_rest stream)"
proof -
  let ?cl = "rq_content_length rq" and ?n = "length got"
  let ?m = "unat ?cl - ?n"
  have le: "?n \<le> unat ?cl" and br: "rq_body_bytes_read rq = of_nat ?n"
    and body: "rq_body rq = got @ replicate ?m (CHR 0x00)"
    using inv by (auto simp: body_inv_def)
  let ?d = "take ?m (is_rest stream)"
  have z: "?cl - of_nat ?n = 0 \<longleftrightarrow> ?m = 0"
    using unat_sub_of_nat [OF le] by (metis unat_0 unat_eq_zero)
  have ld: "?n + length ?d \<le> unat ?cl" using le by simp
  have left: "unat (?cl - (of_nat ?n + of_nat (length ?d))) = unat ?cl - (?n + length ?d)"
    using unat_sub_of_nat [OF ld] by simp
  have m: "unat ?cl - (?n + length ?d) = unat ?cl - (?n + length (is_rest stream))" using le by simp
  have rd: "readsome stream ?m = (?d, stream\<lparr>is_rest := drop ?m (is_rest stream)\<rparr>)"
    using \<open>is_good stream\<close> by (simp add: readsome_def)
  have all: "body_inv (got @ ?d) rq' \<and> unat left = unat ?cl - (?n + length (is_rest stream)) \<and>
      rq_content_length rq' = ?cl \<and> is_rest stream' = drop ?m (is_rest stream)"
  proof (cases "?m = 0")
    case True
    then show ?thesis using r z inv by (auto simp: process_stream_again_def br)
  next
    case False
    have nz: "?cl - of_nat ?n \<noteq> 0" using z False by blast
    have eq: "left = ?cl - (of_nat ?n + of_nat (length ?d))"
        "rq' = rq\<lparr>rq_body := take ?n (rq_body rq) @ ?d @ drop (?n + length ?d) (rq_body rq),
                 rq_body_bytes_read := of_nat ?n + of_nat (length ?d)\<rparr>"
        "stream' = stream\<lparr>is_rest := drop ?m (is_rest stream)\<rparr>"
      using r nz by (simp_all add: process_stream_again_def br rd unat_sub_of_nat [OF le] Let_def
          unat_of_nat_le [OF le])
    have "body_inv (got @ ?d) rq'"
      using ld by (simp add: body_inv_def eq body)
    then show ?thesis using left m eq by simp
  qed
  then show "body_inv (got @ ?d) rq'" "unat left = unat ?cl - (?n + length (is_rest stream))"
    "rq_content_length rq' = ?cl" "is_rest stream' = drop ?m (is_rest stream)" by simp_all
qed

text \<open>The session calls \<open>process_stream_again\<close> with every chunk that arrives.\<close>

fun feed :: "request \<Rightarrow> string list \<Rightarrow> 64 word \<times> request" where
  "feed rq [] = (rq_content_length rq - rq_body_bytes_read rq, rq)"
| "feed rq (chunk # chunks) =
     (case process_stream_again \<lparr>is_rest = chunk, is_good = True\<rparr> rq of (_, rq', _) \<Rightarrow> feed rq' chunks)"

lemma feed_step:
  "body_inv got rq \<Longrightarrow> feed rq chunks = (left, rq') \<Longrightarrow>
   body_inv (take (unat (rq_content_length rq)) (got @ concat chunks)) rq' \<and>
   unat left = unat (rq_content_length rq) - (length got + length (concat chunks)) \<and>
   rq_content_length rq' = rq_content_length rq"
proof (induction chunks arbitrary: got rq)
  case Nil
  then show ?case by (auto simp: body_inv_def unat_sub_of_nat)
next
  case (Cons chunk chunks)
  let ?cl = "unat (rq_content_length rq)"
  obtain l rq1 st where s: "process_stream_again \<lparr>is_rest = chunk, is_good = True\<rparr> rq = (l, rq1, st)"
    by (metis prod_cases3)
  note st = process_stream_again_step [OF Cons.prems(1) _ s, simplified]
  have f: "feed rq1 chunks = (left, rq')" using Cons.prems(2) s by simp
  have le: "length got \<le> ?cl" using Cons.prems(1) by (simp add: body_inv_def)
  from Cons.IH [OF st(1) f]
  have "body_inv (take ?cl ((got @ take (?cl - length got) chunk) @ concat chunks)) rq' \<and>
     unat left = ?cl - (length (got @ take (?cl - length got) chunk) + length (concat chunks)) \<and>
     rq_content_length rq' = rq_content_length rq"
    using st(3) by simp
  moreover have "take ?cl ((got @ take (?cl - length got) chunk) @ concat chunks) =
      take ?cl (got @ concat (chunk # chunks))"
    using le by (cases "length chunk \<le> ?cl - length got") simp_all
  moreover have "?cl - (length (got @ take (?cl - length got) chunk) + length (concat chunks)) =
      ?cl - (length got + length (concat (chunk # chunks)))"
    using le by (cases "length chunk \<le> ?cl - length got") simp_all
  ultimately show ?case by simp
qed

section \<open>Accepted requests\<close>

text \<open>The arguments of the URI as the scanners of \<open>Http_Utils\<close> see them, not decoded.\<close>

fun apply_arg :: "uri_item \<Rightarrow> request \<Rightarrow> request" where
  "apply_arg (KV k v) rq = rq\<lparr>rq_args_map := rq_args_map rq @ [(k, v)]\<rparr>"
| "apply_arg (K k) rq = rq\<lparr>rq_args_set := rq_args_set rq @ [k]\<rparr>"

lemma fold_add_arg:
  "fold add_arg (regex_iterate args_regex n s) rq = fold apply_arg (map split_item (segments s)) rq"
proof -
  have f: "list_all2 seg_groups ms us \<Longrightarrow> fold add_arg ms rq = fold apply_arg (map split_item us) rq" for ms us rq
  proof (induction arbitrary: rq rule: list_all2_induct)
    case (Cons m ms u us)
    have "add_arg m rq = apply_arg (split_item u) rq"
      using Cons.hyps(1) by (cases m) (auto simp: seg_groups_def add_arg_def Let_def emplace_multi_def)
    then show ?case using Cons.IH by simp
  qed simp
  show ?thesis by (rule f [OF regex_iterate_args])
qed

lemma process_uri_scan: "process_uri rq = (case uri_split (rq_uri rq) of
     None \<Rightarrow> (Inl (Http (Uri_parse_error (rq_uri rq))), rq)
   | Some (p, q) \<Rightarrow>
       (Inr (), fold apply_arg (map split_item (segments q)) (rq\<lparr>rq_path := p\<rparr>)))"
proof (cases "regex_match base_regex (rq_uri rq)")
  case None
  then show ?thesis using regex_match_base [of "rq_uri rq"] by (simp add: process_uri_def)
next
  case (Some m)
  then have u: "uri_split (rq_uri rq) = Some (group 1 m, group 3 m)"
    using regex_match_base [of "rq_uri rq"] by simp
  show ?thesis by (cases "group 3 m = []") (simp_all add: process_uri_def Some u fold_add_arg Let_def)
qed

lemma fold_apply_arg:
  "rq_client_address (fold apply_arg us rq) = rq_client_address rq"
  "rq_method (fold apply_arg us rq) = rq_method rq"
  "rq_version (fold apply_arg us rq) = rq_version rq"
  "rq_body (fold apply_arg us rq) = rq_body rq"
  "rq_path (fold apply_arg us rq) = rq_path rq"
  "rq_body_bytes_read (fold apply_arg us rq) = rq_body_bytes_read rq"
  "rq_content_length (fold apply_arg us rq) = rq_content_length rq"
proof -
  have "rq_client_address (fold apply_arg us rq) = rq_client_address rq \<and>
    rq_method (fold apply_arg us rq) = rq_method rq \<and> rq_version (fold apply_arg us rq) = rq_version rq \<and>
    rq_body (fold apply_arg us rq) = rq_body rq \<and> rq_path (fold apply_arg us rq) = rq_path rq \<and>
    rq_body_bytes_read (fold apply_arg us rq) = rq_body_bytes_read rq \<and>
    rq_content_length (fold apply_arg us rq) = rq_content_length rq"
  proof (induction us arbitrary: rq)
    case (Cons u us)
    then show ?case by (cases u) auto
  qed simp
  then show "rq_client_address (fold apply_arg us rq) = rq_client_address rq"
    "rq_method (fold apply_arg us rq) = rq_method rq" "rq_version (fold apply_arg us rq) = rq_version rq"
    "rq_body (fold apply_arg us rq) = rq_body rq" "rq_path (fold apply_arg us rq) = rq_path rq"
    "rq_body_bytes_read (fold apply_arg us rq) = rq_body_bytes_read rq"
    "rq_content_length (fold apply_arg us rq) = rq_content_length rq" by simp_all
qed

lemma process_uri_path: "process_uri rq = (Inr (), rq') \<Longrightarrow> rq_path rq' \<noteq> []"
  by (auto simp: process_uri_scan fold_apply_arg uri_split_def Let_def split: if_splits)

lemma process_uri_frame: "process_uri rq = (Inr (), rq') \<Longrightarrow>
    rq_method rq' = rq_method rq \<and> rq_version rq' = rq_version rq \<and> rq_body rq' = rq_body rq \<and>
    rq_body_bytes_read rq' = rq_body_bytes_read rq \<and> rq_content_length rq' = rq_content_length rq"
  by (auto simp: process_uri_scan fold_apply_arg split: option.splits)

lemma process_stream_again_frame:
  "process_stream_again stream rq = (left, rq', stream') \<Longrightarrow>
    rq_method rq' = rq_method rq \<and> rq_version rq' = rq_version rq \<and> rq_path rq' = rq_path rq"
  by (auto simp: process_stream_again_def Let_def split: if_splits prod.splits)

lemma process_stream_again_bad:
  "\<not> is_good stream \<Longrightarrow> body_inv got rq \<Longrightarrow> process_stream_again stream rq = (left, rq', stream') \<Longrightarrow>
    rq' = rq \<and> stream' = stream \<and> left = rq_content_length rq - rq_body_bytes_read rq"
  by (auto simp: process_stream_again_def Let_def readsome_def split: if_splits)

lemma process_body_accepts:
  assumes r: "process_body env stream rq = (Inr left, rq', stream')"
    and b: "rq_body rq = []" "rq_body_bytes_read rq = 0"
  shows "\<exists>got. rq_content_length rq' = rq_content_length rq \<and> body_inv got rq' \<and>
     unat left = unat (rq_content_length rq) - length got \<and> rq_method rq' = rq_method rq \<and>
     rq_version rq' = rq_version rq \<and> rq_path rq' = rq_path rq \<and>
     (is_good stream \<longrightarrow> got = take (unat (rq_content_length rq)) (is_rest stream)) \<and>
     (rq_content_length rq \<noteq> 0 \<longrightarrow> rq_method rq = POST)"
proof (cases "rq_content_length rq = 0")
  case True
  then show ?thesis using r b by (auto simp: process_body_def body_inv_def)
next
  case False
  let ?cl = "rq_content_length rq"
  let ?rq = "rq\<lparr>rq_body := resize (unat ?cl) (rq_body rq)\<rparr>"
  have m: "rq_method rq = POST" and a: "process_stream_again stream ?rq = (left, rq', stream')"
    using r False by (auto simp: process_body_def Let_def split: if_splits option.splits prod.splits)
  have inv: "body_inv [] ?rq" using b by (simp add: body_inv_def resize_def)
  note fr = process_stream_again_frame [OF a]
  show ?thesis
  proof (cases "is_good stream")
    case True
    note st = process_stream_again_step [OF inv True a, simplified]
    show ?thesis using st(1,2,3) fr m by (intro exI [of _ "take (unat ?cl) (is_rest stream)"]) simp
  next
    case bad: False
    then show ?thesis using process_stream_again_bad [OF bad inv a] inv m b
      by (intro exI [of _ "[]"]) simp
  qed
qed

section \<open>The request a client prints\<close>

definition header_line :: "string \<times> string \<Rightarrow> string" where
  "header_line = (\<lambda>(k, v). k @ '': '' @ v @ [CR, LF])"

definition print_request :: "http_method \<Rightarrow> string \<Rightarrow> (string \<times> string) list \<Rightarrow> string \<Rightarrow> string" where
  "print_request m uri hs b = method_to_str m @ '' '' @ uri @ '' HTTP/1.1'' @ [CR, LF] @
     concat (map header_line hs) @ [CR, LF] @ b"

definition header_ok :: "string \<times> string \<Rightarrow> bool" where
  "header_ok = (\<lambda>(k, v). k \<noteq> [] \<and> list_all not_space k \<and>
     v \<noteq> [] \<and> \<not> is_space (hd v) \<and> list_all not_newline v)"

text \<open>What a header does to the request, apart from reading it.\<close>

definition apply_header :: "req_env \<Rightarrow> string \<times> string \<Rightarrow> unit rx" where
  "apply_header env = (\<lambda>(k, v) rq. case map_of (process_header_fn_map env) k of
     None \<Rightarrow> (Inr (), rq\<lparr>rq_unparsed_headers := rq_unparsed_headers rq @ [(k, v)]\<rparr>)
   | Some fn \<Rightarrow> (case fn v rq of (Inl e, rq) \<Rightarrow> (Inl e, rq)
       | (Inr _, rq) \<Rightarrow> (Inr (), rq\<lparr>rq_parsed_headers := rq_parsed_headers rq @ [(k, v)]\<rparr>)))"

fun apply_headers :: "req_env \<Rightarrow> (string \<times> string) list \<Rightarrow> unit rx" where
  "apply_headers env [] rq = (Inr (), rq)"
| "apply_headers env (h # hs) rq = sbind (apply_header env h) (\<lambda>_. apply_headers env hs) rq"

lemma process_header_printed:
  assumes "header_ok (k, v)" "apply_header env (k, v) rq = (Inr (), rq')"
  shows "process_header_string env (k @ '': '' @ v @ [CR]) rq = (Inr True, rq')"
proof -
  have "regex_match header_regex (k @ CHR '':'' # '' '' @ v @ [CR]) = Some [(2, v), (1, k)]"
    using assms(1) by (intro regex_match_header)
      (auto simp: header_ok_def list_all_iff not_newline_def is_space_def)
  then have "regex_match header_regex (k @ '': '' @ v @ [CR]) = Some [(2, v), (1, k)]" by simp
  then show ?thesis using assms(2)
    by (auto simp: process_header_string_def apply_header_def group_def Let_def emplace_multi_def
        split: option.splits prod.splits sum.splits)
qed

lemma getline_line:
  "LF \<notin> set line \<Longrightarrow> getline \<lparr>is_rest = line @ LF # s, is_good = True\<rparr> str0 =
     (True, line, \<lparr>is_rest = s, is_good = True\<rparr>)"
  using takeWhile_all [of line "\<lambda>c. c \<noteq> LF" "LF # s"] dropWhile_all [of line "\<lambda>c. c \<noteq> LF" "LF # s"]
  by (fastforce simp: getline_def)

lemma process_header_last: "process_header_string env [CR] rq = (Inr False, rq)"
proof -
  have "regex_match header_regex [CR] = None"
    by (simp add: regex_match_None_iff header_regex_def run_end_Sq_Bol run_end_Sq_Grp_Plus_list is_space_def)
  moreover have "regex_match empty_regex [CR] \<noteq> None"
    unfolding regex_match_None_iff empty_regex_def run_end_Sq_Bol
    by (subst run_end_Sq_Star) (auto simp: run_end_Eol is_space_def intro!: rejects_end rejects_intros)
  ultimately show ?thesis by (simp add: process_header_string_def)
qed

lemma apply_headers_Cons: "apply_headers env (h # hs) rq = (Inr (), rq') \<longleftrightarrow>
    (\<exists>rq1. apply_header env h rq = (Inr (), rq1) \<and> apply_headers env hs rq1 = (Inr (), rq'))"
  by (simp add: sbind_Inr_iff)

lemma process_headers_step:
  "getline stream str0 = (True, str, st) \<Longrightarrow> str \<noteq> [] \<Longrightarrow>
   process_header_string env str rq = (Inr again, rq1) \<Longrightarrow>
   process_headers env stream str0 rq =
     (if again then process_headers env st str rq1 else (Inr (), rq1, st))"
  by (subst process_headers.simps) simp

lemma header_line_text:
  "header_line (k, v) @ s = (k @ '': '' @ v @ [CR]) @ LF # s"
  by (simp add: header_line_def)

lemma header_ok_no_LF: "header_ok (k, v) \<Longrightarrow> LF \<notin> set (k @ '': '' @ v @ [CR])"
proof -
  assume "header_ok (k, v)"
  then have ok: "\<forall>x\<in>set k. not_space x" "\<forall>x\<in>set v. not_newline x"
    by (simp_all add: header_ok_def list_all_iff)
  have "is_space LF" "\<not> not_newline LF" by (simp_all add: is_space_def not_newline_def)
  then have "LF \<notin> set k" "LF \<notin> set v" using ok by blast+
  then show ?thesis by simp
qed

lemma process_headers_printed:
  "list_all header_ok hs \<Longrightarrow> apply_headers env hs rq = (Inr (), rq') \<Longrightarrow>
   process_headers env \<lparr>is_rest = concat (map header_line hs) @ [CR, LF] @ b, is_good = True\<rparr> str0 rq =
     (Inr (), rq', \<lparr>is_rest = b, is_good = True\<rparr>)"
proof (induction hs arbitrary: rq str0)
  case Nil
  have "getline \<lparr>is_rest = [CR] @ LF # b, is_good = True\<rparr> str0 = (True, [CR], \<lparr>is_rest = b, is_good = True\<rparr>)"
    by (rule getline_line) simp
  from process_headers_step [OF this _ process_header_last] Nil show ?case by simp
next
  case (Cons h hs)
  obtain k v where kv: "h = (k, v)" by fastforce
  obtain rq1 where a: "apply_header env (k, v) rq = (Inr (), rq1)" "apply_headers env hs rq1 = (Inr (), rq')"
    using Cons.prems(2) unfolding apply_headers_Cons kv by blast
  have ok: "header_ok (k, v)" "list_all header_ok hs" using Cons.prems(1) kv by simp_all
  have t: "concat (map header_line (h # hs)) @ [CR, LF] @ b =
      (k @ '': '' @ v @ [CR]) @ LF # concat (map header_line hs) @ [CR, LF] @ b"
    unfolding kv by (simp add: header_line_text)
  show ?case unfolding t
    using process_headers_step [OF getline_line [OF header_ok_no_LF [OF ok(1)]] _
        process_header_printed [OF ok(1) a(1)]] Cons.IH [OF ok(2) a(2)] by simp
qed

lemma scan_start_printed:
  assumes "m \<noteq> []" "list_all is_name m" "u \<noteq> []" "list_all not_space u"
  shows "scan_start (m @ '' '' @ u @ '' HTTP/1.1'' @ [CR]) = Some (m, u, ''HTTP'', ''1.1'')"
proof -
  have sp: "is_space CHR '' ''" "\<not> is_name CHR '' ''" by (simp_all add: is_space_def is_name_def char_class_defs)
  have h: "is_name CHR ''H''" "is_name CHR ''T''" "is_name CHR ''P''" "\<not> is_name CHR ''/''"
      "is_digit CHR ''1''" "\<not> is_digit CHR ''.''" "\<not> is_digit CR" "crlf_char CR" "\<not> is_space CHR ''H''"
    by (simp_all add: is_name_def char_class_defs not_newline_def)
  have u: "is_space (hd u) = False" using assms by (cases u) auto
  show ?thesis using assms
    by (cases u) (simp_all add: scan_start_def Let_def takeWhile_all dropWhile_all list_all_iff sp h)
qed

definition request_line_ok :: "http_method \<Rightarrow> string \<Rightarrow> bool" where
  "request_line_ok m uri \<longleftrightarrow> m \<noteq> M_unknown \<and> uri \<noteq> [] \<and> list_all not_space uri \<and> hd uri \<noteq> CHR ''?''"

lemma method_str_ok: "m \<noteq> M_unknown \<Longrightarrow>
   method_to_str m \<noteq> [] \<and> list_all is_name (method_to_str m) \<and> str_toupper (method_to_str m) = method_to_str m"
  by (cases m) (simp_all add: str_toupper_def is_name_def char_class_defs to_upper_def)

lemma toupper_fixed: "str_toupper ''HTTP'' = ''HTTP''" "str_toupper ''1.1'' = ''1.1''"
  by (simp_all add: str_toupper_def char_class_defs to_upper_def)

lemma set_tl_dropWhile: "set (tl (dropWhile P s)) \<subseteq> set s"
proof -
  have "set (tl xs) \<subseteq> set xs" for xs :: "'a list" by (cases xs) auto
  then show ?thesis using set_dropWhileD by fastforce
qed

lemma uri_split_ok:
  assumes "request_line_ok m uri"
  shows "uri_split uri = Some (takeWhile (\<lambda>c. c \<noteq> CHR ''?'') uri, tl (dropWhile (\<lambda>c. c \<noteq> CHR ''?'') uri))"
proof -
  have "not_newline x" if "not_space x" for x
    using that by (auto simp: is_space_def not_newline_def)
  then have n: "list_all not_newline uri"
    using assms by (auto simp: request_line_ok_def list_all_iff)
  have "set (tl (dropWhile (\<lambda>c. c \<noteq> CHR ''?'') uri)) \<subseteq> set uri" by (rule set_tl_dropWhile)
  then have "list_all not_newline (tl (dropWhile (\<lambda>c. c \<noteq> CHR ''?'') uri))"
    using n by (auto simp: list_all_iff)
  moreover have "takeWhile (\<lambda>c. c \<noteq> CHR ''?'') uri \<noteq> []"
    using assms by (cases uri) (auto simp: request_line_ok_def)
  ultimately show ?thesis by (simp add: uri_split_def Let_def)
qed

lemma process_stream_printed:
  assumes line: "request_line_ok m uri" and hs: "list_all header_ok hs"
    and ap: "apply_headers env hs ((reset rq0)\<lparr>rq_method := m, rq_version := V_1_1, rq_uri := uri\<rparr>) = (Inr (), rq1)"
    and ur: "rq_uri rq1 = uri"
  shows "process_stream env \<lparr>is_rest = print_request m uri hs b, is_good = True\<rparr> rq0 =
    process_body env \<lparr>is_rest = b, is_good = True\<rparr>
      (fold apply_arg (map split_item (segments (tl (dropWhile (\<lambda>c. c \<noteq> CHR ''?'') uri))))
        (rq1\<lparr>rq_path := takeWhile (\<lambda>c. c \<noteq> CHR ''?'') uri\<rparr>))"
proof -
  let ?line = "method_to_str m @ '' '' @ uri @ '' HTTP/1.1'' @ [CR]"
  let ?rest = "concat (map header_line hs) @ [CR, LF] @ b"
  have m: "method_to_str m \<noteq> []" "list_all is_name (method_to_str m)"
      "str_toupper (method_to_str m) = method_to_str m" "uri \<noteq> []" "list_all not_space uri"
    using line method_str_ok by (auto simp: request_line_ok_def)
  have "is_space LF" "\<not> is_name LF" by (simp_all add: is_name_def char_class_defs)
  then have "LF \<notin> set (method_to_str m)" "LF \<notin> set uri"
    using m(2,5) by (auto simp only: list_all_iff)
  then have g: "getline \<lparr>is_rest = ?line @ LF # ?rest, is_good = True\<rparr> [] =
      (True, ?line, \<lparr>is_rest = ?rest, is_good = True\<rparr>)"
    by (intro getline_line) simp
  have t: "print_request m uri hs b = ?line @ LF # ?rest" by (simp add: print_request_def)
  have s: "process_start_string ?line (reset rq0) =
      (Inr (), (reset rq0)\<lparr>rq_method := m, rq_version := V_1_1, rq_uri := uri\<rparr>)"
    unfolding process_start_scan scan_start_printed [OF m(1,2,4,5)]
    by (simp add: toupper_fixed m(3) str_to_method_to_str)
  show ?thesis
    unfolding process_stream_def t Let_def g prod.case s sum.case
      process_headers_printed [OF hs ap] process_uri_scan ur uri_split_ok [OF line] option.case ..
qed

lemma apply_headers_append: "apply_headers env (xs @ ys) rq =
    sbind (apply_headers env xs) (\<lambda>_. apply_headers env ys) rq"
  by (induction xs arbitrary: rq) (auto simp: sbind_def split: prod.splits sum.splits)

lemma apply_headers_unparsed:
  "list_all (\<lambda>(k, v). map_of (process_header_fn_map env) k = None) hs \<Longrightarrow>
   apply_headers env hs rq = (Inr (), rq\<lparr>rq_unparsed_headers := rq_unparsed_headers rq @ hs\<rparr>)"
  by (induction hs arbitrary: rq) (auto simp: apply_header_def sbind_def)

text \<open>The names of the headers the parser handles itself.\<close>

definition handled_header :: "string \<Rightarrow> bool" where
  "handled_header k \<longleftrightarrow> k \<in> {header_content_length, header_connection, header_host, header_cookie}"

lemma not_handled: "\<not> handled_header k \<Longrightarrow> map_of (process_header_fn_map env) k = None"
  by (simp add: handled_header_def process_header_fn_map_def)

lemma fold_apply_arg_upd:
  "fold apply_arg us (rq\<lparr>rq_body := x\<rparr>) = (fold apply_arg us rq)\<lparr>rq_body := x\<rparr>"
  "fold apply_arg us (rq\<lparr>rq_body_bytes_read := y\<rparr>) = (fold apply_arg us rq)\<lparr>rq_body_bytes_read := y\<rparr>"
proof -
  have a: "apply_arg u (rq\<lparr>rq_body := x\<rparr>) = (apply_arg u rq)\<lparr>rq_body := x\<rparr>"
    "apply_arg u (rq\<lparr>rq_body_bytes_read := y\<rparr>) = (apply_arg u rq)\<lparr>rq_body_bytes_read := y\<rparr>" for u rq
    by (cases u; simp)+
  show "fold apply_arg us (rq\<lparr>rq_body := x\<rparr>) = (fold apply_arg us rq)\<lparr>rq_body := x\<rparr>"
    by (induction us arbitrary: rq) (simp_all add: a)
  show "fold apply_arg us (rq\<lparr>rq_body_bytes_read := y\<rparr>) = (fold apply_arg us rq)\<lparr>rq_body_bytes_read := y\<rparr>"
    by (induction us arbitrary: rq) (simp_all add: a)
qed

lemma to_string_not_space: "x \<in> set (to_string n) \<Longrightarrow> not_space x \<and> not_newline x"
  using to_string_digits [of x n] by (auto simp: char_class_defs not_newline_def)

lemma header_ok_content_length: "header_ok (header_content_length, to_string n)"
proof -
  have "not_space (hd (to_string n))" using to_string_not_space hd_in_set to_string_ne by blast
  moreover have "list_all not_newline (to_string n)"
    unfolding list_all_iff using to_string_not_space by blast
  moreover have "list_all not_space header_content_length"
    by (simp add: header_content_length_def is_space_def)
  ultimately show ?thesis by (simp add: header_ok_def header_content_length_def)
qed

text \<open>
  A POST request as a client prints it is read back exactly: method, version, URI, path
  and arguments, every header in order, the body cut off at its announced length, and what
  follows it left in the stream for the next request, whatever request was parsed before.
\<close>
theorem request_roundtrip:
  assumes line: "request_line_ok POST uri"
    and hs: "list_all header_ok hs" "list_all (\<lambda>(k, v). \<not> handled_header k) hs"
    and size: "lexical_size env (to_string (length b)) = Some (of_nat (length b))" "length b < 2 ^ 64"
    and alloc: "resize_error env (of_nat (length b)) = None"
  shows "process_stream env \<lparr>is_rest = print_request POST uri
      (hs @ [(header_content_length, to_string (length b))]) (b @ next), is_good = True\<rparr> rq0 =
    (Inr 0, fold apply_arg (map split_item (segments (tl (dropWhile (\<lambda>c. c \<noteq> CHR ''?'') uri))))
       ((new_request (rq_client_address rq0))\<lparr>rq_method := POST, rq_version := V_1_1, rq_uri := uri,
         rq_content_length := of_nat (length b), rq_unparsed_headers := hs,
         rq_parsed_headers := [(header_content_length, to_string (length b))],
         rq_path := takeWhile (\<lambda>c. c \<noteq> CHR ''?'') uri,
         rq_body := b, rq_body_bytes_read := of_nat (length b)\<rparr>),
     \<lparr>is_rest = next, is_good = True\<rparr>)"
proof -
  let ?p = "takeWhile (\<lambda>c. c \<noteq> CHR ''?'') uri"
  let ?us = "map split_item (segments (tl (dropWhile (\<lambda>c. c \<noteq> CHR ''?'') uri)))"
  let ?hs = "hs @ [(header_content_length, to_string (length b))]"
  let ?rq = "(new_request (rq_client_address rq0))\<lparr>rq_method := POST, rq_version := V_1_1, rq_uri := uri,
     rq_content_length := of_nat (length b), rq_unparsed_headers := hs,
     rq_parsed_headers := [(header_content_length, to_string (length b))]\<rparr>"
  have un: "list_all (\<lambda>(k, v). map_of (process_header_fn_map env) k = None) hs"
    using hs(2) by (auto simp: list_all_iff not_handled)
  have ok: "list_all header_ok ?hs"
    using hs(1) header_ok_content_length by simp
  have r: "reset rq0 = new_request (rq_client_address rq0)"
    by (rule request.equality) (simp_all add: reset_def base_reset_def new_request_def)
  have ap: "apply_headers env ?hs ((reset rq0)\<lparr>rq_method := POST, rq_version := V_1_1, rq_uri := uri\<rparr>) =
      (Inr (), ?rq)"
    unfolding apply_headers_append r
    by (simp add: sbind_def apply_headers_unparsed [OF un] apply_header_def process_header_fn_map_def
        process_header_content_length_def size new_request_def)
  have len: "unat (of_nat (length b) :: 64 word) = length b"
    using size(2) by (simp add: unat_of_nat take_bit_nat_eq_self)
  have z: "(of_nat (length b) :: 64 word) = 0 \<longleftrightarrow> b = []"
  proof
    assume "(of_nat (length b) :: 64 word) = 0"
    then have "length b = 0" using len by simp
    then show "b = []" by simp
  qed simp
  let ?R = "fold apply_arg ?us (?rq\<lparr>rq_path := ?p\<rparr>)"
  have R: "rq_content_length ?R = of_nat (length b)" "rq_method ?R = POST" "rq_body ?R = []"
      "rq_body_bytes_read ?R = 0"
    by (simp_all add: fold_apply_arg new_request_def)
  have "process_body env \<lparr>is_rest = b @ next, is_good = True\<rparr> ?R =
      (Inr 0, ?R\<lparr>rq_body := b, rq_body_bytes_read := of_nat (length b)\<rparr>, \<lparr>is_rest = next, is_good = True\<rparr>)"
  proof (cases "b = []")
    case True
    have "?R\<lparr>rq_body := [], rq_body_bytes_read := 0\<rparr> = ?R"
      by (rule request.equality) (simp_all add: R)
    then show ?thesis using True R by (simp add: process_body_def)
  next
    case False
    then show ?thesis
      by (simp add: process_body_def R z alloc process_stream_again_def readsome_def Let_def len resize_def)
  qed
  then show ?thesis
    using process_stream_printed [OF line ok ap, of "b @ next"]
    by (simp add: fold_apply_arg_upd [symmetric])
qed

section \<open>Where the body begins\<close>

text \<open>
  What follows the headers, said of the bytes alone: the lines up to and including the first blank one
  are dropped; without a line feed nothing is left.
\<close>

definition drop_line :: "string \<Rightarrow> string" where
  "drop_line s = tl (dropWhile (\<lambda>c. c \<noteq> LF) s)"

lemma drop_line_shrinks: "s \<noteq> [] \<Longrightarrow> length (drop_line s) < length s"
  unfolding drop_line_def using length_dropWhile_le [of "\<lambda>c. c \<noteq> LF" s]
  by (simp add: less_eq_Suc_le [symmetric] flip: length_greater_0_conv)

function after_headers :: "string \<Rightarrow> string" where
  "after_headers s =
     (if LF \<notin> set s then []
      else if list_all (\<lambda>c. c = CR \<or> is_space c) (takeWhile (\<lambda>c. c \<noteq> LF) s) then drop_line s
      else after_headers (drop_line s))"
  by pat_completeness auto
termination by (relation "measure length") (auto intro!: drop_line_shrinks [simplified])

declare after_headers.simps [simp del]

lemma blank_line: "regex_match empty_regex str \<noteq> None \<longleftrightarrow> list_all (\<lambda>c. c = CR \<or> is_space c) str"
  unfolding regex_match_None_iff empty_regex_def run_end_Sq_Bol
  by (subst run_end_Sq_Star) (auto simp: run_end_Eol dropWhile_eq_Nil_conv list_all_iff intro!: rejects_end rejects_intros)

lemma blank_no_header:
  assumes "list_all (\<lambda>c. c = CR \<or> is_space c) str"
  shows "regex_match header_regex str = None"
proof (cases str)
  case Nil
  then show ?thesis by (simp add: regex_match_None_iff header_regex_def run_end_Sq_Bol run_end_Sq_Grp_Plus_list)
next
  case (Cons c s)
  then have "is_space c" using assms by (auto simp: is_space_def)
  then show ?thesis
    by (simp add: Cons regex_match_None_iff header_regex_def run_end_Sq_Bol run_end_Sq_Grp_Plus_list)
qed

lemma header_again:
  assumes "process_header_string env str rq = (Inr again, rq')"
  shows "again \<longleftrightarrow> \<not> list_all (\<lambda>c. c = CR \<or> is_space c) str"
proof (cases "regex_match header_regex str")
  case None
  then have "regex_match empty_regex str \<noteq> None \<and> \<not> again"
    using assms unfolding process_header_string_def None option.case by (metis Inl_Inr_False Inr_inject prod.inject)
  then show ?thesis using blank_line by blast
next
  case (Some m)
  then have "\<not> list_all (\<lambda>c. c = CR \<or> is_space c) str" using blank_no_header by fastforce
  moreover have again
  proof (cases "map_of (process_header_fn_map env) (group 1 m)")
    case None
    then show ?thesis using assms by (simp add: process_header_string_def Some)
  next
    case (Some fn)
    then show ?thesis using assms \<open>regex_match header_regex str = Some m\<close>
      by (cases "fst (fn (group 2 m) rq)"; cases "fn (group 2 m) rq") (simp_all add: process_header_string_def)
  qed
  ultimately show ?thesis by blast
qed

text \<open>Where the stream stands after a line, and after the headers.\<close>

definition stands :: "string \<Rightarrow> istream \<Rightarrow> bool" where
  "stands s st \<longleftrightarrow> is_rest st = s \<and> (s \<noteq> [] \<longrightarrow> is_good st)"

lemma getline_stands:
  assumes "getline stream str0 = (ok, str, st)" "is_good stream"
  shows "stands (drop_line (is_rest stream)) st \<and> (ok \<longrightarrow> str = takeWhile (\<lambda>c. c \<noteq> LF) (is_rest stream)) \<and>
    (\<not> ok \<longrightarrow> is_rest stream = []) \<and> (is_good st \<longleftrightarrow> LF \<in> set (is_rest stream))"
proof (cases "LF \<in> set (is_rest stream)")
  case True
  then show ?thesis using assms by (auto simp: getline_def stands_def drop_line_def)
next
  case False
  then have t: "takeWhile (\<lambda>c. c \<noteq> LF) (is_rest stream) = is_rest stream" "dropWhile (\<lambda>c. c \<noteq> LF) (is_rest stream) = []"
    unfolding takeWhile_eq_all_conv dropWhile_eq_Nil_conv by blast+
  have o: "ok = (is_rest stream \<noteq> [])" "str = is_rest stream" "st = stream\<lparr>is_rest := [], is_good := False\<rparr>"
    using assms False by (auto simp: getline_def)
  show ?thesis unfolding o stands_def drop_line_def t using False by simp
qed

lemma drop_line_no_LF: "LF \<notin> set s \<Longrightarrow> drop_line s = []"
proof -
  assume "LF \<notin> set s"
  then have "dropWhile (\<lambda>c. c \<noteq> LF) s = []" unfolding dropWhile_eq_Nil_conv by blast
  then show ?thesis by (simp add: drop_line_def)
qed

lemma after_headers_no_LF: "LF \<notin> set s \<Longrightarrow> after_headers s = []"
  by (simp add: after_headers.simps)

lemma process_headers_bad: "\<not> is_good stream \<Longrightarrow> process_headers env stream str0 rq = (Inr (), rq, stream)"
  by (subst process_headers.simps) (simp add: getline_def)

lemma process_headers_split:
  assumes "process_headers env stream str0 rq = (Inr (), rq', st)" "getline stream str0 = (ok, str, st1)" "ok \<and> str \<noteq> []"
  obtains again rq1 where "process_header_string env str rq = (Inr again, rq1)"
    "if again then process_headers env st1 str rq1 = (Inr (), rq', st) else st = st1"
proof -
  obtain r rq1 where h: "process_header_string env str rq = (r, rq1)" by fastforce
  have "process_headers env stream str0 rq = (case r of Inl e \<Rightarrow> (Inl e, rq1, st1)
      | Inr again \<Rightarrow> if again then process_headers env st1 str rq1 else (Inr (), rq1, st1))"
    by (subst process_headers.simps) (simp add: assms h)
  then show ?thesis using assms(1) h that by (cases r) (auto split: if_splits)
qed

lemma process_headers_stop:
  "getline stream str0 = (ok, str, st1) \<Longrightarrow> \<not> (ok \<and> str \<noteq> []) \<Longrightarrow> process_headers env stream str0 rq = (Inr (), rq, st1)"
  by (subst process_headers.simps) auto

lemma process_headers_stands:
  "process_headers env stream str0 rq = (Inr (), rq', st) \<Longrightarrow> is_good stream \<Longrightarrow> stands (after_headers (is_rest stream)) st"
proof (induction "length (is_rest stream)" arbitrary: stream str0 rq rule: less_induct)
  case less
  obtain ok str st1 where g: "getline stream str0 = (ok, str, st1)" by (metis prod_cases3)
  note gs = getline_stands [OF g less.prems(2)]
  show ?case
  proof (cases "ok \<and> str \<noteq> []")
    case False
    then have st: "st = st1" using less.prems(1) process_headers_stop [OF g False] by simp
    show ?thesis
    proof (cases "LF \<in> set (is_rest stream)")
      case True
      then have "is_rest stream \<noteq> []" by auto
      then have "str = []" "takeWhile (\<lambda>c. c \<noteq> LF) (is_rest stream) = str" using gs False by blast+
      then have "after_headers (is_rest stream) = drop_line (is_rest stream)"
        using True by (subst after_headers.simps) simp
      then show ?thesis using gs st by simp
    next
      case False
      then show ?thesis using gs st by (simp add: after_headers_no_LF drop_line_no_LF)
    qed
  next
    case True
    obtain again rq1 where h: "process_header_string env str rq = (Inr again, rq1)"
      and p: "if again then process_headers env st1 str rq1 = (Inr (), rq', st) else st = st1"
      by (rule process_headers_split [OF less.prems(1) g True])
    show ?thesis
    proof (cases "LF \<in> set (is_rest stream)")
      case LF: True
      then have a: "after_headers (is_rest stream) = (if again then after_headers (drop_line (is_rest stream)) else drop_line (is_rest stream))"
        using header_again [OF h] gs True by (subst after_headers.simps) simp
      have st1: "is_rest st1 = drop_line (is_rest stream)" "is_good st1" using gs LF by (simp_all add: stands_def)
      have "length (is_rest st1) < length (is_rest stream)"
        unfolding st1(1) by (rule drop_line_shrinks) (use LF in auto)
      then show ?thesis using less.hyps [of st1 str rq1] p a st1 gs by (cases again) simp_all
    next
      case False
      have b: "\<not> is_good st1" using gs False by blast
      then have "st = st1" using p process_headers_bad [OF b] by (cases again) simp_all
      then show ?thesis using gs False by (simp add: after_headers_no_LF drop_line_no_LF)
    qed
  qed
qed


lemma process_body_stands:
  assumes r: "process_body env stream rq = (Inr left, rq', stream')" and s: "stands body stream"
    and b: "rq_body rq = []" "rq_body_bytes_read rq = 0"
  shows "let n = unat (rq_content_length rq') in
     rq_body rq' = take n body @ replicate (n - length body) (CHR 0x00) \<and> unat left = n - length body \<and>
     unat (rq_body_bytes_read rq') = min n (length body) \<and> stands (drop n body) stream'"
proof (cases "rq_content_length rq = 0")
  case True
  then show ?thesis using r b s by (auto simp: process_body_def)
next
  case False
  let ?cl = "rq_content_length rq"
  let ?rq = "rq\<lparr>rq_body := resize (unat ?cl) (rq_body rq)\<rparr>"
  have a: "process_stream_again stream ?rq = (left, rq', stream')"
    using r False by (auto simp: process_body_def Let_def split: if_splits option.splits prod.splits)
  have inv: "body_inv [] ?rq" using b by (simp add: body_inv_def resize_def)
  show ?thesis
  proof (cases "is_good stream")
    case True
    note st = process_stream_again_step [OF inv True a, simplified]
    have "is_good stream'" using a True by (auto simp: process_stream_again_def Let_def readsome_def split: if_splits)
    moreover have "unat (word_of_nat (min (length body) (unat ?cl)) :: 64 word) = min (unat ?cl) (length body)"
      using unat_of_nat_le [of "min (length body) (unat ?cl)" ?cl] by (simp add: min.commute)
    moreover have "unat ?cl - min (length body) (unat ?cl) = unat ?cl - length body" by simp
    ultimately show ?thesis using st s by (simp add: body_inv_def stands_def Let_def)
  next
    case bad: False
    then have "body = []" using s by (auto simp: stands_def)
    then show ?thesis using process_stream_again_bad [OF bad inv a] s b
      by (simp add: stands_def resize_def)
  qed
qed

text \<open>
  C24: A request that \<open>process_stream\<close> accepts has version 1.1 and a path; one that announces
  a body is a POST. Its body is what follows the first line and the headers, as many bytes of it as are
  announced; where the stream held fewer, the rest is zeros and the number returned is how many
  are missing. The bytes behind the body, and no others, stay in the stream.
\<close>
theorem process_stream_accepts:
  assumes "process_stream env stream rq0 = (Inr left, rq, stream')"
  shows "rq_version rq = V_1_1 \<and> rq_path rq \<noteq> [] \<and> (rq_content_length rq \<noteq> 0 \<longrightarrow> rq_method rq = POST) \<and>
    (let n = unat (rq_content_length rq); body = after_headers (drop_line (is_rest stream)) in
       rq_body rq = take n body @ replicate (n - length body) (CHR 0x00) \<and> unat left = n - length body \<and>
       unat (rq_body_bytes_read rq) = min n (length body) \<and> is_rest stream' = drop n body)"
proof -
  obtain ok str st where g: "getline stream [] = (ok, str, st)" by (metis prod_cases3)
  obtain rq1 where s: "process_start_string str (reset rq0) = (Inr (), rq1)"
    using assms g by (auto simp: process_stream_def Let_def split: prod.splits sum.splits)
  obtain rq2 st2 where h: "process_headers env st str rq1 = (Inr (), rq2, st2)"
    using assms g s by (auto simp: process_stream_def Let_def split: prod.splits sum.splits)
  obtain rq3 where u: "process_uri rq2 = (Inr (), rq3)"
    using assms g s h by (auto simp: process_stream_def Let_def split: prod.splits sum.splits)
  have b: "process_body env st2 rq3 = (Inr left, rq, stream')"
    using assms g s h u by (simp add: process_stream_def)
  have v: "rq_version rq1 = V_1_1" "rq_body rq1 = []" "rq_body_bytes_read rq1 = 0"
    using s by (auto simp: process_start_scan Let_def reset_def base_reset_def split: option.splits if_splits)
  have "str \<noteq> []" using s by (auto simp: process_start_scan scan_start_def Let_def split: option.splits if_splits)
  then have good: "is_good stream" using g by (auto simp: getline_def split: if_splits)
  note gs = getline_stands [OF g good]
  have st2: "stands (after_headers (drop_line (is_rest stream))) st2"
  proof (cases "is_good st")
    case True
    from process_headers_stands [OF h this] gs show ?thesis by (simp add: stands_def)
  next
    case False
    then show ?thesis using gs h process_headers_bad [OF False, of env str rq1]
      by (auto simp: stands_def drop_line_no_LF after_headers_no_LF)
  qed
  note fr = process_headers_same_start [OF h, unfolded same_start_def]
  note ur = process_uri_frame [OF u]
  have c: "rq_body rq3 = []" "rq_body_bytes_read rq3 = 0" "rq_version rq3 = V_1_1"
    using v fr ur by simp_all
  show ?thesis using process_body_accepts [OF b c(1,2)] process_uri_path [OF u] c(3) process_body_stands [OF b st2 c(1,2)]
    by (auto simp: Let_def stands_def)
qed

text \<open>
  Parsing fails only with the errors of the request grammar, or with what the allocation
  of the body throws. In particular \<open>unimplemented_method\<close>, \<open>header_required\<close> and
  \<open>incorrect_host_header\<close> never leave the parser, so the session never answers 501.
\<close>
theorem process_stream_errors:
  assumes "process_stream env stream rq0 = (Inl e, rq, stream')"
  shows "is_parse_error e \<or> (\<exists>n. resize_error env n = Some e)"
proof -
  obtain ok str st where g: "getline stream [] = (ok, str, st)" by (metis prod_cases3)
  show ?thesis using assms g
    by (auto simp: process_stream_def Let_def split: prod.splits sum.splits
        dest: process_start_error process_headers_error process_uri_error process_body_error)
qed

text \<open>
  C25: Nothing of the previous request on the connection survives in the next one, except
  the address of the client.
\<close>
theorem process_stream_isolated:
  "process_stream env stream rq0 = process_stream env stream (new_request (rq_client_address rq0))"
proof -
  have "reset rq0 = reset (new_request (rq_client_address rq0))"
    by (rule request.equality) (simp_all add: reset_def base_reset_def new_request_def)
  then show ?thesis by (simp only: process_stream_def)
qed

text \<open>
  C26: When an accepted request still misses part of its body, the session feeds it the chunks
  that arrive. Whatever their sizes, the body becomes the announced number of bytes of their
  concatenation, and 0 is returned exactly when nothing is missing.
\<close>
theorem feed_completes:
  assumes "body_inv got rq" "feed rq chunks = (left, rq')"
  shows "(left = 0 \<longleftrightarrow> unat (rq_content_length rq) \<le> length got + length (concat chunks)) \<and>
    (left = 0 \<longrightarrow> rq_body rq' = take (unat (rq_content_length rq)) (got @ concat chunks))"
proof -
  note s = feed_step [OF assms]
  have "left = 0 \<longleftrightarrow> unat (rq_content_length rq) \<le> length got + length (concat chunks)"
    using s by (metis diff_is_0_eq unat_0 unat_eq_zero)
  then show ?thesis using s by (auto simp: body_inv_def)
qed

section \<open>Witnesses\<close>

text \<open>An environment in which the library reads decimal numbers below the range of the type.\<close>

definition decimal_env :: req_env where
  "decimal_env = \<lparr>lexical_size = (\<lambda>s. if s \<noteq> [] \<and> list_all is_digit s \<and> dec_val s < 2 ^ 64
       then Some (of_nat (dec_val s)) else None),
     lexical_port = (\<lambda>s. if s \<noteq> [] \<and> list_all is_digit s \<and> dec_val s < 2 ^ 16
       then Some (of_nat (dec_val s)) else None),
     resize_error = (\<lambda>n. None)\<rparr>"

lemma decimal_env_size: "n < 2 ^ 64 \<Longrightarrow> lexical_size decimal_env (to_string n) = Some (of_nat n)"
  using to_string_digits [of _ n] by (simp add: decimal_env_def list_all_iff)

lemma request_roundtrip_witness:
  "\<exists>rq. process_stream decimal_env \<lparr>is_rest = print_request POST ''/login?next=a''
      ([(''Accept'', ''text/html'')] @ [(header_content_length, to_string (length ''id=1''))]) (''id=1'' @ ''GET''),
      is_good = True\<rparr> (new_request ''10.0.0.1'') = (Inr 0, rq, \<lparr>is_rest = ''GET'', is_good = True\<rparr>) \<and>
    rq_body rq = ''id=1'' \<and> rq_path rq = ''/login''"
proof -
  have l: "request_line_ok POST ''/login?next=a''" by (simp add: request_line_ok_def is_space_def)
  have h: "list_all header_ok [(''Accept'', ''text/html'')]"
    by (simp add: header_ok_def is_space_def not_newline_def)
  have u: "list_all (\<lambda>(k, v). \<not> handled_header k) [(''Accept'', ''text/html'' :: string)]"
    by (simp add: handled_header_def header_name_defs)
  have s: "lexical_size decimal_env (to_string (length ''id=1'')) = Some (of_nat (length ''id=1''))"
    by (rule decimal_env_size) simp
  have a: "resize_error decimal_env (of_nat (length ''id=1'')) = None" by (simp add: decimal_env_def)
  show ?thesis
    using request_roundtrip [OF l h u s _ a, of "''GET''" "new_request ''10.0.0.1''"]
    by (simp add: fold_apply_arg)
qed

definition sample_request :: request where
  "sample_request = (new_request [])\<lparr>rq_method := POST, rq_content_length := 4, rq_body := resize 4 []\<rparr>"

lemma feed_completes_witness:
  "\<exists>rq'. feed sample_request [''id'', ''=1x''] = (0, rq') \<and> rq_body rq' = ''id=1''"
proof -
  have i: "body_inv [] sample_request"
    by (simp add: body_inv_def sample_request_def resize_def new_request_def)
  obtain left rq' where f: "feed sample_request [''id'', ''=1x''] = (left, rq')" by fastforce
  have c: "unat (rq_content_length sample_request) = 4" by (simp add: sample_request_def)
  show ?thesis using feed_completes [OF i f, unfolded c] f by (auto simp del: feed.simps)
qed

lemma process_stream_errors_witness:
  "\<exists>e rq stream. process_stream decimal_env \<lparr>is_rest = ''GET'', is_good = True\<rparr> (new_request []) = (Inl e, rq, stream) \<and>
     (is_parse_error e \<or> (\<exists>n. resize_error decimal_env n = Some e))"
proof -
  have "scan_start ''GET'' = None"
    by (simp add: scan_start_def is_name_def char_class_defs)
  then have p: "process_stream decimal_env \<lparr>is_rest = ''GET'', is_good = True\<rparr> (new_request []) =
      (Inl (Http (Incorrect_start_string ''GET'')), reset (new_request []), \<lparr>is_rest = [], is_good = False\<rparr>)"
    by (simp add: process_stream_def getline_def process_start_scan)
  from process_stream_errors [OF p] p show ?thesis by blast
qed

lemma process_stream_accepts_witness:
  "\<exists>rq. process_stream decimal_env \<lparr>is_rest = print_request GET ''/'' [] [], is_good = True\<rparr> (new_request []) =
      (Inr 0, rq, \<lparr>is_rest = [], is_good = True\<rparr>) \<and> rq_version rq = V_1_1 \<and> rq_path rq \<noteq> []"
proof -
  have l: "request_line_ok GET ''/''" by (simp add: request_line_ok_def is_space_def)
  have "process_stream decimal_env \<lparr>is_rest = print_request GET ''/'' [] [], is_good = True\<rparr> (new_request []) =
      process_body decimal_env \<lparr>is_rest = [], is_good = True\<rparr>
       ((reset (new_request []))\<lparr>rq_method := GET, rq_version := V_1_1, rq_uri := ''/'', rq_path := ''/''\<rparr>)"
    using process_stream_printed [OF l, of "[]" decimal_env "new_request []"
      "(reset (new_request []))\<lparr>rq_method := GET, rq_version := V_1_1, rq_uri := ''/''\<rparr>" "[]"] by simp
  then have "\<exists>rq. process_stream decimal_env \<lparr>is_rest = print_request GET ''/'' [] [], is_good = True\<rparr> (new_request []) =
      (Inr 0, rq, \<lparr>is_rest = [], is_good = True\<rparr>)"
    by (simp add: process_body_def reset_def)
  then show ?thesis using process_stream_accepts by blast
qed

end
