(* ===== verification/Http_Response.thy ===== *)
theory Http_Response
  imports Http_Request
begin

text \<open>
  \<open>base/buffer\<close>, \<open>base/strings_cache\<close>, \<open>server/protocol/response\<close> and
  \<open>server/protocol/http/response\<close>: a response is a list of buffers, and a buffer is a
  pointer with a size, so the model keeps what each buffer points to. What the client
  receives is what the pointers hold when the response is sent.
\<close>

section \<open>Buffers\<close>

text \<open>
  What a \<open>boost::asio::const_buffer\<close> points into: the header string of the response, a string
  of the strings cache of the response, data that outlives the response (a mapped file, a page
  variable, a literal), or a temporary that is already destroyed.
\<close>

datatype location = Headers_loc | Cached nat | Outer string | Dangling

record buffer =
  buf_loc :: location
  buf_size :: nat

record response =
  buffers :: "buffer list"
  headers :: string
  strings :: "string list"

definition deref :: "response \<Rightarrow> buffer \<Rightarrow> string option" where
  "deref r b = (case buf_loc b of
     Headers_loc \<Rightarrow> if buf_size b = length (headers r) then Some (headers r) else None
   | Cached i \<Rightarrow> if i < length (strings r) \<and> buf_size b = length (strings r ! i)
                 then Some (strings r ! i) else None
   | Outer s \<Rightarrow> if buf_size b = length s then Some s else None
   | Dangling \<Rightarrow> None)"

text \<open>The bytes \<open>async_write\<close> sends; \<open>None\<close> if a buffer points to nothing.\<close>

definition join_opt :: "string option \<Rightarrow> string option \<Rightarrow> string option" where
  "join_opt a b = (case a of None \<Rightarrow> None | Some x \<Rightarrow> map_option (\<lambda>y. x @ y) b)"

definition wire_of :: "response \<Rightarrow> buffer list \<Rightarrow> string option" where
  "wire_of r bs = foldr (\<lambda>b. join_opt (deref r b)) bs (Some [])"

definition wire :: "response \<Rightarrow> string option" where
  "wire r = wire_of r (buffers r)"

text \<open>\<open>base::buffer(s)\<close> of a string that lives outside the response.\<close>

definition outer_buffer :: "string \<Rightarrow> buffer" where
  "outer_buffer s = \<lparr>buf_loc = Outer s, buf_size = length s\<rparr>"

text \<open>\<open>base::buffer(cache(s))\<close>: \<open>strings_cache::cache\<close> appends a copy to the deque.\<close>

definition cache :: "string \<Rightarrow> response \<Rightarrow> nat \<times> response" where
  "cache s r = (length (strings r), r\<lparr>strings := strings r @ [s]\<rparr>)"

definition cached_buffer :: "response \<Rightarrow> nat \<Rightarrow> buffer" where
  "cached_buffer r i = \<lparr>buf_loc = Cached i, buf_size = length (strings r ! i)\<rparr>"

text \<open>\<open>send_buffers_insert_functor\<close>: the buffer goes to the end, its size is returned.\<close>

definition send_buffers_insert :: "buffer \<Rightarrow> buffer list \<Rightarrow> nat \<times> buffer list" where
  "send_buffers_insert b bs = (buf_size b, bs @ [b])"

section \<open>\<open>http::response\<close>\<close>

definition prepare_update_headers_buffer :: "response \<Rightarrow> response" where
  "prepare_update_headers_buffer r = r\<lparr>headers := take (length (headers r) - 2) (headers r)\<rparr>"

definition update_headers_buffer :: "response \<Rightarrow> response" where
  "update_headers_buffer r =
     (let r = r\<lparr>headers := headers r @ str_newline\<rparr> in
      r\<lparr>buffers := (buffers r)[0 := \<lparr>buf_loc = Headers_loc, buf_size = length (headers r)\<rparr>]\<rparr>)"

text \<open>The constructor: one default buffer (a null pointer), then the status line.\<close>

definition mk_response :: "status \<Rightarrow> http_version \<Rightarrow> response" where
  "mk_response st version =
     (let r = \<lparr>buffers = [\<lparr>buf_loc = Outer [], buf_size = 0\<rparr>], headers = [], strings = []\<rparr>;
          r = r\<lparr>headers := headers r @ str_HTTP\<rparr>;
          r = r\<lparr>headers := headers r @ str_slash\<rparr>;
          r = r\<lparr>headers := headers r @ version_to_str version\<rparr>;
          r = r\<lparr>headers := headers r @ start_string st\<rparr>
      in update_headers_buffer r)"

definition add_header :: "string \<Rightarrow> string \<Rightarrow> response \<Rightarrow> response" where
  "add_header name value r =
     (let r = prepare_update_headers_buffer r;
          r = r\<lparr>headers := headers r @ name\<rparr>;
          r = r\<lparr>headers := headers r @ str_header_separator\<rparr>;
          r = r\<lparr>headers := headers r @ value\<rparr>;
          r = r\<lparr>headers := headers r @ str_newline\<rparr>
      in update_headers_buffer r)"

definition add_body :: "buffer \<Rightarrow> response \<Rightarrow> response" where
  "add_body b r = r\<lparr>buffers := buffers r @ [b]\<rparr>"

definition reset_cookie :: "string \<Rightarrow> response \<Rightarrow> response" where
  "reset_cookie name =
     add_header header_set_cookie (name @ ''=; expires=Thu, 01 Jan 1970 00:00:01 GMT;'')"

definition add_cached_body :: "string \<Rightarrow> response \<Rightarrow> response" where
  "add_cached_body s r = (let (i, r) = cache s r in add_body (cached_buffer r i) r)"

section \<open>What the client receives\<close>

definition status_line :: "status \<Rightarrow> http_version \<Rightarrow> string" where
  "status_line st version = ''HTTP/'' @ version_to_str version @ start_string st"

definition header_text :: "string \<times> string \<Rightarrow> string" where
  "header_text = (\<lambda>(k, v). k @ '': '' @ v @ [CR, LF])"

text \<open>A response is well formed over a status line, its headers and its body.\<close>

definition render :: "string \<Rightarrow> (string \<times> string) list \<Rightarrow> string \<Rightarrow> string" where
  "render line hs body = line @ concat (map header_text hs) @ [CR, LF] @ body"

text \<open>
  The representation: the header string is the rendered head, the first buffer is the whole of
  it, and the other buffers point to data whose concatenation is the body.
\<close>

definition repr :: "string \<Rightarrow> (string \<times> string) list \<Rightarrow> string \<Rightarrow> response \<Rightarrow> bool" where
  "repr line hs body r \<longleftrightarrow> headers r = render line hs [] \<and>
     (\<exists>bs. buffers r = \<lparr>buf_loc = Headers_loc, buf_size = length (headers r)\<rparr> # bs \<and>
        (\<forall>b\<in>set bs. buf_loc b \<noteq> Headers_loc) \<and> wire_of r bs = Some body)"

lemma wire_of_simps [simp]:
  "wire_of r [] = Some []"
  "wire_of r (b # bs) = join_opt (deref r b) (wire_of r bs)"
  by (simp_all add: wire_of_def)

lemma join_opt_simps [simp]:
  "join_opt (Some x) (Some y) = Some (x @ y)" "join_opt None b = None" "join_opt a None = None"
  by (simp_all add: join_opt_def split: option.split)

lemma join_opt_eq_Some: "join_opt a b = Some z \<longleftrightarrow> (\<exists>x y. a = Some x \<and> b = Some y \<and> z = x @ y)"
  by (auto simp: join_opt_def split: option.splits)

lemma wire_of_append: "wire_of r (bs @ cs) = join_opt (wire_of r bs) (wire_of r cs)"
proof (induction bs)
  case (Cons b bs)
  then show ?case by (cases "deref r b"; cases "wire_of r bs"; cases "wire_of r cs") simp_all
qed (cases "wire_of r cs", simp_all)

lemma repr_wire: "repr line hs body r \<Longrightarrow> wire r = Some (render line hs body)"
  by (auto simp: repr_def wire_def deref_def render_def)

lemma wire_of_cong:
  "(\<And>b. b \<in> set bs \<Longrightarrow> deref r b = deref r' b) \<Longrightarrow> wire_of r bs = wire_of r' bs"
  by (induction bs) simp_all

lemma repr_mk [inv_intros]: "repr (status_line st v) [] [] (mk_response st v)"
  by (simp add: repr_def mk_response_def update_headers_buffer_def Let_def status_line_def render_def str_defs)

lemma repr_add_header [inv_intros]:
  assumes "repr line hs body r"
  shows "repr line (hs @ [(k, v)]) body (add_header k v r)"
proof -
  obtain bs where bs: "buffers r = \<lparr>buf_loc = Headers_loc, buf_size = length (headers r)\<rparr> # bs"
    "\<forall>b\<in>set bs. buf_loc b \<noteq> Headers_loc" "wire_of r bs = Some body"
    and h: "headers r = render line hs []" using assms by (auto simp: repr_def)
  let ?r = "add_header k v r"
  have "headers ?r = render line (hs @ [(k, v)]) []"
    by (simp add: add_header_def prepare_update_headers_buffer_def update_headers_buffer_def Let_def
        h render_def header_text_def str_defs)
  moreover have "buffers ?r = \<lparr>buf_loc = Headers_loc, buf_size = length (headers ?r)\<rparr> # bs"
    by (simp add: add_header_def prepare_update_headers_buffer_def update_headers_buffer_def Let_def bs)
  moreover have "wire_of ?r bs = wire_of r bs"
    by (rule wire_of_cong) (use bs(2) in \<open>auto simp: deref_def add_header_def
        prepare_update_headers_buffer_def update_headers_buffer_def Let_def split: location.splits\<close>)
  ultimately show ?thesis using bs by (simp add: repr_def)
qed

lemma repr_reset_cookie [inv_intros]:
  "repr line hs body r \<Longrightarrow> repr line
     (hs @ [(header_set_cookie, name @ ''=; expires=Thu, 01 Jan 1970 00:00:01 GMT;'')]) body (reset_cookie name r)"
  unfolding reset_cookie_def by (rule repr_add_header)

lemma deref_cache:
  "deref r b = Some s \<Longrightarrow> deref (r\<lparr>strings := strings r @ xs\<rparr>) b = Some s"
  by (auto simp: deref_def nth_append split: location.splits if_splits)

lemma wire_of_cache:
  "wire_of r bs = Some s \<Longrightarrow> wire_of (r\<lparr>strings := strings r @ xs\<rparr>) bs = Some s"
  by (induction bs arbitrary: s) (auto simp: join_opt_eq_Some dest: deref_cache)

lemma repr_cache: "repr line hs body r \<Longrightarrow> repr line hs body (snd (cache s r))"
  by (auto simp: repr_def cache_def dest: wire_of_cache)

lemma wire_of_buffers [simp]: "wire_of (r\<lparr>buffers := bs'\<rparr>) bs = wire_of r bs"
  by (rule wire_of_cong) (simp add: deref_def split: location.splits)

lemma deref_buffers [simp]: "deref (r\<lparr>buffers := bs'\<rparr>) b = deref r b"
  by (simp add: deref_def split: location.splits)

lemma repr_add_body [inv_intros]:
  "repr line hs body r \<Longrightarrow> deref r b = Some s \<Longrightarrow> buf_loc b \<noteq> Headers_loc \<Longrightarrow>
   repr line hs (body @ s) (add_body b r)"
  by (auto simp: repr_def add_body_def wire_of_append)

lemma repr_add_outer [inv_intros]:
  "repr line hs body r \<Longrightarrow> repr line hs (body @ s) (add_body (outer_buffer s) r)"
  by (rule repr_add_body) (simp_all add: outer_buffer_def deref_def)

lemma repr_add_cached [inv_intros]:
  "repr line hs body r \<Longrightarrow> repr line hs (body @ s) (add_cached_body s r)"
proof -
  assume "repr line hs body r"
  then have "repr line hs body (snd (cache s r))" by (rule repr_cache)
  then have "repr line hs (body @ s) (add_body (cached_buffer (snd (cache s r)) (fst (cache s r))) (snd (cache s r)))"
    by (rule repr_add_body) (simp_all add: cache_def cached_buffer_def deref_def)
  then show ?thesis by (simp add: add_cached_body_def cache_def split_beta)
qed

text \<open>A program over a response: the operations in the order a handler calls them.\<close>

datatype resp_op = Add_header string string | Reset_cookie string | Add_cached string | Add_outer string

fun apply_op :: "resp_op \<Rightarrow> response \<Rightarrow> response" where
  "apply_op (Add_header k v) r = add_header k v r"
| "apply_op (Reset_cookie k) r = reset_cookie k r"
| "apply_op (Add_cached s) r = add_cached_body s r"
| "apply_op (Add_outer s) r = add_body (outer_buffer s) r"

fun op_headers :: "resp_op \<Rightarrow> (string \<times> string) list" where
  "op_headers (Add_header k v) = [(k, v)]"
| "op_headers (Reset_cookie k) = [(''Set-Cookie'', k @ ''=; expires=Thu, 01 Jan 1970 00:00:01 GMT;'')]"
| "op_headers _ = []"

fun op_body :: "resp_op \<Rightarrow> string" where
  "op_body (Add_cached s) = s"
| "op_body (Add_outer s) = s"
| "op_body _ = []"

lemma repr_apply_op:
  "repr line hs body r \<Longrightarrow> repr line (hs @ op_headers op) (body @ op_body op) (apply_op op r)"
  by (cases op) (use repr_add_header repr_reset_cookie repr_add_cached repr_add_outer in
      \<open>auto simp: header_set_cookie_def [symmetric]\<close>)

lemma repr_apply_ops:
  "repr line hs body r \<Longrightarrow> repr line (hs @ concat (map op_headers ops)) (body @ concat (map op_body ops))
     (fold apply_op ops r)"
proof (induction ops arbitrary: hs body r)
  case (Cons op ops)
  from Cons.IH [OF repr_apply_op [OF Cons.prems, of op]] show ?case by simp
qed simp

text \<open>
  Headers and parts of the body may be added in any order: what is sent is always the
  status line, all headers in the order they were added, the empty line, and the parts of the
  body in their order; no buffer is ever stale.
\<close>
theorem response_wire:
  "wire (fold apply_op ops (mk_response st version)) =
     Some (render (status_line st version) (concat (map op_headers ops)) (concat (map op_body ops)))"
  using repr_wire [OF repr_apply_ops [OF repr_mk, of st version ops]] by simp

end
