(* ===== verification/Base_Utils.thy ===== *)
theory Base_Utils
  imports Errors
begin

text \<open>
  \<open>base/module\<close>, \<open>base/file_cache\<close>, \<open>base/mapped_file\<close> and \<open>base/json_utils\<close>: the generic
  parts the rest of the program is built on. The JSON library and the file system are
  parameters; the contract of the cache with its generator is the locale \<open>cached_source\<close>.
\<close>

section \<open>\<open>module_registrar\<close> and \<open>module\<close>\<close>

type_synonym ('i, 'm) registrar = "('i \<times> 'm) list"

definition reg_add :: "'i \<Rightarrow> 'm \<Rightarrow> ('i, 'm) registrar \<Rightarrow> bool \<times> ('i, 'm) registrar" where
  "reg_add i m r = (if map_of r i = None then (True, r @ [(i, m)]) else (False, r))"

definition reg_erase :: "'i \<Rightarrow> ('i, 'm) registrar \<Rightarrow> ('i, 'm) registrar" where
  "reg_erase i r = filter (\<lambda>(j, m). j \<noteq> i) r"

definition reg_module :: "('i, 'm) registrar \<Rightarrow> 'i \<Rightarrow> exn + 'm" where
  "reg_module r i = (case map_of r i of None \<Rightarrow> Inl (Out_of_range ''at'') | Some m \<Rightarrow> Inr m)"

text \<open>The constructor of \<open>module<..., std::true_type>\<close>, and of the variant that ignores failures.\<close>

definition mk_module :: "'i \<Rightarrow> 'm \<Rightarrow> ('i, 'm) registrar \<Rightarrow> (exn + unit) \<times> ('i, 'm) registrar" where
  "mk_module i m r = (let (added, r) = reg_add i m r in
     (if \<not> added then Inl (Std_logic ''Module not added'') else Inr (), r))"

definition mk_module_quiet :: "'i \<Rightarrow> 'm \<Rightarrow> ('i, 'm) registrar \<Rightarrow> ('i, 'm) registrar" where
  "mk_module_quiet i m r = snd (reg_add i m r)"

lemma reg_add_lookup:
  "snd (reg_add i m r) = r' \<Longrightarrow> map_of r' j =
     (if j = i \<and> map_of r i = None then Some m else map_of r j)"
  by (auto simp: reg_add_def map_add_def split: option.splits if_splits)

lemma reg_add_distinct: "distinct (map fst r) \<Longrightarrow> distinct (map fst (snd (reg_add i m r)))"
  by (auto simp: reg_add_def map_of_eq_None_iff)

lemma reg_erase_lookup: "map_of (reg_erase i r) j = (if j = i then None else map_of r j)"
  by (induction r) (auto simp: reg_erase_def)

section \<open>\<open>file_cache\<close>\<close>

text \<open>
  \<open>at\<close> asks the generator for a path it has not seen. The generator may throw (then nothing is
  cached) and may have effects of its own.
\<close>

type_synonym 'a file_cache = "(string \<times> 'a) list"
type_synonym ('w, 'a) generator = "string \<Rightarrow> 'w \<Rightarrow> (exn + 'a) \<times> 'w"

definition cache_at :: "('w, 'a) generator \<Rightarrow> string \<Rightarrow> 'a file_cache \<Rightarrow> 'w \<Rightarrow> (exn + 'a) \<times> 'a file_cache \<times> 'w" where
  "cache_at gen path c w = (case map_of c path of
     Some v \<Rightarrow> (Inr v, c, w)
   | None \<Rightarrow> (case gen path w of
       (Inl e, w) \<Rightarrow> (Inl e, c, w)
     | (Inr v, w) \<Rightarrow> (Inr v, (path, v) # c, w)))"

definition cache_erase :: "string \<Rightarrow> 'a file_cache \<Rightarrow> 'a file_cache" where
  "cache_erase path c = filter (\<lambda>(p, v). p \<noteq> path) c"

definition cache_clear :: "'a file_cache \<Rightarrow> 'a file_cache" where
  "cache_clear c = []"

definition cache_size :: "'a file_cache \<Rightarrow> nat" where
  "cache_size c = length c"

definition cache_empty :: "'a file_cache \<Rightarrow> bool" where
  "cache_empty c = (c = [])"

text \<open>
  The contract between a cache and what it stands for: \<open>source\<close> is the value of a path as long
  as nothing changes, and a cache is faithful if what it holds is that value.
\<close>

locale cached_source =
  fixes source :: "string \<Rightarrow> exn + 'a"
    and at :: "string \<Rightarrow> 'a file_cache \<Rightarrow> (exn + 'a) \<times> 'a file_cache"
    and faithful :: "'a file_cache \<Rightarrow> bool"
  assumes at_result: "faithful c \<Longrightarrow> fst (at p c) = source p"
    and at_keeps: "faithful c \<Longrightarrow> faithful (snd (at p c))"
    and at_hit: "faithful c \<Longrightarrow> fst (at p c) = Inr v \<Longrightarrow> map_of (snd (at p c)) p = Some v"
begin

fun at_all :: "string list \<Rightarrow> 'a file_cache \<Rightarrow> (exn + 'a) list \<times> 'a file_cache" where
  "at_all [] c = ([], c)"
| "at_all (p # ps) c = (let (r, c) = at p c; (rs, c) = at_all ps c in (r # rs, c))"

lemma at_all_transparent: "faithful c \<Longrightarrow> fst (at_all ps c) = map source ps"
proof (induction ps arbitrary: c)
  case (Cons p ps)
  then show ?case using at_result [OF Cons.prems, of p] at_keeps [OF Cons.prems, of p]
    by (simp add: split_beta)
qed simp

end

definition pure_at :: "(string \<Rightarrow> exn + 'a) \<Rightarrow> string \<Rightarrow> 'a file_cache \<Rightarrow> (exn + 'a) \<times> 'a file_cache" where
  "pure_at source p c = (case cache_at (\<lambda>q u. (source q, u)) p c () of (r, c', _) \<Rightarrow> (r, c'))"

definition cache_faithful :: "(string \<Rightarrow> exn + 'a) \<Rightarrow> 'a file_cache \<Rightarrow> bool" where
  "cache_faithful source c \<longleftrightarrow> (\<forall>(p, v) \<in> set c. source p = Inr v) \<and> distinct (map fst c)"

lemma pure_at_hit: "map_of c p = Some v \<Longrightarrow> pure_at source p c = (Inr v, c)"
  by (simp add: pure_at_def cache_at_def)

lemma pure_at_miss: "map_of c p = None \<Longrightarrow> pure_at source p c =
    (case source p of Inl e \<Rightarrow> (Inl e, c) | Inr v \<Rightarrow> (Inr v, (p, v) # c))"
  by (auto simp: pure_at_def cache_at_def split: sum.splits)

lemma cache_faithful_lookup: "cache_faithful source c \<Longrightarrow> map_of c p = Some v \<Longrightarrow> source p = Inr v"
  by (auto simp: cache_faithful_def dest: map_of_SomeD)

lemma pure_at_correct:
  assumes "cache_faithful source c"
  shows "fst (pure_at source p c) = source p" "cache_faithful source (snd (pure_at source p c))"
    "fst (pure_at source p c) = Inr v \<Longrightarrow> map_of (snd (pure_at source p c)) p = Some v"
proof -
  show "fst (pure_at source p c) = source p"
    using assms by (cases "map_of c p")
      (auto simp: pure_at_hit pure_at_miss cache_faithful_lookup split: sum.split)
  show "cache_faithful source (snd (pure_at source p c))"
    using assms by (cases "map_of c p")
      (auto simp: pure_at_hit pure_at_miss cache_faithful_def map_of_eq_None_iff split: sum.split)
  show "fst (pure_at source p c) = Inr v \<Longrightarrow> map_of (snd (pure_at source p c)) p = Some v"
    by (cases "map_of c p") (auto simp: pure_at_hit pure_at_miss split: sum.splits)
qed

interpretation fc: cached_source source "pure_at source" "cache_faithful source" for source
  by unfold_locales (auto simp: pure_at_correct)

fun cache_at_all :: "(string \<Rightarrow> exn + 'a) \<Rightarrow> string list \<Rightarrow> 'a file_cache \<Rightarrow> (exn + 'a) list \<times> 'a file_cache" where
  "cache_at_all source [] c = ([], c)"
| "cache_at_all source (p # ps) c =
     (let (r, c) = pure_at source p c; (rs, c) = cache_at_all source ps c in (r # rs, c))"

lemma cache_at_all_eq: "cache_at_all source ps c = cached_source.at_all (pure_at source) ps c"
  by (induction ps arbitrary: c) (simp_all add: fc.at_all.simps split_beta)

text \<open>
  Until it is cleared, a cache is transparent: whatever paths are asked for, in any order
  and as often as they are, the answers are those of the generator, failures included.
\<close>
theorem file_cache_transparent:
  "fst (cache_at_all source ps (cache_clear c)) = map source ps"
  unfolding cache_at_all_eq cache_clear_def
  by (rule fc.at_all_transparent) (simp add: cache_faithful_def)

text \<open>
  The other side of it: without clearing, a value that changed at the source is not seen.
\<close>

lemma cache_at_stale: "map_of c p = Some v \<Longrightarrow> fst (pure_at changed p c) = Inr v"
  by (simp add: pure_at_hit)

section \<open>\<open>mapped_file\<close>\<close>

record file_system =
  fs_exists :: "string \<Rightarrow> exn + bool"
  fs_is_directory :: "string \<Rightarrow> exn + bool"
  fs_is_empty :: "string \<Rightarrow> exn + bool"
  fs_map_region :: "string \<Rightarrow> exn + string"     \<comment> \<open>\<open>file_mapping\<close> and \<open>mapped_region\<close>\<close>
  fs_canonical :: "string \<Rightarrow> string \<Rightarrow> exn + string"  \<comment> \<open>\<open>canonical(p, base)\<close>\<close>
  fs_append :: "string \<Rightarrow> string \<Rightarrow> string"       \<comment> \<open>\<open>operator /\<close>\<close>

text \<open>The path and the mapped bytes; an empty file is not mapped.\<close>

record mapped_file =
  mf_path :: string
  mf_data :: string

definition mk_mapped_file :: "file_system \<Rightarrow> string \<Rightarrow> exn + mapped_file" where
  "mk_mapped_file fs path =
     rbind (fs_exists fs path) (\<lambda>ex.
       if \<not> ex then Inl (Mapped (Mf_path_not_found path))
       else rbind (fs_is_directory fs path) (\<lambda>dir.
         if dir then Inl (Mapped (Mf_path_is_directory path))
         else rbind (fs_is_empty fs path) (\<lambda>em.
           if \<not> em then
             rbind (fs_map_region fs path) (\<lambda>d. Inr \<lparr>mf_path = path, mf_data = d\<rparr>)
           else Inr \<lparr>mf_path = path, mf_data = []\<rparr>)))"

definition mf_size :: "mapped_file \<Rightarrow> nat" where
  "mf_size f = length (mf_data f)"

text \<open>\<open>swap\<close> exchanges the mappings and leaves the paths where they are.\<close>

definition mf_swap :: "mapped_file \<Rightarrow> mapped_file \<Rightarrow> mapped_file \<times> mapped_file" where
  "mf_swap f g = (f\<lparr>mf_data := mf_data g\<rparr>, g\<lparr>mf_data := mf_data f\<rparr>)"

section \<open>\<open>json_utils\<close>\<close>

datatype jkey = Key string | Index nat

text \<open>Of \<open>nlohmann::json\<close>: \<open>json.at(key)\<close> with a key or an index.\<close>

type_synonym 'j json_at = "'j \<Rightarrow> jkey \<Rightarrow> exn + 'j"

text \<open>
  How \<open>"..." + key + '"'\<close> reads; with a number for a key the code does not compile, all its
  keys are strings.
\<close>

fun key_text :: "jkey \<Rightarrow> string" where
  "key_text (Key k) = k"
| "key_text (Index n) = to_string n"

fun json_path :: "'j json_at \<Rightarrow> 'j \<Rightarrow> jkey list \<Rightarrow> exn + 'j" where
  "json_path at_op json [] = Inr json"
| "json_path at_op json (key # keys) = (case at_op json key of
     Inl (Out_of_range _) \<Rightarrow> Inl (Out_of_range (''JSON key not found: '' @ quoted (key_text key)))
   | Inl e \<Rightarrow> Inl e
   | Inr sub_json \<Rightarrow> json_path at_op sub_json keys)"

text \<open>\<open>get<T>\<close>; \<open>conv\<close> is \<open>json.get<T>()\<close>.\<close>

definition json_get :: "'j json_at \<Rightarrow> ('j \<Rightarrow> exn + 'a) \<Rightarrow> 'j \<Rightarrow> jkey list \<Rightarrow> exn + 'a" where
  "json_get at_op conv json keys = rbind (json_path at_op json keys) conv"

text \<open>\<open>extract\<close>: the old value survives when a key is missing; other errors are thrown.\<close>

definition json_extract :: "'j json_at \<Rightarrow> ('j \<Rightarrow> exn + 'a) \<Rightarrow> 'j \<Rightarrow> 'a \<Rightarrow> jkey list \<Rightarrow> exn + (bool \<times> 'a)" where
  "json_extract at_op conv json val keys = (case json_get at_op conv json keys of
     Inl (Out_of_range _) \<Rightarrow> Inr (False, val)
   | Inl e \<Rightarrow> Inl e
   | Inr v \<Rightarrow> Inr (True, v))"

text \<open>
  \<open>get_variant\<close>: every alternative converts and calls its function, which may change the state;
  a \<open>std::logic_error\<close> of either moves on to the next alternative.
\<close>

fun json_get_variant :: "('j \<Rightarrow> 's \<Rightarrow> (exn + unit) \<times> 's) list \<Rightarrow> 'j \<Rightarrow> 's \<Rightarrow> (exn + bool) \<times> 's" where
  "json_get_variant [] json s = (Inr False, s)"
| "json_get_variant (f # fs) json s = (case f json s of
     (Inl e, s) \<Rightarrow> if is_std_logic_error e then json_get_variant fs json s else (Inl e, s)
   | (Inr _, s) \<Rightarrow> (Inr True, s))"

text \<open>\<open>json_from_file\<close>: \<open>open\<close> is the content of the stream, \<open>parse\<close> is \<open>json << stream\<close>.\<close>

definition json_from_file :: "(string \<Rightarrow> string option) \<Rightarrow> (string \<Rightarrow> exn + 'j) \<Rightarrow> string \<Rightarrow> exn + 'j" where
  "json_from_file open_file parse path = (case open_file path of
     None \<Rightarrow> Inl (Std_logic (''Can'' @ [CHR 0x27] @ ''t open json file: '' @ quoted path))
   | Some text \<Rightarrow> parse text)"

lemma json_path_append: "json_path at_op json (ks @ ks') = rbind (json_path at_op json ks) (\<lambda>j. json_path at_op j ks')"
  by (induction at_op json ks rule: json_path.induct) (auto split: sum.splits exn.splits)

lemma json_extract_not_out_of_range: "json_extract at_op conv json val keys = Inl e \<Longrightarrow> \<nexists>s. e = Out_of_range s"
  by (auto simp: json_extract_def split: sum.splits exn.splits)

end
