(* ===== verification/System_Utils.thy ===== *)
theory System_Utils
  imports Errors
begin

text \<open>
  \<open>system_/utils\<close> and \<open>system_/process\<close>: the MIME type of a file and a child process. What the
  operating system answers (\<open>popen\<close>, \<open>fgets\<close>, \<open>pclose\<close>, \<open>fork\<close>, \<open>kill\<close>) is a parameter.
\<close>

section \<open>\<open>get_file_mime\<close>\<close>

definition max_output_len :: nat where
  "max_output_len = 256"

definition mime_types_by_extensions :: "(string \<times> string) list" where
  "mime_types_by_extensions =
     [(''html'', ''text/html''), (''css'', ''text/css''), (''js'', ''text/javascript''), (''txt'', ''text/plain'')]"

text \<open>
  The external command: \<open>popen\<close> gives the text the command writes and its exit status, or
  nothing. \<open>fgets\<close> reads a line of at most \<open>max_output_len - 1\<close> characters.
\<close>

type_synonym shell = "string \<Rightarrow> (string \<times> int) option"

definition fgets :: "nat \<Rightarrow> string \<Rightarrow> string option" where
  "fgets n text = (let line = takeWhile (\<lambda>c. c \<noteq> LF) text;
       got = take (n - 1) (line @ (if LF \<in> set text then [LF] else [])) in
     if text = [] then None else Some got)"

text \<open>\<open>path.find_last_of("./")\<close> and the text after that position.\<close>

definition is_dot_or_slash :: "char \<Rightarrow> bool" where
  "is_dot_or_slash c \<longleftrightarrow> c = CHR ''.'' \<or> c = CHR ''/''"

definition extension_mime :: "string \<Rightarrow> string option" where
  "extension_mime path = (case dropWhile (\<lambda>c. \<not> is_dot_or_slash c) (rev path) of
     [] \<Rightarrow> None
   | c # _ \<Rightarrow> if c = CHR ''.'' then
        map_of mime_types_by_extensions (rev (takeWhile (\<lambda>c. \<not> is_dot_or_slash c) (rev path)))
      else None)"

definition command_full :: "string \<Rightarrow> string \<Rightarrow> string" where
  "command_full command path = command @ '' '' @ [CHR 0x27] @ path @ [CHR 0x27]"

definition default_mime_command :: string where
  "default_mime_command = ''file -b --mime''"

definition get_file_mime :: "shell \<Rightarrow> string \<Rightarrow> string \<Rightarrow> exn + string" where
  "get_file_mime popen command path = (case extension_mime path of
     Some mime \<Rightarrow> Inr mime
   | None \<Rightarrow>
      (case popen (command_full command path) of
         None \<Rightarrow> Inl (Sys Unknown_error)
       | Some (text, status) \<Rightarrow>
           (case fgets max_output_len text of
              None \<Rightarrow> Inl (Sys Unknown_error)
            | Some str \<Rightarrow> if status \<noteq> 0 then Inl (Sys Unknown_error) else Inr (butlast str))))"

text \<open>The extension that counts is the one after the last dot of the last path section.\<close>

lemma extension_mime_split:
  assumes "list_all (\<lambda>c. \<not> is_dot_or_slash c) ext"
  shows "extension_mime (p @ ''.'' @ ext) = map_of mime_types_by_extensions ext"
proof -
  have "dropWhile (\<lambda>c. \<not> is_dot_or_slash c) (rev (p @ ''.'' @ ext)) = CHR ''.'' # rev p"
    "takeWhile (\<lambda>c. \<not> is_dot_or_slash c) (rev (p @ ''.'' @ ext)) = rev ext"
    using assms by (simp_all add: list_all_iff takeWhile_all dropWhile_all is_dot_or_slash_def)
  then show ?thesis by (simp add: extension_mime_def)
qed

lemma extension_mime_none:
  assumes "list_all (\<lambda>c. \<not> is_dot_or_slash c) name"
  shows "extension_mime (p @ ''/'' @ name) = None"
proof -
  have "dropWhile (\<lambda>c. \<not> is_dot_or_slash c) (rev (p @ ''/'' @ name)) = CHR ''/'' # rev p"
    using assms by (simp add: list_all_iff dropWhile_all is_dot_or_slash_def)
  then show ?thesis by (simp add: extension_mime_def)
qed

text \<open>
  \<open>get_file_mime\<close> fails only with \<open>unknown_error\<close>, and only when the file has no known
  extension; a known extension never starts the external command, whatever it would do.
\<close>
theorem get_file_mime_errors:
  assumes "get_file_mime popen command path = Inl e"
  shows "e = Sys Unknown_error \<and> extension_mime path = None \<and>
    (\<forall>text. popen (command_full command path) = Some (text, 0) \<longrightarrow> text = [])"
  using assms
  by (auto simp: get_file_mime_def fgets_def Let_def split: option.splits prod.splits if_splits)

lemma get_file_mime_errors_witness:
  "get_file_mime (\<lambda>c. Some ([], 0)) default_mime_command ''/bin/sh'' = Inl (Sys Unknown_error) \<and>
   extension_mime ''/bin/sh'' = None"
proof -
  have g: "get_file_mime (\<lambda>c. Some ([], 0)) default_mime_command ''/bin/sh'' = Inl (Sys Unknown_error)"
    by (simp add: get_file_mime_def extension_mime_def is_dot_or_slash_def fgets_def)
  show ?thesis using get_file_mime_errors [OF g] g by simp
qed

section \<open>\<open>process\<close>\<close>

text \<open>The object holds the process id; \<open>0\<close> means none.\<close>

type_synonym process = "32 word"

text \<open>
  The constructor in the parent: what \<open>fork()\<close> returned, and \<open>errno\<close>'s message. In the child
  the constructor never returns: it runs the function and exits.
\<close>

datatype child_end = Exit_with int | Abort

definition mk_process :: "32 word \<Rightarrow> string \<Rightarrow> (exn + int) \<Rightarrow> (exn + process) + child_end" where
  "mk_process fork_result strerror run_fn =
     (if fork_result \<noteq> 0 then
        (if sint fork_result > 0 then Inl (Inr fork_result) else Inl (Inl (Std_exception strerror)))
      else Inr (case run_fn of Inl e \<Rightarrow> Abort | Inr status \<Rightarrow> Exit_with status))"

text \<open>Moving out of an object leaves it without a process.\<close>

definition move_process :: "process \<Rightarrow> process \<times> process" where
  "move_process other = (other, 0)"

text \<open>The values of \<open>errno.h\<close> the switch names.\<close>

definition EPERM :: "32 word" where "EPERM = 1"
definition ESRCH :: "32 word" where "ESRCH = 3"
definition EINVAL :: "32 word" where "EINVAL = 22"

text \<open>\<open>kill_result\<close> is what \<open>::kill(id, signal)\<close> returns.\<close>

definition process_kill :: "process \<Rightarrow> string \<Rightarrow> 32 word \<Rightarrow> exn + unit" where
  "process_kill p signal kill_result =
     (if p = 0 then Inl (Sys (Incorrect_process_id ''Process id == 0''))
      else if kill_result = 0 then Inr ()
      else if kill_result = EINVAL then Inl (Sys (Invalid_signal signal))
      else if kill_result = EPERM then Inl (Sys Permission_error)
      else if kill_result = ESRCH then Inl (Sys Process_not_found)
      else Inl (Sys Unknown_error))"

text \<open>
  \<open>::kill\<close> reports failure by returning -1 and leaves the reason in \<open>errno\<close>, but
  \<open>process::kill\<close> compares the returned value with the \<open>errno\<close> constants. So a failure on a
  live process object is always reported as \<open>unknown_error\<close>, never as an invalid signal, a
  missing permission or a missing process.
\<close>
theorem process_kill_never_distinguishes:
  assumes posix: "kill_result = 0 \<or> kill_result = - 1" and "p \<noteq> 0"
  shows "process_kill p signal kill_result =
    (if kill_result = 0 then Inr () else Inl (Sys Unknown_error))"
  using assms by (auto simp: process_kill_def EINVAL_def EPERM_def ESRCH_def)

lemma process_kill_never_distinguishes_witness:
  "process_kill 42 ''9'' (- 1) = Inl (Sys Unknown_error)"
  using process_kill_never_distinguishes [of "- 1" 42 "''9''"] by simp

end
