(* ===== verification/Host_Base.thy ===== *)
theory Host_Base
  imports Http_Response Base_Utils
begin

text \<open>
  \<open>server/host/base\<close> and \<open>server/host/manager\<close>: the responses every host can build, the virtual
  interface of a host as a record of its methods, and the table of hosts of a server. The
  contract of \<open>response\<close> is the locale \<open>responder\<close>. A \<open>server_name\<close> argument is the name the
  worker draws for the response that is built; logging is output only and is left out.
\<close>

section \<open>The interface of a host\<close>

text \<open>Of \<open>nlohmann::json\<close>: element access and the conversions the configuration uses.\<close>

record 'j json_lib =
  js_at :: "'j json_at"
  js_string :: "'j \<Rightarrow> exn + string"
  js_ports :: "'j \<Rightarrow> exn + port_type list"
  js_items :: "'j \<Rightarrow> exn + 'j list"            \<comment> \<open>iteration over an array\<close>
  js_object :: "'j \<Rightarrow> exn + (string \<times> 'j) list" \<comment> \<open>iteration over an object\<close>

record host_base =
  name :: string
  ports :: "port_type list"

definition mk_host_base :: "'j json_lib \<Rightarrow> 'j \<Rightarrow> exn + host_base" where
  "mk_host_base lib config =
     rbind (json_get (js_at lib) (js_string lib) config [Key ''name'']) (\<lambda>n.
     rbind (json_get (js_at lib) (js_ports lib) config [Key ''ports'']) (\<lambda>p.
       Inr \<lparr>name = n, ports = p\<rparr>))"

definition default_host_base :: host_base where
  "default_host_base = \<lparr>name = [], ports = []\<rparr>"

definition port_allowed :: "host_base \<Rightarrow> port_type \<Rightarrow> bool" where
  "port_allowed h port = (if length (filter (\<lambda>p. p = port) (remdups (ports h))) > 0 then True else False)"

text \<open>
  An object of a class derived from \<open>base\<close>: \<open>response\<close> may change the request and the state
  \<open>'w\<close> (caches, database), may throw, and returns a null pointer (\<open>None\<close>) to have the request
  processed again. \<open>clear_cache\<close> gives \<open>None\<close> where the code dereferences a null pointer.
\<close>

type_synonym 'w respond = "string \<Rightarrow> request \<Rightarrow> 'w \<Rightarrow> (exn + response option) \<times> request \<times> 'w"

record 'w vhost =
  vh_base :: host_base
  vh_response :: "'w respond"
  vh_clear_cache :: "'w \<Rightarrow> 'w option"

section \<open>Building responses\<close>

definition add_server_name :: "string \<Rightarrow> response \<Rightarrow> response" where
  "add_server_name server_name r =
     (if server_name = [] then r else add_header header_server server_name r)"

definition phony_body :: "string \<Rightarrow> status \<Rightarrow> string" where
  "phony_body server_name st =
     (let status_str = code_str st @ str_space @ description st in
      ''<html>'' @ ''<head>'' @ ''<meta charset='' @ quoted ''utf-8'' @ ''>'' @
      ''<title>'' @ status_str @ ''</title>'' @ ''</head>'' @
      ''<body>'' @ ''<h1>'' @ status_str @ ''</h1>'' @ ''<hr width='' @ quoted ''100%'' @ ''>'' @
      ''<p>'' @ server_name @ ''</p>'' @ ''</body>'' @ ''</html>'')"

definition phony_response :: "string \<Rightarrow> request \<Rightarrow> status \<Rightarrow> response" where
  "phony_response server_name rq st =
     (let r = mk_response st (rq_version rq);
          r = add_server_name server_name r;
          r = add_header header_content_type ''text/html'' r;
          body = phony_body server_name st;
          r = add_header header_content_length (to_string (length body)) r
      in if rq_method rq \<noteq> HEAD then add_cached_body body r else r)"

text \<open>With \<open>need_cache\<close> the body is copied, without it the response points to the caller's string.\<close>

definition response_with_body ::
  "string \<Rightarrow> request \<Rightarrow> status \<Rightarrow> string \<Rightarrow> bool \<Rightarrow> string \<Rightarrow> response" where
  "response_with_body server_name rq st body need_cache content_type =
     (let r = mk_response st (rq_version rq);
          r = add_server_name server_name r;
          (buffer, r) = (if need_cache then (let (i, r) = cache body r in (cached_buffer r i, r))
                         else (outer_buffer body, r));
          r = (if content_type \<noteq> [] then add_header header_content_type content_type r else r);
          r = add_header header_content_length (to_string (buf_size buffer)) r
      in if rq_method rq \<noteq> HEAD then add_body buffer r else r)"

definition response_with_html_body :: "string \<Rightarrow> request \<Rightarrow> status \<Rightarrow> string \<Rightarrow> bool \<Rightarrow> response" where
  "response_with_html_body server_name rq st body need_cache =
     response_with_body server_name rq st body need_cache text_html"

definition response_with_json_body :: "string \<Rightarrow> request \<Rightarrow> status \<Rightarrow> string \<Rightarrow> bool \<Rightarrow> response" where
  "response_with_json_body server_name rq st body need_cache =
     response_with_body server_name rq st body need_cache application_json"

definition redirect_response :: "string \<Rightarrow> request \<Rightarrow> string \<Rightarrow> status \<Rightarrow> response" where
  "redirect_response server_name rq loc st =
     (let r = mk_response st (rq_version rq);
          r = add_server_name server_name r;
          r = add_header header_location loc r
      in add_header header_content_length ''0'' r)"

text \<open>All three overloads log the message and answer with a phony page.\<close>

definition handle_error :: "string \<Rightarrow> request \<Rightarrow> status \<Rightarrow> response" where
  "handle_error server_name rq st = phony_response server_name rq st"

definition log_error_line :: "host_base \<Rightarrow> request \<Rightarrow> string \<Rightarrow> status \<Rightarrow> string" where
  "log_error_line h rq what_arg st = ''Client: '' @ rq_client_address rq @ '': Host: '' @ quoted (name h) @
     '': '' @ what_arg @ '' => '' @ to_string (code st) @ ''.''"

definition log_error_text :: "host_base \<Rightarrow> request \<Rightarrow> string \<Rightarrow> string" where
  "log_error_text h rq what_arg = ''Client: '' @ rq_client_address rq @ '': Host: '' @ quoted (name h) @
     '': '' @ what_arg @ ''.''"

definition base_response :: "'w respond" where
  "base_response server_name rq w = (Inr (Some (phony_response server_name rq status_not_found)), rq, w)"

definition mk_base_vhost :: "host_base \<Rightarrow> 'w vhost" where
  "mk_base_vhost h = \<lparr>vh_base = h, vh_response = base_response, vh_clear_cache = Some\<rparr>"

section \<open>What a response promises\<close>

text \<open>
  A response to a request is framed: its first buffer is a whole head with the version of the
  request and exactly one \<open>Content-Length\<close>, and that is the number of bytes the other buffers
  cover, or what it would be for \<open>HEAD\<close>.
\<close>

definition content_lengths :: "(string \<times> string) list \<Rightarrow> string list" where
  "content_lengths hs = map snd (filter (\<lambda>(k, v). k = header_content_length) hs)"

lemma content_lengths_simps [simp]:
  "content_lengths [] = []"
  "content_lengths ((k, v) # hs) = (if k = header_content_length then v # content_lengths hs else content_lengths hs)"
  "content_lengths (hs @ hs') = content_lengths hs @ content_lengths hs'"
  by (simp_all add: content_lengths_def)

definition framed :: "request \<Rightarrow> response \<Rightarrow> bool" where
  "framed rq r \<longleftrightarrow> (\<exists>st hs n bs. headers r = render (status_line st (rq_version rq)) hs [] \<and>
     buffers r = \<lparr>buf_loc = Headers_loc, buf_size = length (headers r)\<rparr> # bs \<and>
     content_lengths hs = [to_string n] \<and>
     sum_list (map buf_size bs) = (if rq_method rq = HEAD then 0 else n))"

lemma deref_size: "deref r b = Some s \<Longrightarrow> length s = buf_size b"
  by (auto simp: deref_def split: location.splits if_splits)

lemma wire_of_size: "wire_of r bs = Some s \<Longrightarrow> length s = sum_list (map buf_size bs)"
  by (induction bs arbitrary: s) (auto simp: join_opt_eq_Some dest: deref_size)

lemma framedI:
  "repr (status_line st (rq_version rq)) hs body r \<Longrightarrow> content_lengths hs = [to_string n] \<Longrightarrow>
   (if rq_method rq = HEAD then body = [] else length body = n) \<Longrightarrow> framed rq r"
  unfolding framed_def repr_def by (fastforce dest: wire_of_size split: if_splits)

text \<open>When no buffer dangles, the client receives the head and a body of the announced length.\<close>

lemma framed_wire:
  assumes "framed rq r" "wire r = Some w"
  shows "\<exists>st hs n body. w = render (status_line st (rq_version rq)) hs body \<and>
    content_lengths hs = [to_string n] \<and> length body = (if rq_method rq = HEAD then 0 else n)"
proof -
  obtain st hs n bs where f: "headers r = render (status_line st (rq_version rq)) hs []"
    "buffers r = \<lparr>buf_loc = Headers_loc, buf_size = length (headers r)\<rparr> # bs"
    "content_lengths hs = [to_string n]" "sum_list (map buf_size bs) = (if rq_method rq = HEAD then 0 else n)"
    using assms(1) unfolding framed_def by blast
  obtain body where b: "wire_of r bs = Some body" "w = headers r @ body"
    using assms(2) by (auto simp: wire_def f(2) join_opt_eq_Some deref_def)
  have "w = render (status_line st (rq_version rq)) hs body" using b(2) f(1) by (simp add: render_def)
  moreover have "length body = (if rq_method rq = HEAD then 0 else n)" using wire_of_size [OF b(1)] f(4) by simp
  ultimately show ?thesis using f(3) by blast
qed

definition server_headers :: "string \<Rightarrow> (string \<times> string) list" where
  "server_headers server_name = (if server_name = [] then [] else [(header_server, server_name)])"

lemma repr_add_server_name [inv_intros]:
  "repr line hs body r \<Longrightarrow> repr line (hs @ server_headers server_name) body (add_server_name server_name r)"
  by (simp add: add_server_name_def server_headers_def repr_add_header)

lemma header_names_distinct [simp]:
  "header_server \<noteq> header_content_length" "header_content_type \<noteq> header_content_length"
  "header_location \<noteq> header_content_length" "header_set_cookie \<noteq> header_content_length"
  by (simp_all add: header_name_defs)

lemma content_lengths_server [simp]: "content_lengths (server_headers n) = []"
  by (simp add: server_headers_def)

lemma repr_start: "repr (status_line st v) (server_headers n) [] (add_server_name n (mk_response st v))"
  using repr_add_server_name [OF repr_mk, of st v n] by simp

lemma repr_phony:
  "repr (status_line st (rq_version rq)) (server_headers sn @ [(header_content_type, ''text/html''),
       (header_content_length, to_string (length (phony_body sn st)))])
     (if rq_method rq = HEAD then [] else phony_body sn st) (phony_response sn rq st)"
proof -
  note r = repr_add_header [OF repr_add_header [OF repr_start [of st "rq_version rq" sn]],
      of header_content_type "''text/html''" header_content_length "to_string (length (phony_body sn st))"]
  from repr_add_cached [OF r, of "phony_body sn st"] r show ?thesis
    by (simp add: phony_response_def Let_def)
qed

lemma strings_add_header [simp]: "strings (add_header k v r) = strings r"
  by (simp add: add_header_def prepare_update_headers_buffer_def update_headers_buffer_def Let_def)

lemma repr_add_header_buffer:
  "repr line hs body r \<Longrightarrow> deref r b = Some s \<Longrightarrow> buf_loc b \<noteq> Headers_loc \<Longrightarrow>
   deref (add_header k v r) b = Some s"
  by (cases "buf_loc b") (simp_all add: deref_def split: if_splits)

definition body_headers :: "string \<Rightarrow> string \<Rightarrow> string \<Rightarrow> (string \<times> string) list" where
  "body_headers sn content_type body = server_headers sn @
     (if content_type = [] then [] else [(header_content_type, content_type)]) @
     [(header_content_length, to_string (length body))]"

lemma repr_response_with_body:
  "repr (status_line st (rq_version rq)) (body_headers sn content_type body)
     (if rq_method rq = HEAD then [] else body) (response_with_body sn rq st body need_cache content_type)"
proof -
  define r0 where "r0 = add_server_name sn (mk_response st (rq_version rq))"
  define buf where "buf = (if need_cache then cached_buffer (snd (cache body r0)) (fst (cache body r0))
    else outer_buffer body)"
  define r1 where "r1 = (if need_cache then snd (cache body r0) else r0)"
  have r1: "repr (status_line st (rq_version rq)) (server_headers sn) [] r1"
    using repr_start repr_cache by (simp add: r1_def r0_def)
  have d1: "deref r1 buf = Some body" "buf_loc buf \<noteq> Headers_loc" "buf_size buf = length body"
    by (simp_all add: deref_def cached_buffer_def cache_def outer_buffer_def buf_def r1_def)
  define r2 where "r2 = (if content_type \<noteq> [] then add_header header_content_type content_type r1 else r1)"
  have r2: "repr (status_line st (rq_version rq)) (server_headers sn @
      (if content_type = [] then [] else [(header_content_type, content_type)])) [] r2"
    using repr_add_header [OF r1] r1 by (simp add: r2_def)
  have d2: "deref r2 buf = Some body"
    using repr_add_header_buffer [OF r1 d1(1,2)] d1(1) by (simp add: r2_def)
  define r3 where "r3 = add_header header_content_length (to_string (length body)) r2"
  have r3: "repr (status_line st (rq_version rq)) (body_headers sn content_type body) [] r3"
    using repr_add_header [OF r2] by (simp add: r3_def body_headers_def)
  have d3: "deref r3 buf = Some body"
    unfolding r3_def by (rule repr_add_header_buffer [OF r2 d2 d1(2)])
  have "response_with_body sn rq st body need_cache content_type =
      (if rq_method rq \<noteq> HEAD then add_body buf r3 else r3)"
    by (cases need_cache) (simp_all add: response_with_body_def Let_def r3_def r2_def r1_def buf_def r0_def
        split_beta cached_buffer_def cache_def outer_buffer_def)
  then show ?thesis using r3 repr_add_body [OF r3 d3 d1(2)] by simp
qed

lemma repr_redirect:
  "repr (status_line st (rq_version rq)) (server_headers sn @ [(header_location, loc), (header_content_length, ''0'')])
     [] (redirect_response sn rq loc st)"
  using repr_add_header [OF repr_add_header [OF repr_start [of st "rq_version rq" sn]],
      of header_location loc header_content_length "''0''"]
  by (simp add: redirect_response_def Let_def)

lemma framed_phony [intro, simp]: "framed rq (phony_response sn rq st)"
  by (rule framedI [OF repr_phony, where n = "length (phony_body sn st)"]) simp_all

lemma framed_handle_error [intro, simp]: "framed rq (handle_error sn rq st)"
  by (simp add: handle_error_def)

lemma framed_with_body [intro, simp]: "framed rq (response_with_body sn rq st body nc ct)"
  by (rule framedI [OF repr_response_with_body, where n = "length body"]) (simp_all add: body_headers_def)

lemma framed_with_html_body [intro, simp]: "framed rq (response_with_html_body sn rq st body nc)"
  by (simp add: response_with_html_body_def)

lemma framed_with_json_body [intro, simp]: "framed rq (response_with_json_body sn rq st body nc)"
  by (simp add: response_with_json_body_def)

lemma framed_redirect [intro, simp]: "framed rq (redirect_response sn rq loc st)"
  by (rule framedI [OF repr_redirect, where n = 0]) (simp_all add: to_string.simps)

text \<open>
  The phony page that answers every error is a complete HTTP message: the status line with
  the version of the request, the server name when there is one, the type, the length, and the
  page itself, which is left out for \<open>HEAD\<close> although its length is announced.
\<close>
theorem phony_response_wire:
  "wire (phony_response sn rq st) = Some (
     ''HTTP/'' @ version_to_str (rq_version rq) @ start_string st @
     (if sn = [] then [] else ''Server: '' @ sn @ [CR, LF]) @
     ''Content-Type: text/html'' @ [CR, LF] @
     ''Content-Length: '' @ to_string (length (phony_body sn st)) @ [CR, LF, CR, LF] @
     (if rq_method rq = HEAD then [] else phony_body sn st))"
  using repr_wire [OF repr_phony [of st rq sn]]
  by (simp add: render_def status_line_def server_headers_def header_text_def header_name_defs)

section \<open>The contract of \<open>response\<close>\<close>

text \<open>
  What the session relies on: a response is framed for the request as the host leaves it, and a
  host that fails throws instead. \<open>final\<close> hosts always answer; the others may send a request
  round again.
\<close>

locale responder =
  fixes respond :: "'w respond"
  assumes response_framed: "respond sn rq w = (Inr (Some r), rq', w') \<Longrightarrow> framed rq' r"
begin

text \<open>A client that knows the version and method finds the body at its announced length.\<close>

lemma response_readable:
  assumes "respond sn rq w = (Inr (Some r), rq', w')" "rq_method rq' \<noteq> HEAD" "wire r = Some text"
  shows "\<exists>st hs body. text = render (status_line st (rq_version rq')) hs body \<and>
    content_lengths hs = [to_string (length body)]"
  using framed_wire [OF response_framed [OF assms(1)] assms(3)] assms(2) by auto

lemma head_has_no_body:
  assumes "respond sn rq w = (Inr (Some r), rq', w')" "rq_method rq' = HEAD" "wire r = Some text"
  shows "\<exists>st hs. text = render (status_line st (rq_version rq')) hs []"
  using framed_wire [OF response_framed [OF assms(1)] assms(3)] assms(2) by auto

end

locale final_responder = responder +
  assumes never_again: "fst (respond sn rq w) \<noteq> Inr None"
begin

lemma answers_or_throws: "(\<exists>e. fst (respond sn rq w) = Inl e) \<or> (\<exists>r. fst (respond sn rq w) = Inr (Some r))"
  using never_again [of sn rq w] by (cases "fst (respond sn rq w)") auto

end

interpretation base_host: final_responder base_response
  by unfold_locales (auto simp: base_response_def)

section \<open>\<open>manager\<close>\<close>

text \<open>The hosts in the order they were added; the table is keyed by their names.\<close>

type_synonym 'w manager = "'w vhost list"

abbreviation vh_name :: "'w vhost \<Rightarrow> string" where
  "vh_name h \<equiv> name (vh_base h)"

definition find_host :: "string \<Rightarrow> 'w manager \<Rightarrow> 'w vhost option" where
  "find_host n m = List.find (\<lambda>h. vh_name h = n) m"

definition add_host :: "'w vhost option \<Rightarrow> 'w manager \<Rightarrow> (exn + unit) \<times> 'w manager" where
  "add_host host_ptr m = (case host_ptr of
     None \<Rightarrow> (Inl (Host Host_not_exists), m)
   | Some h \<Rightarrow> if find_host (vh_name h) m \<noteq> None then (Inl (Host (Host_exists (vh_name h))), m)
               else (Inr (), m @ [h]))"

definition manager_host :: "'w manager \<Rightarrow> string \<Rightarrow> port_type \<Rightarrow> exn + 'w vhost" where
  "manager_host m n port = (case find_host n m of
     None \<Rightarrow> Inl (Host (Host_not_found n))
   | Some h \<Rightarrow> if \<not> port_allowed (vh_base h) port then Inl (Host (Port_not_allowed n port)) else Inr h)"

definition error_host :: "'w vhost" where
  "error_host = mk_base_vhost default_host_base"

text \<open>\<open>clear_cache\<close> is \<open>noexcept\<close>; hosts are cleared one after the other, the error host last.\<close>

fun clear_all :: "'w vhost list \<Rightarrow> 'w \<Rightarrow> 'w option" where
  "clear_all [] w = Some w"
| "clear_all (h # hs) w = (case vh_clear_cache h w of None \<Rightarrow> None | Some w \<Rightarrow> clear_all hs w)"

definition manager_clear_cache :: "'w manager \<Rightarrow> 'w \<Rightarrow> 'w option" where
  "manager_clear_cache m w = (case clear_all m w of None \<Rightarrow> None | Some w \<Rightarrow> vh_clear_cache error_host w)"

definition manager_ok :: "'w manager \<Rightarrow> bool" where
  "manager_ok m \<longleftrightarrow> distinct (map vh_name m)"

lemma find_host_name: "find_host n m = Some h \<Longrightarrow> vh_name h = n \<and> h \<in> set m"
  by (auto simp: find_host_def find_Some_iff)

lemma find_host_None: "find_host n m = None \<longleftrightarrow> n \<notin> vh_name ` set m"
  by (auto simp: find_host_def find_None_iff)

lemma find_host_append: "find_host n (m @ m') =
    (case find_host n m of None \<Rightarrow> find_host n m' | Some h \<Rightarrow> Some h)"
  by (simp add: find_host_def find_append split: option.split)

lemma add_host_ok [inv_intros]: "manager_ok m \<Longrightarrow> manager_ok (snd (add_host h m))"
  by (auto simp: add_host_def manager_ok_def find_host_None split: option.split)

fun add_hosts :: "'w vhost option list \<Rightarrow> 'w manager \<Rightarrow> (exn + unit) list \<times> 'w manager" where
  "add_hosts [] m = ([], m)"
| "add_hosts (h # hs) m = (let (r, m) = add_host h m; (rs, m) = add_hosts hs m in (r # rs, m))"

lemma add_hosts_ok: "manager_ok m \<Longrightarrow> manager_ok (snd (add_hosts hs m))"
proof (induction hs arbitrary: m)
  case (Cons h hs)
  then show ?case using add_host_ok [OF Cons.prems, of h] by (simp add: split_beta)
qed simp

lemma add_hosts_find:
  "find_host n (snd (add_hosts hs m)) = (case find_host n m of
     Some h \<Rightarrow> Some h | None \<Rightarrow> List.find (\<lambda>h. vh_name h = n) (map the (filter (\<lambda>h. h \<noteq> None) hs)))"
proof (induction hs arbitrary: m)
  case (Cons h hs)
  show ?case
  proof (cases h)
    case None
    then show ?thesis using Cons [of m] by (cases "find_host n m") (simp_all add: split_beta add_host_def)
  next
    case (Some x)
    have s: "snd (add_hosts (h # hs) m) = snd (add_hosts hs (snd (add_host h m)))"
      by (simp add: split_beta)
    have f: "find_host n (snd (add_host h m)) = (case find_host n m of
        Some y \<Rightarrow> Some y | None \<Rightarrow> if vh_name x = n then Some x else None)"
    proof (cases "find_host (vh_name x) m")
      case None
      have "find_host n [x] = (if vh_name x = n then Some x else None)" by (simp add: find_host_def)
      then show ?thesis using None Some
        by (simp add: add_host_def find_host_append split: option.split)
    next
      case (Some y)
      then show ?thesis using \<open>h = Some x\<close> by (auto simp: add_host_def split: option.split)
    qed
    show ?thesis unfolding s Cons f using Some by (simp split: option.split)
  qed
qed (simp split: option.split)

text \<open>
  After any sequence of \<open>add_host\<close> calls, the manager resolves a name to the first host that
  was added under it, if that host serves the port; a later host of the same name is rejected and
  changes nothing, and so is a null pointer.
\<close>
theorem manager_resolves_first:
  "manager_host (snd (add_hosts hs [])) n port =
     (case List.find (\<lambda>h. vh_name h = n) (map the (filter (\<lambda>h. h \<noteq> None) hs)) of
        None \<Rightarrow> Inl (Host (Host_not_found n))
      | Some h \<Rightarrow> if port \<in> set (ports (vh_base h)) then Inr h else Inl (Host (Port_not_allowed n port)))"
proof -
  have p: "port_allowed b port \<longleftrightarrow> port \<in> set (ports b)" for b
    by (auto simp: port_allowed_def filter_empty_conv)
  have e: "find_host n [] = None" by (simp add: find_host_def)
  show ?thesis by (simp add: manager_host_def add_hosts_find e p split: option.split)
qed

end
