(* ===== verification/File_Host.thy ===== *)
theory File_Host
  imports Host_Base System_Utils
begin

text \<open>
  \<open>server/host/file\<close> with its handler \<open>server/host/file_handlers/files_only\<close>: a host that maps
  request paths to files under a root directory. The file system, the external MIME utility and
  the compilation of regular expressions from the configuration are parameters; the state is the
  cache of the handler.
\<close>

section \<open>The host and its configuration\<close>

datatype allow_match_mode = Any | All

record file_host =
  fh_base :: host_base
  fh_root :: string
  fh_default_index_file :: string
  fh_deny_regexes :: "regex list"
  fh_allow_regexes :: "regex list"
  fh_mode :: allow_match_mode

text \<open>The initialisers of the members: \<open>.*\.\./.*\<close> and \<open>.*/\..*\<close> are denied, nothing is allowed.\<close>

definition any_chars :: regex where
  "any_chars = Star (Cls not_newline)"

definition default_deny_regexes :: "regex list" where
  "default_deny_regexes =
     [Sq any_chars (Lits ''../'' any_chars), Sq any_chars (Lits ''/.'' any_chars)]"

definition new_file_host :: "host_base \<Rightarrow> file_host" where
  "new_file_host b = \<lparr>fh_base = b, fh_root = [], fh_default_index_file = [],
     fh_deny_regexes = default_deny_regexes, fh_allow_regexes = [], fh_mode = All\<rparr>"

text \<open>\<open>for (const std::string &regex: regexes) regex_vector.emplace_back(regex)\<close>\<close>

fun fill_regexes :: "'j json_lib \<Rightarrow> (string \<Rightarrow> exn + regex) \<Rightarrow> 'j list \<Rightarrow> regex list \<Rightarrow> (exn + unit) \<times> regex list" where
  "fill_regexes lib compile [] rs = (Inr (), rs)"
| "fill_regexes lib compile (j # js) rs = (case rbind (js_string lib j) compile of
     Inl e \<Rightarrow> (Inl e, rs)
   | Inr r \<Rightarrow> fill_regexes lib compile js (rs @ [r]))"

text \<open>
  \<open>try { fill_regexes(v, at(config, key)); } catch (const std::out_of_range &) {}\<close>: the vector is
  cleared only once the key is found.
\<close>

definition config_regexes ::
  "'j json_lib \<Rightarrow> (string \<Rightarrow> exn + regex) \<Rightarrow> 'j \<Rightarrow> string \<Rightarrow> regex list \<Rightarrow> exn + regex list" where
  "config_regexes lib compile config key old = (case json_path (js_at lib) config [Key key] of
     Inl (Out_of_range _) \<Rightarrow> Inr old
   | Inl e \<Rightarrow> Inl e
   | Inr j \<Rightarrow> (case js_items lib j of
       Inl (Out_of_range _) \<Rightarrow> Inr []
     | Inl e \<Rightarrow> Inl e
     | Inr js \<Rightarrow> (case fill_regexes lib compile js [] of
         (Inl (Out_of_range _), rs) \<Rightarrow> Inr rs
       | (Inl e, rs) \<Rightarrow> Inl e
       | (Inr _, rs) \<Rightarrow> Inr rs)))"

definition parse_mode :: "string \<Rightarrow> exn + allow_match_mode" where
  "parse_mode mode =
     (if mode = ''any'' then Inr Any else if mode = ''all'' then Inr All
      else Inl (Host (Incorrect_config (''Incorrect allow_match_mode: '' @ quoted mode @
        '', correct values are: '' @ quoted ''any'' @ '', '' @ quoted ''all''))))"

definition parse_config ::
  "file_system \<Rightarrow> 'j json_lib \<Rightarrow> (string \<Rightarrow> exn + regex) \<Rightarrow> 'j \<Rightarrow> file_host \<Rightarrow> exn + file_host" where
  "parse_config fs lib compile config h =
     rbind (json_get (js_at lib) (js_string lib) config [Key ''root'']) (\<lambda>root.
     rbind (fs_exists fs root) (\<lambda>ex.
     if \<not> ex then Inl (Host (Path_not_found root)) else
     rbind (fs_canonical fs root ''/'') (\<lambda>root.
     rbind (json_get (js_at lib) (js_string lib) config [Key ''allow_match_mode'']) (\<lambda>mode_str.
     rbind (parse_mode mode_str) (\<lambda>mode.
     rbind (config_regexes lib compile config ''allow_regexes'' (fh_allow_regexes h)) (\<lambda>allow.
     rbind (config_regexes lib compile config ''deny_regexes'' (fh_deny_regexes h)) (\<lambda>deny.
     rbind (json_extract (js_at lib) (js_string lib) config (fh_default_index_file h) [Key ''default_index_file'']) (\<lambda>(_, index).
       Inr (h\<lparr>fh_root := root, fh_mode := mode, fh_allow_regexes := allow, fh_deny_regexes := deny,
              fh_default_index_file := index\<rparr>)))))))))"

definition mk_file_host ::
  "file_system \<Rightarrow> 'j json_lib \<Rightarrow> (string \<Rightarrow> exn + regex) \<Rightarrow> 'j \<Rightarrow> exn + file_host" where
  "mk_file_host fs lib compile config =
     rbind (mk_host_base lib config) (\<lambda>b. parse_config fs lib compile config (new_file_host b))"

section \<open>Validation\<close>

definition validate_method :: "http_method \<Rightarrow> exn + unit" where
  "validate_method m = (if m \<noteq> GET \<and> m \<noteq> HEAD then Inl (Host (Method_not_allowed (method_to_str m))) else Inr ())"

definition matches :: "string \<Rightarrow> regex \<Rightarrow> bool" where
  "matches path r \<longleftrightarrow> regex_match r path \<noteq> None"

text \<open>The loops of \<open>validate_path\<close>, with their \<open>break\<close>s.\<close>

fun deny_loop :: "string \<Rightarrow> regex list \<Rightarrow> exn + unit" where
  "deny_loop path [] = Inr ()"
| "deny_loop path (r # rs) = (if matches path r then Inl (Host (Path_forbidden path)) else deny_loop path rs)"

fun any_loop :: "string \<Rightarrow> regex list \<Rightarrow> bool \<Rightarrow> bool" where
  "any_loop path [] st = st"
| "any_loop path (r # rs) st = (if matches path r then True else any_loop path rs st)"

fun all_loop :: "string \<Rightarrow> regex list \<Rightarrow> bool \<Rightarrow> bool" where
  "all_loop path [] st = st"
| "all_loop path (r # rs) st = (if \<not> matches path r then False else all_loop path rs st)"

definition validate_path :: "file_host \<Rightarrow> string \<Rightarrow> exn + unit" where
  "validate_path h path = rbind (deny_loop path (fh_deny_regexes h)) (\<lambda>_.
     let verification_status =
       (if fh_allow_regexes h = [] then False
        else if fh_mode h = Any then any_loop path (fh_allow_regexes h) False
        else all_loop path (fh_allow_regexes h) True)
     in if \<not> verification_status then Inl (Host (Path_forbidden path)) else Inr ())"

section \<open>\<open>response\<close>\<close>

text \<open>The call operator of the handler: it may throw, and changes its own state.\<close>

type_synonym 'w handler = "string \<Rightarrow> request \<Rightarrow> string \<Rightarrow> 'w \<Rightarrow> (exn + response option) \<times> 'w"

definition locate :: "file_system \<Rightarrow> file_host \<Rightarrow> request \<Rightarrow> exn + string" where
  "locate fs h rq =
     rbind (validate_method (rq_method rq)) (\<lambda>_.
     rbind (validate_path h (rq_path rq)) (\<lambda>_.
     rbind (fs_canonical fs (fs_append fs ''.'' (rq_path rq)) (fh_root h)) (\<lambda>path.
     rbind (fs_is_directory fs path) (\<lambda>dir.
     if dir then
       (if fh_default_index_file h = [] then Inl (Host (Path_is_directory path))
        else rbind (fs_canonical fs (fh_default_index_file h) path) (\<lambda>path.
          rbind (fs_is_directory fs path) (\<lambda>dir.
            if dir then Inl (Host (Path_is_directory path)) else Inr path)))
     else Inr path))))"

text \<open>The \<open>catch\<close> clauses in their order.\<close>

definition error_status :: "exn \<Rightarrow> status" where
  "error_status e = (case e of
     Fs_error c _ \<Rightarrow> (case c of
        No_such_file_or_directory \<Rightarrow> status_not_found
      | Permission_denied \<Rightarrow> status_forbidden
      | Other_errc \<Rightarrow> status_internal_server_error)
   | Host (Path_is_directory _) \<Rightarrow> status_forbidden
   | Host (Path_forbidden _) \<Rightarrow> status_forbidden
   | Host (Path_forbidden_msg _ _) \<Rightarrow> status_forbidden
   | Host (Path_not_found _) \<Rightarrow> status_not_found
   | Host (Method_not_allowed _) \<Rightarrow> status_forbidden
   | _ \<Rightarrow> status_internal_server_error)"

definition file_response :: "file_system \<Rightarrow> file_host \<Rightarrow> 'w handler \<Rightarrow> 'w respond" where
  "file_response fs h handler server_name rq w =
     (case (case locate fs h rq of Inl e \<Rightarrow> (Inl e, w) | Inr path \<Rightarrow> handler server_name rq path w) of
        (Inl e, w) \<Rightarrow> (Inr (Some (handle_error server_name rq (error_status e))), rq, w)
      | (Inr r, w) \<Rightarrow> (Inr r, rq, w))"

definition file_vhost :: "file_system \<Rightarrow> file_host \<Rightarrow> 'w handler \<Rightarrow> ('w \<Rightarrow> 'w) \<Rightarrow> 'w vhost" where
  "file_vhost fs h handler clear = \<lparr>vh_base = fh_base h, vh_response = file_response fs h handler,
     vh_clear_cache = (\<lambda>w. Some (clear w))\<rparr>"

section \<open>The handler \<open>files_only\<close>\<close>

text \<open>A cached file: the mapping and the MIME type.\<close>

type_synonym file_and_mime = "mapped_file \<times> string"

definition load_file :: "shell \<Rightarrow> file_system \<Rightarrow> string \<Rightarrow> exn + file_and_mime" where
  "load_file popen fs path =
     (let mime = (case get_file_mime popen default_mime_command path of
        Inl (Sys Unknown_error) \<Rightarrow> Inr [] | r \<Rightarrow> r) in
      rbind mime (\<lambda>mime_type. rbind (mk_mapped_file fs path) (\<lambda>f. Inr (f, mime_type))))"

text \<open>\<open>files_only::response\<close>; it keeps the file mapped as long as it lives.\<close>

definition file_only_response :: "file_and_mime \<Rightarrow> string \<Rightarrow> request \<Rightarrow> status \<Rightarrow> response" where
  "file_only_response fm server_name rq st =
     (let r = mk_response st (rq_version rq);
          r = add_server_name server_name r;
          r = (if snd fm \<noteq> [] then add_header header_content_type (snd fm) r else r);
          file_content = mf_data (fst fm); file_size = mf_size (fst fm);
          r = add_header header_content_length (to_string file_size) r
      in if rq_method rq \<noteq> HEAD then add_body \<lparr>buf_loc = Outer file_content, buf_size = file_size\<rparr> r else r)"

definition files_only :: "shell \<Rightarrow> file_system \<Rightarrow> file_and_mime file_cache handler" where
  "files_only popen fs server_name rq path c =
     (if rq_method rq \<noteq> GET \<and> rq_method rq \<noteq> HEAD then
        (Inl (Host (Method_not_allowed (method_to_str (rq_method rq)))), c)
      else (case cache_at (\<lambda>p u. (load_file popen fs p, u)) path c () of
        (Inr fm, c, _) \<Rightarrow> (Inr (Some (file_only_response fm server_name rq status_ok)), c)
      | (Inl (Mapped (Mf_path_not_found _)), c, _) \<Rightarrow> (Inl (Host (Path_not_found path)), c)
      | (Inl (Interprocess ec w), c, _) \<Rightarrow>
          (if ec = Not_such_file_or_directory \<or> ec = Not_found_error then (Inl (Host (Path_not_found path)), c)
           else (Inl (Host (Path_forbidden_msg path (''file_mapping: '' @ w))), c))
      | (Inl e, c, _) \<Rightarrow> (Inl e, c)))"

definition files_only_clear :: "file_and_mime file_cache \<Rightarrow> file_and_mime file_cache" where
  "files_only_clear c = cache_clear c"

section \<open>Paths that are denied by default\<close>

definition infix_of :: "string \<Rightarrow> string \<Rightarrow> bool" where
  "infix_of w s \<longleftrightarrow> (\<exists>a b. s = a @ w @ b)"

lemma run_end_any_chars: "run_end any_chars (n, s, c) \<noteq> [] \<longleftrightarrow> list_all not_newline s"
  by (simp add: any_chars_def run_end_Star dropWhile_eq_Nil_conv list_all_iff)

lemma matches_infix:
  "matches s (Sq any_chars (Lits w any_chars)) \<longleftrightarrow>
    (\<exists>a b. s = a @ w @ b \<and> list_all not_newline a \<and> list_all not_newline b)"
proof -
  have "matches s (Sq any_chars (Lits w any_chars)) \<longleftrightarrow>
      (\<exists>i \<le> length (takeWhile not_newline s). run_end (Lits w any_chars) (i, drop i s, []) \<noteq> [])"
    by (simp add: matches_def regex_match_None_iff any_chars_def run_end_Sq_Star_iff del: not_None_eq)
  also have "\<dots> \<longleftrightarrow> (\<exists>i \<le> length (takeWhile not_newline s).
      take (length w) (drop i s) = w \<and> list_all not_newline (drop (length w) (drop i s)))"
    by (rule ex_cong1) (simp add: run_end_Lits run_end_any_chars)
  also have "\<dots> \<longleftrightarrow> (\<exists>a b. s = a @ w @ b \<and> list_all not_newline a \<and> list_all not_newline b)"
  proof
    assume "\<exists>i \<le> length (takeWhile not_newline s).
      take (length w) (drop i s) = w \<and> list_all not_newline (drop (length w) (drop i s))"
    then obtain i where i: "i \<le> length (takeWhile not_newline s)" "take (length w) (drop i s) = w"
      "list_all not_newline (drop (length w) (drop i s))" by blast
    have "s = take i s @ w @ drop (length w) (drop i s)"
      using i(2) by (metis append_take_drop_id)
    moreover have "take i s = take i (takeWhile not_newline s)"
      using i(1) by (metis takeWhile_eq_take take_take min.absorb1)
    then have "list_all not_newline (take i s)"
      by (auto simp: list_all_iff dest!: in_set_takeD set_takeWhileD)
    ultimately show "\<exists>a b. s = a @ w @ b \<and> list_all not_newline a \<and> list_all not_newline b"
      using i(3) by blast
  next
    assume "\<exists>a b. s = a @ w @ b \<and> list_all not_newline a \<and> list_all not_newline b"
    then obtain a b where s: "s = a @ w @ b" "list_all not_newline a" "list_all not_newline b" by blast
    have "length a \<le> length (takeWhile not_newline s)"
      using s(1,2) by (simp add: list_all_iff takeWhile_all)
    moreover have "take (length w) (drop (length a) s) = w"
      "list_all not_newline (drop (length w) (drop (length a) s))" using s by simp_all
    ultimately show "\<exists>i \<le> length (takeWhile not_newline s).
      take (length w) (drop i s) = w \<and> list_all not_newline (drop (length w) (drop i s))" by blast
  qed
  finally show ?thesis .
qed

lemma matches_infix_line:
  "list_all not_newline s \<Longrightarrow> matches s (Sq any_chars (Lits w any_chars)) \<longleftrightarrow> infix_of w s"
  unfolding matches_infix infix_of_def by (metis list_all_append)

lemma deny_loop_Inr: "deny_loop path rs = Inr () \<longleftrightarrow> (\<forall>r\<in>set rs. \<not> matches path r)"
  by (induction rs) auto

lemma any_loop_iff: "any_loop path rs st \<longleftrightarrow> st \<or> (\<exists>r\<in>set rs. matches path r)"
  by (induction rs) auto

lemma all_loop_iff: "all_loop path rs st \<longleftrightarrow> (rs = [] \<longrightarrow> st) \<and> (\<forall>r\<in>set rs. matches path r) \<and> st"
  by (induction rs) auto

lemma validate_path_Inr: "validate_path h path = Inr () \<longleftrightarrow>
    (\<forall>r\<in>set (fh_deny_regexes h). \<not> matches path r) \<and> fh_allow_regexes h \<noteq> [] \<and>
    (if fh_mode h = Any then \<exists>r\<in>set (fh_allow_regexes h). matches path r
     else \<forall>r\<in>set (fh_allow_regexes h). matches path r)"
proof (cases "deny_loop path (fh_deny_regexes h)")
  case (Inl e)
  then have "\<not> (\<forall>r\<in>set (fh_deny_regexes h). \<not> matches path r)"
    unfolding deny_loop_Inr [symmetric] by simp
  then show ?thesis using Inl by (simp add: validate_path_def)
next
  case (Inr u)
  then have "\<forall>r\<in>set (fh_deny_regexes h). \<not> matches path r"
    unfolding deny_loop_Inr [symmetric] by simp
  then show ?thesis using Inr by (simp add: validate_path_def any_loop_iff all_loop_iff Let_def)
qed

lemma validate_path_Inl: "validate_path h path = Inl e \<Longrightarrow> e = Host (Path_forbidden path)"
proof -
  have "deny_loop path rs = Inl e \<Longrightarrow> e = Host (Path_forbidden path)" for rs
    by (induction rs) (auto split: if_splits)
  then show "validate_path h path = Inl e \<Longrightarrow> e = Host (Path_forbidden path)"
    by (cases "deny_loop path (fh_deny_regexes h)")
      (auto simp: validate_path_def Let_def split: if_splits)
qed

text \<open>The names in a path, between its slashes; a hidden one begins with a dot, \<open>..\<close> among them.\<close>

fun path_names :: "string \<Rightarrow> string list" where
  "path_names [] = [[]]"
| "path_names (c # s) = (if c = CHR ''/'' then [] # path_names s
     else (c # hd (path_names s)) # tl (path_names s))"

lemma path_names_ne [simp]: "path_names s \<noteq> []"
  by (cases s) simp_all

lemma path_names_hd: "hd (path_names s) = takeWhile (\<lambda>c. c \<noteq> CHR ''/'') s"
  by (induction s) simp_all

lemma infix_of_Cons: "infix_of w (c # s) \<longleftrightarrow> take (length w) (c # s) = w \<or> infix_of w s"
proof
  assume "infix_of w (c # s)"
  then obtain a b where ab: "c # s = a @ w @ b" by (auto simp: infix_of_def)
  then show "take (length w) (c # s) = w \<or> infix_of w s"
    by (cases a) (simp, auto simp: infix_of_def)
next
  assume "take (length w) (c # s) = w \<or> infix_of w s"
  then show "infix_of w (c # s)"
  proof
    assume "take (length w) (c # s) = w"
    then have "c # s = [] @ w @ drop (length w) (c # s)" by (metis append_Nil append_take_drop_id)
    then show ?thesis unfolding infix_of_def by blast
  next
    assume "infix_of w s"
    then show ?thesis unfolding infix_of_def by (metis append_Cons)
  qed
qed

lemma infix_of_Nil: "infix_of w [] \<longleftrightarrow> w = []"
  by (auto simp: infix_of_def)

definition hidden :: "string \<Rightarrow> bool" where
  "hidden n \<longleftrightarrow> take 1 n = ''.''"

definition dotted :: "string \<Rightarrow> bool" where
  "dotted n \<longleftrightarrow> (\<exists>m. n = m @ ''..'')"

lemma dotted_Cons: "dotted (c # n) \<longleftrightarrow> dotted n \<or> c # n = ''..''"
  by (auto simp: dotted_def Cons_eq_append_conv)

lemma hidden_hd: "hidden (hd (path_names s)) \<longleftrightarrow> take 1 s = ''.''"
  by (cases s) (auto simp: hidden_def)

lemma infix_hidden: "infix_of ''/.'' s \<longleftrightarrow> (\<exists>n\<in>set (tl (path_names s)). hidden n)"
proof (induction s)
  case (Cons c s)
  have "set (path_names s) = insert (hd (path_names s)) (set (tl (path_names s)))"
    by (metis list.set(2) list.collapse path_names_ne)
  then show ?case using Cons by (auto simp: infix_of_Cons hidden_hd numeral_2_eq_2)
qed (simp add: infix_of_Nil)

lemma infix_dotted: "infix_of ''../'' s \<longleftrightarrow> (\<exists>n\<in>set (butlast (path_names s)). dotted n)"
proof (induction s)
  case (Cons c s)
  obtain n ns where n: "path_names s = n # ns" by (cases "path_names s") (use path_names_ne in auto)
  have d: "take 3 (c # s) = ''../'' \<longleftrightarrow> c = CHR ''.'' \<and> n = ''.'' \<and> ns \<noteq> []"
  proof (cases s)
    case (Cons c1 s1)
    then show ?thesis using n by (cases s1) (auto simp: split: if_splits)
  qed (use n in simp)
  have l: "length ''../'' = 3" by simp
  have i: "infix_of ''../'' (c # s) \<longleftrightarrow> c = CHR ''.'' \<and> n = ''.'' \<and> ns \<noteq> [] \<or> infix_of ''../'' s"
    using infix_of_Cons [of "''../''" c s] unfolding l d .
  show ?case
  proof (cases "c = CHR ''/''")
    case True
    then show ?thesis using Cons n i by (auto simp: dotted_def)
  next
    case False
    show ?thesis
    proof (cases "ns = []")
      case True
      then show ?thesis using Cons n False by (simp add: i)
    next
      case ns: False
      then have "butlast (path_names (c # s)) = (c # n) # butlast ns" "butlast (path_names s) = n # butlast ns"
        using n False by simp_all
      then show ?thesis using Cons ns False by (auto simp: i dotted_Cons)
    qed
  qed
qed (simp add: infix_of_Nil)


text \<open>
  C16: With the default deny list, which paths of one line that begin with a slash are accepted: those none of
  whose names is hidden and none of whose directories ends in two dots, and that satisfy the allow list in
  the configured mode; a host without an allow list accepts nothing.
\<close>
theorem default_deny_accepts:
  assumes "fh_deny_regexes h = default_deny_regexes" "list_all not_newline p"
  shows "validate_path h (CHR ''/'' # p) = Inr () \<longleftrightarrow>
    (\<forall>n\<in>set (path_names p). \<not> hidden n) \<and> (\<forall>n\<in>set (butlast (path_names p)). \<not> dotted n) \<and> fh_allow_regexes h \<noteq> [] \<and>
    (if fh_mode h = Any then \<exists>r\<in>set (fh_allow_regexes h). matches (CHR ''/'' # p) r
     else \<forall>r\<in>set (fh_allow_regexes h). matches (CHR ''/'' # p) r)"
proof -
  have line: "list_all not_newline (CHR ''/'' # p)" using assms(2) by (simp add: not_newline_def)
  have "infix_of ''/.'' (CHR ''/'' # p) \<longleftrightarrow> (\<exists>n\<in>set (path_names p). hidden n)"
    "infix_of ''../'' (CHR ''/'' # p) \<longleftrightarrow> (\<exists>n\<in>set (butlast (path_names p)). dotted n)"
    by (simp_all add: infix_hidden infix_dotted dotted_def)
  then show ?thesis
    unfolding validate_path_Inr assms(1)
    by (auto simp: default_deny_regexes_def matches_infix_line [OF line] simp del: Lits.simps)
qed

lemma default_deny_accepts_witness:
  "validate_path ((new_file_host default_host_base)\<lparr>fh_allow_regexes := [any_chars]\<rparr>) ''/a/.b'' \<noteq> Inr () \<and>
   validate_path ((new_file_host default_host_base)\<lparr>fh_allow_regexes := [any_chars]\<rparr>) ''/a/b.c'' = Inr ()"
proof -
  let ?h = "(new_file_host default_host_base)\<lparr>fh_allow_regexes := [any_chars]\<rparr>"
  have "matches ''/a/b.c'' any_chars"
    by (simp add: matches_def regex_match_None_iff run_end_any_chars not_newline_def del: not_None_eq)
  then show ?thesis
    using default_deny_accepts [of ?h "''a/.b''"] default_deny_accepts [of ?h "''a/b.c''"]
    by (simp add: new_file_host_def not_newline_def hidden_def dotted_def)
qed

text \<open>
  Without the slash the first name is not looked at, against the comment that hidden names are denied, and the
  default deny list does not keep a request inside the root: the request path \<open>..\<close> (a request line \<open>GET .. HTTP/1.1\<close>) is accepted by a host that allows everything, and the
  file system is asked for the parent of the root.
\<close>
theorem dot_dot_accepted:
  "validate_path ((new_file_host b)\<lparr>fh_allow_regexes := [any_chars]\<rparr>) ''..'' = Inr ()"
proof -
  have i: "\<not> infix_of w ''..''" if "length w = 3 \<or> w = ''/.''" for w
  proof
    assume "infix_of w ''..''"
    then obtain a c where "''..'' = a @ w @ c" by (auto simp: infix_of_def)
    then have "length w \<le> 2" "set w \<subseteq> {CHR ''.''}"
      by (metis add.commute add_leD1 length_append list.size(3,4) numeral_2_eq_2 One_nat_def plus_1_eq_Suc trans_le_add2 le_refl,
          metis Un_subset_iff empty_set list.simps(15) insert_absorb2 order_refl set_append)
    then show False using that by auto
  qed
  have n: "list_all not_newline ''..''" by (simp add: not_newline_def)
  have "\<not> infix_of ''../'' ''..''" "\<not> infix_of ''/.'' ''..''" using i by simp_all
  moreover have "matches ''..'' any_chars"
    using n by (simp add: matches_def regex_match_None_iff run_end_any_chars del: not_None_eq)
  ultimately show ?thesis
    unfolding validate_path_Inr
    by (simp add: new_file_host_def default_deny_regexes_def matches_infix_line [OF n] del: Lits.simps)
qed

section \<open>What a file host answers\<close>

text \<open>
  The contract between \<open>server::host::file\<close> and its handler: a handler that does not throw builds
  a framed response. Then the host always answers, with a framed response, and never throws.
\<close>

locale file_handler =
  fixes fs :: file_system and h :: file_host and handler :: "'w handler"
  assumes handler_framed: "handler sn rq path w = (Inr x, w') \<Longrightarrow> \<exists>r. x = Some r \<and> framed rq r"
begin

lemma handler_cases:
  obtains e w' where "handler sn rq path w = (Inl e, w')"
  | r w' where "handler sn rq path w = (Inr (Some r), w')" "framed rq r"
proof (cases "handler sn rq path w")
  case (Pair x w')
  then show ?thesis using handler_framed [of sn rq path w] that by (cases x) auto
qed

lemma file_response_answers:
  "\<exists>r w'. file_response fs h handler sn rq w = (Inr (Some r), rq, w') \<and> framed rq r"
proof (cases "locate fs h rq")
  case (Inr path)
  show ?thesis
    by (rule handler_cases [of sn rq path w]) (auto simp: file_response_def Inr)
qed (simp add: file_response_def)

end

sublocale file_handler \<subseteq> final_responder "file_response fs h handler"
proof
  fix sn rq w r rq' w'
  assume "file_response fs h handler sn rq w = (Inr (Some r), rq', w')"
  then show "framed rq' r" using file_response_answers [of sn rq w] by auto
next
  fix sn rq w
  show "fst (file_response fs h handler sn rq w) \<noteq> Inr None"
    using file_response_answers [of sn rq w] by auto
qed

definition file_headers :: "string \<Rightarrow> file_and_mime \<Rightarrow> (string \<times> string) list" where
  "file_headers sn fm = body_headers sn (snd fm) (mf_data (fst fm))"

lemma repr_file_only:
  "repr (status_line st (rq_version rq)) (file_headers sn fm)
     (if rq_method rq = HEAD then [] else mf_data (fst fm)) (file_only_response fm sn rq st)"
proof -
  define r1 where "r1 = add_server_name sn (mk_response st (rq_version rq))"
  define r2 where "r2 = (if snd fm \<noteq> [] then add_header header_content_type (snd fm) r1 else r1)"
  define r3 where "r3 = add_header header_content_length (to_string (length (mf_data (fst fm)))) r2"
  have "repr (status_line st (rq_version rq)) (server_headers sn) [] r1"
    by (simp add: r1_def repr_start)
  then have "repr (status_line st (rq_version rq)) (server_headers sn @
      (if snd fm = [] then [] else [(header_content_type, snd fm)])) [] r2"
    by (simp add: r2_def repr_add_header)
  then have r3: "repr (status_line st (rq_version rq)) (file_headers sn fm) [] r3"
    unfolding r3_def by (auto dest: repr_add_header simp: file_headers_def body_headers_def)
  have "file_only_response fm sn rq st =
      (if rq_method rq \<noteq> HEAD then add_body (outer_buffer (mf_data (fst fm))) r3 else r3)"
    by (simp add: file_only_response_def Let_def r3_def r2_def r1_def mf_size_def outer_buffer_def)
  then show ?thesis using r3 repr_add_outer [OF r3, of "mf_data (fst fm)"] by simp
qed

lemma framed_file_only [simp]: "framed rq (file_only_response fm sn rq st)"
  by (rule framedI [OF repr_file_only, where n = "length (mf_data (fst fm))"])
    (simp_all add: file_headers_def body_headers_def)

lemma files_only_framed: "files_only popen fs sn rq path c = (Inr x, c') \<Longrightarrow> \<exists>r. x = Some r \<and> framed rq r"
  by (auto simp: files_only_def split: if_splits prod.splits sum.splits exn.splits mapped_file_error.splits)

interpretation only: file_handler fs h "files_only popen fs" for fs h popen
  by unfold_locales (rule files_only_framed)

lemma cache_at_files: "cache_at (\<lambda>p u. (load p, u)) path c () = (case map_of c path of
     Some fm \<Rightarrow> (Inr fm, c, ())
   | None \<Rightarrow> (case load path of Inl e \<Rightarrow> (Inl e, c, ()) | Inr fm \<Rightarrow> (Inr fm, (path, fm) # c, ())))"
  by (auto simp: cache_at_def split: option.split sum.split)

text \<open>
  C22: A \<open>GET\<close> or \<open>HEAD\<close> request that resolves to a file which is not cached yet is answered with
  status 200, the MIME type, the length and the bytes of the file as it is now (no body for
  \<open>HEAD\<close>), and from then on the file is cached under its canonical path.
\<close>
theorem file_host_serves:
  assumes loc: "locate fs h rq = Inr path" and load: "load_file popen fs path = Inr (f, mime)"
    and new: "map_of c path = None"
  shows "\<exists>r. file_response fs h (files_only popen fs) sn rq c = (Inr (Some r), rq, (path, f, mime) # c) \<and>
    wire r = Some (render (''HTTP/'' @ version_to_str (rq_version rq) @ '' 200 OK'' @ [CR, LF])
      ((if sn = [] then [] else [(''Server'', sn)]) @ (if mime = [] then [] else [(''Content-Type'', mime)]) @
       [(''Content-Length'', to_string (length (mf_data f)))])
      (if rq_method rq = HEAD then [] else mf_data f))"
proof -
  have m: "rq_method rq = GET \<or> rq_method rq = HEAD"
    using loc by (auto simp: locate_def rbind_Inr_iff validate_method_def split: if_splits)
  have "file_response fs h (files_only popen fs) sn rq c =
      (Inr (Some (file_only_response (f, mime) sn rq status_ok)), rq, (path, f, mime) # c)"
    using m by (auto simp: file_response_def loc files_only_def cache_at_files new load)
  moreover have "wire (file_only_response (f, mime) sn rq status_ok) = Some (render
      (status_line status_ok (rq_version rq)) (file_headers sn (f, mime)) (if rq_method rq = HEAD then [] else mf_data f))"
    using repr_wire [OF repr_file_only [of status_ok rq sn "(f, mime)"]] by simp
  ultimately show ?thesis
    by (simp add: status_line_def status_ok_def file_headers_def body_headers_def server_headers_def header_name_defs)
qed

text \<open>
  C14: The host never throws and never sends a request round again, whatever the file system, the
  external utility and the state of the cache do: an error while resolving the path is answered
  with the page of \<open>error_status\<close>, and every answer is framed for the request.
\<close>
theorem file_host_total:
  "(\<exists>r c'. file_response fs h (files_only popen fs) sn rq c = (Inr (Some r), rq, c') \<and> framed rq r) \<and>
   (\<forall>e. locate fs h rq = Inl e \<longrightarrow> file_response fs h (files_only popen fs) sn rq c =
      (Inr (Some (phony_response sn rq (error_status e))), rq, c))"
  using only.file_response_answers [of fs h popen sn rq c]
  by (auto simp: file_response_def handle_error_def)

text \<open>
  Any method but \<open>GET\<close> and \<open>HEAD\<close> is answered with 403 Forbidden (the code never uses 405
  or 501), before the path is looked at and without touching the cache.
\<close>
theorem file_host_method:
  assumes "rq_method rq \<noteq> GET" "rq_method rq \<noteq> HEAD"
  shows "file_response fs h handler sn rq w =
    (Inr (Some (phony_response sn rq status_forbidden)), rq, w)"
  using assms by (simp add: file_response_def locate_def validate_method_def error_status_def handle_error_def)

section \<open>Witnesses\<close>

text \<open>A file system with one file.\<close>

definition one_file :: "string \<Rightarrow> string \<Rightarrow> file_system" where
  "one_file path text = \<lparr>fs_exists = (\<lambda>p. Inr (p = path)), fs_is_directory = (\<lambda>p. Inr False),
     fs_is_empty = (\<lambda>p. Inr (text = [])), fs_map_region = (\<lambda>p. Inr text),
     fs_canonical = (\<lambda>p b. if p = ''./a.css'' then Inr path else Inl (Fs_error No_such_file_or_directory p)),
     fs_append = (\<lambda>p q. p @ q)\<rparr>"

definition sample_host :: file_host where
  "sample_host = (new_file_host default_host_base)\<lparr>fh_allow_regexes := [any_chars]\<rparr>"

definition sample_get :: request where
  "sample_get = (new_request [])\<lparr>rq_method := GET, rq_version := V_1_1, rq_path := ''/a.css''\<rparr>"

lemma sample_locate: "locate (one_file ''/www/a.css'' ''p{}'') sample_host sample_get = Inr ''/www/a.css''"
proof -
  have "\<not> infix_of w ''/a.css''" if "w = ''../'' \<or> w = ''/.''" for w
  proof
    assume "infix_of w ''/a.css''"
    then obtain a b where s: "''/a.css'' = a @ w @ b" by (auto simp: infix_of_def)
    have "length a \<le> 6" using arg_cong [OF s, of length] by simp
    then have "length a = 0 \<or> length a = 1 \<or> length a = 2 \<or> length a = 3 \<or> length a = 4 \<or>
        length a = 5 \<or> length a = 6" by arith
    moreover have "take (length w) (drop (length a) ''/a.css'') = w" unfolding s by simp
    ultimately show False using that by auto
  qed
  moreover have n: "list_all not_newline ''/a.css''" by (simp add: not_newline_def)
  moreover have "matches ''/a.css'' any_chars"
    using n by (simp add: matches_def regex_match_None_iff run_end_any_chars del: not_None_eq)
  ultimately have "validate_path sample_host ''/a.css'' = Inr ()"
    unfolding validate_path_Inr
    by (simp add: sample_host_def new_file_host_def default_deny_regexes_def matches_infix_line [OF n] del: Lits.simps)
  then show ?thesis
    by (simp add: locate_def sample_get_def validate_method_def one_file_def)
qed

lemma file_host_serves_witness:
  "\<exists>r c. file_response (one_file ''/www/a.css'' ''p{}'') sample_host
      (files_only (\<lambda>c. None) (one_file ''/www/a.css'' ''p{}'')) [] sample_get [] = (Inr (Some r), sample_get, c) \<and>
    wire r = Some (''HTTP/1.1 200 OK'' @ [CR, LF] @ ''Content-Type: text/css'' @ [CR, LF] @
      ''Content-Length: 3'' @ [CR, LF, CR, LF] @ ''p{}'')"
proof -
  have m: "get_file_mime (\<lambda>c. None) default_mime_command ''/www/a.css'' = Inr ''text/css''"
    using extension_mime_split [of "''css''" "''/www/a''"]
    by (simp add: get_file_mime_def is_dot_or_slash_def mime_types_by_extensions_def)
  have l: "load_file (\<lambda>c. None) (one_file ''/www/a.css'' ''p{}'') ''/www/a.css'' =
      Inr (\<lparr>mf_path = ''/www/a.css'', mf_data = ''p{}''\<rparr>, ''text/css'')"
    by (simp add: load_file_def m mk_mapped_file_def one_file_def)
  show ?thesis
    using file_host_serves [OF sample_locate l, of "[]" "[]"]
    by (auto simp: sample_get_def render_def header_text_def to_string.simps numeral_3_eq_3 [symmetric])
qed

lemma file_host_total_witness:
  "\<exists>r. file_response (one_file ''/www/a.css'' ''p{}'') sample_host
      (files_only (\<lambda>c. None) (one_file ''/www/a.css'' ''p{}'')) [] (sample_get\<lparr>rq_method := POST\<rparr>) [] =
    (Inr (Some r), sample_get\<lparr>rq_method := POST\<rparr>, [])"
  using file_host_total [of "one_file ''/www/a.css'' ''p{}''" sample_host "\<lambda>c. None" "[]"
      "sample_get\<lparr>rq_method := POST\<rparr>" "[]"]
  by (auto simp: locate_def validate_method_def)

lemma file_host_method_witness:
  "file_response (one_file ''/www/a.css'' ''p{}'') sample_host
      (files_only (\<lambda>c. None) (one_file ''/www/a.css'' ''p{}'')) [] (sample_get\<lparr>rq_method := DELETE\<rparr>) [] =
    (Inr (Some (phony_response [] (sample_get\<lparr>rq_method := DELETE\<rparr>) status_forbidden)),
     sample_get\<lparr>rq_method := DELETE\<rparr>, [])"
  by (rule file_host_method) simp_all

end
