(* ===== verification/Templatizer.thy ===== *)
theory Templatizer
  imports Http_Response Base_Utils
begin

text \<open>
  \<open>templatizer\<close>: pages with embedded commands. A page is loaded from a mapped file by an
  iterator over the matches of a regular expression; each command becomes a chunk, made by the
  generator registered under its name, and generating the page asks every chunk to add its
  buffers. The model of a page and the local time are parameters.
\<close>

section \<open>Chunks\<close>

text \<open>\<open>raw_chunk\<close> holds its piece of the mapped file, the others their argument \<open>symbol_\<close>.\<close>

datatype chunk =
    Raw string
  | Var_chunk string
  | Tolower_chunk string
  | Toupper_chunk string
  | Date_chunk string
  | Time_chunk string
  | Debug_chunk string

text \<open>\<open>model::variable\<close>: the reference it returns stays valid while the response is sent.\<close>

type_synonym page_model = "string \<Rightarrow> exn + string"

record local_time =
  tm_mday :: nat
  tm_mon :: nat
  tm_year :: nat
  tm_hour :: nat
  tm_min :: nat

definition pad2 :: "nat \<Rightarrow> string" where
  "pad2 n = (if n < 10 then CHR ''0'' # to_string n else to_string n)"

text \<open>\<open>strftime\<close> with \<open>%d.%m.%Y\<close> and \<open>%H:%M\<close>.\<close>

definition date_str :: "local_time \<Rightarrow> string" where
  "date_str t = pad2 (tm_mday t) @ ''.'' @ pad2 (tm_mon t + 1) @ ''.'' @ to_string (1900 + tm_year t)"

definition time_str :: "local_time \<Rightarrow> string" where
  "time_str t = pad2 (tm_hour t) @ '':'' @ pad2 (tm_min t)"

text \<open>The buffers and the strings cache that \<open>generate\<close> fills.\<close>

type_synonym sink = "buffer list \<times> string list"

definition put_outer :: "string \<Rightarrow> sink \<Rightarrow> nat \<times> sink" where
  "put_outer s = (\<lambda>(bs, strs). (length s, bs @ [outer_buffer s], strs))"

definition put_cached :: "string \<Rightarrow> sink \<Rightarrow> nat \<times> sink" where
  "put_cached s = (\<lambda>(bs, strs).
     (length s, bs @ [\<lparr>buf_loc = Cached (length strs), buf_size = length s\<rparr>], strs @ [s]))"

text \<open>A buffer over a temporary string: it is destroyed when the call returns.\<close>

definition put_temporary :: "string \<Rightarrow> sink \<Rightarrow> nat \<times> sink" where
  "put_temporary s = (\<lambda>(bs, strs). (length s, bs @ [\<lparr>buf_loc = Dangling, buf_size = length s\<rparr>], strs))"

text \<open>\<open>generate\<close> of every kind of chunk; only the clock, the model and the sink matter.\<close>

definition raw_generate :: "string \<Rightarrow> sink \<Rightarrow> (exn + nat) \<times> sink" where
  "raw_generate s k = (let (n, k) = put_outer s k in (Inr n, k))"

definition var_generate :: "page_model \<Rightarrow> string \<Rightarrow> sink \<Rightarrow> (exn + nat) \<times> sink" where
  "var_generate m v k = (case m v of
     Inl e \<Rightarrow> (Inl e, k)
   | Inr s \<Rightarrow> (let (n, k) = put_outer s k in (Inr n, k)))"

definition tolower_generate :: "page_model \<Rightarrow> string \<Rightarrow> sink \<Rightarrow> (exn + nat) \<times> sink" where
  "tolower_generate m v k = (case m v of
     Inl e \<Rightarrow> (Inl e, k)
   | Inr s \<Rightarrow> (let (n, k) = put_cached (map to_lower s) k in (Inr n, k)))"

definition toupper_generate :: "page_model \<Rightarrow> string \<Rightarrow> sink \<Rightarrow> (exn + nat) \<times> sink" where
  "toupper_generate m v k = (case m v of
     Inl e \<Rightarrow> (Inl e, k)
   | Inr s \<Rightarrow> (let (n, k) = put_cached (map to_upper s) k in (Inr n, k)))"

definition date_generate :: "local_time \<Rightarrow> sink \<Rightarrow> (exn + nat) \<times> sink" where
  "date_generate now k = (let (n, k) = put_cached (date_str now) k in (Inr n, k))"

definition time_generate :: "local_time \<Rightarrow> sink \<Rightarrow> (exn + nat) \<times> sink" where
  "time_generate now k = (let (n, k) = put_cached (time_str now) k in (Inr n, k))"

definition debug_generate :: "page_model \<Rightarrow> string \<Rightarrow> sink \<Rightarrow> (exn + nat) \<times> sink" where
  "debug_generate m v k = (case m v of
     Inl e \<Rightarrow> (Inl e, k)
   | Inr value \<Rightarrow>
      (let (n1, k) = put_temporary ''DEBUG (length = '' k;
           (n2, k) = put_cached (to_string (length value)) k;
           (n3, k) = put_temporary (''): '' @ [DQUOTE]) k;
           (n4, k) = put_outer value k;
           (n5, k) = put_temporary [DQUOTE] k
       in (Inr (n1 + n2 + n3 + n4 + n5), k)))"

lemmas chunk_generate_defs [simp] = raw_generate_def var_generate_def tolower_generate_def
  toupper_generate_def date_generate_def time_generate_def debug_generate_def

text \<open>The virtual call.\<close>

fun chunk_generate :: "local_time \<Rightarrow> page_model \<Rightarrow> chunk \<Rightarrow> sink \<Rightarrow> (exn + nat) \<times> sink" where
  "chunk_generate now m (Raw s) k = raw_generate s k"
| "chunk_generate now m (Var_chunk v) k = var_generate m v k"
| "chunk_generate now m (Tolower_chunk v) k = tolower_generate m v k"
| "chunk_generate now m (Toupper_chunk v) k = toupper_generate m v k"
| "chunk_generate now m (Date_chunk v) k = date_generate now k"
| "chunk_generate now m (Time_chunk v) k = time_generate now k"
| "chunk_generate now m (Debug_chunk v) k = debug_generate m v k"

fun chunk_symbols :: "chunk \<Rightarrow> string set \<Rightarrow> string set" where
  "chunk_symbols (Raw s) symbols = symbols"
| "chunk_symbols (Var_chunk v) symbols = insert v symbols"
| "chunk_symbols (Tolower_chunk v) symbols = insert v symbols"
| "chunk_symbols (Toupper_chunk v) symbols = insert v symbols"
| "chunk_symbols (Date_chunk v) symbols = insert v symbols"
| "chunk_symbols (Time_chunk v) symbols = insert v symbols"
| "chunk_symbols (Debug_chunk v) symbols = insert v symbols"

section \<open>The registrar\<close>

text \<open>Every module registers its command before \<open>main\<close> starts.\<close>

definition var_cmd :: string where "var_cmd = ''var''"

definition tolower_cmd :: string where "tolower_cmd = ''tolower''"
definition toupper_cmd :: string where "toupper_cmd = ''toupper''"
definition date_cmd :: string where "date_cmd = ''date''"
definition time_cmd :: string where "time_cmd = ''time''"
definition debug_cmd :: string where "debug_cmd = ''debug''"

type_synonym chunk_registrar = "(string, string \<Rightarrow> chunk) registrar"

definition register_chunk :: "string \<Rightarrow> (string \<Rightarrow> chunk) \<Rightarrow> chunk_registrar \<Rightarrow> chunk_registrar" where
  "register_chunk command gen r = snd (mk_module command gen r)"

definition var_module :: "chunk_registrar \<Rightarrow> chunk_registrar" where
  "var_module = register_chunk var_cmd Var_chunk"
definition tolower_module :: "chunk_registrar \<Rightarrow> chunk_registrar" where
  "tolower_module = register_chunk tolower_cmd Tolower_chunk"
definition toupper_module :: "chunk_registrar \<Rightarrow> chunk_registrar" where
  "toupper_module = register_chunk toupper_cmd Toupper_chunk"
definition date_module :: "chunk_registrar \<Rightarrow> chunk_registrar" where
  "date_module = register_chunk date_cmd Date_chunk"
definition time_module :: "chunk_registrar \<Rightarrow> chunk_registrar" where
  "time_module = register_chunk time_cmd Time_chunk"
definition debug_module :: "chunk_registrar \<Rightarrow> chunk_registrar" where
  "debug_module = register_chunk debug_cmd Debug_chunk"

definition default_module_registrar :: chunk_registrar where
  "default_module_registrar =
     debug_module (time_module (date_module (toupper_module (tolower_module (var_module [])))))"

lemma default_module_registrar_def':
  "default_module_registrar = [(var_cmd, Var_chunk), (''tolower'', Tolower_chunk), (''toupper'', Toupper_chunk),
      (''date'', Date_chunk), (''time'', Time_chunk), (''debug'', Debug_chunk)]"
  by (simp add: default_module_registrar_def debug_module_def time_module_def date_module_def
      toupper_module_def tolower_module_def var_module_def register_chunk_def mk_module_def reg_add_def
      var_cmd_def tolower_cmd_def toupper_cmd_def date_cmd_def time_cmd_def debug_cmd_def)

section \<open>Pages\<close>

datatype page_state = Page_ok | Page_file_error | Page_parse_error

record page =
  pg_file :: mapped_file
  pg_state :: page_state
  pg_chunks :: "chunk list"

definition is_open :: "char \<Rightarrow> bool" where
  "is_open c \<longleftrightarrow> c = CHR ''{'' \<or> c = CHR ''(''"

definition is_close :: "char \<Rightarrow> bool" where
  "is_close c \<longleftrightarrow> c = CHR ''}'' \<or> c = CHR '')''"

abbreviation not_close :: "char \<Rightarrow> bool" where
  "not_close c \<equiv> \<not> is_close c"

definition name_regex :: regex where
  "name_regex = Sq (Cls is_name_start) (Star (Cls is_name))"

definition page_regex :: regex where
  "page_regex = Grp 1 (Alt
     (Sq (Lit CHR ''$'') (Sq (Cls is_open) (Sq (Star (Cls is_space)) (Sq (Grp 2 name_regex)
        (Sq (Star (Cls is_space)) (Sq (Grp 3 (Star (Cls not_close))) (Cls is_close)))))))
     (Sq (Lit CHR ''$'') (Grp 4 name_regex)))"

text \<open>The loop over the matches: the text between two matches, then the command.\<close>

fun parse_loop :: "string \<Rightarrow> (nat \<times> nat \<times> caps) list \<Rightarrow> string \<Rightarrow> nat \<Rightarrow> chunk list \<Rightarrow>
    (exn + chunk list \<times> nat)" where
  "parse_loop path [] text old_pos chunks = Inr (chunks, old_pos)"
| "parse_loop path ((current_pos, len, m) # it) text old_pos chunks =
     (let (chunks, old_pos) = (if current_pos \<ge> old_pos
            then (chunks @ [Raw (take (current_pos - old_pos) (drop old_pos text))], current_pos + len)
            else (chunks, old_pos));
          command = group 2 m;
          argument = group 3 m;
          (command, argument) = (if command = [] then (var_cmd, group 4 m) else (command, argument))
      in case reg_module default_module_registrar command of
           Inr chunk_generator \<Rightarrow> parse_loop path it text old_pos (chunks @ [chunk_generator argument])
         | Inl (Out_of_range _) \<Rightarrow> Inl (Templ (Page_err (File_parsing_error path
              (''Module not found: '' @ quoted command))))
         | Inl e \<Rightarrow> Inl e)"

definition parse_page :: "string \<Rightarrow> string \<Rightarrow> exn + chunk list" where
  "parse_page path text = rbind (parse_loop path (regex_iterate page_regex 0 text) text 0 []) (\<lambda>(chunks, old_pos).
     Inr (if old_pos < length text then chunks @ [Raw (take (length text - old_pos) (drop old_pos text))] else chunks))"

definition clear_page :: "page \<Rightarrow> page" where
  "clear_page p = p\<lparr>pg_chunks := [], pg_state := Page_ok\<rparr>"

text \<open>\<open>load()\<close>: the parse error sets the state, then the clause for \<open>std::exception\<close> wraps it.\<close>

definition load_catch :: "exn \<Rightarrow> page \<Rightarrow> (exn + unit) \<times> page" where
  "load_catch e p = (case e of
     Interprocess Invalid_argument_error _ \<Rightarrow> (Inr (), clear_page p)
   | Interprocess _ w \<Rightarrow>
       (Inl (Templ (Page_err (File_mapping_error (mf_path (pg_file p)) w))), p\<lparr>pg_state := Page_file_error\<rparr>)
   | Mapped (Mf_path_not_found _) \<Rightarrow> (Inl (Templ (Page_err (Page_path_not_found (mf_path (pg_file p))))), p)
   | Non_std \<Rightarrow> (Inl Non_std, p)
   | e \<Rightarrow> (Inl (Templ (Page_err (Page_error (what e)))), p))"

definition load :: "page \<Rightarrow> (exn + unit) \<times> page" where
  "load p = (case parse_page (mf_path (pg_file p)) (mf_data (pg_file p)) of
     Inl e \<Rightarrow> load_catch e (p\<lparr>pg_state := Page_parse_error\<rparr>)
   | Inr chunks \<Rightarrow> (Inr (), p\<lparr>pg_chunks := chunks, pg_state := Page_ok\<rparr>))"

text \<open>The constructor: mapping the file happens outside the \<open>try\<close> of \<open>load()\<close>.\<close>

definition mk_page :: "file_system \<Rightarrow> string \<Rightarrow> exn + page" where
  "mk_page fs path = rbind (mk_mapped_file fs path) (\<lambda>f.
     case load \<lparr>pg_file = f, pg_state = Page_ok, pg_chunks = []\<rparr> of
       (Inl e, _) \<Rightarrow> Inl e
     | (Inr _, p) \<Rightarrow> Inr p)"

text \<open>\<open>load(path)\<close> assigns a new page.\<close>

definition load_path :: "file_system \<Rightarrow> string \<Rightarrow> page \<Rightarrow> (exn + unit) \<times> page" where
  "load_path fs path p = (case mk_page fs path of Inl e \<Rightarrow> (Inl e, p) | Inr p' \<Rightarrow> (Inr (), p'))"

definition move_page :: "page \<Rightarrow> page \<times> page" where
  "move_page other = (other, other\<lparr>pg_file := \<lparr>mf_path = [], mf_data = []\<rparr>, pg_state := Page_ok, pg_chunks := []\<rparr>)"

text \<open>The move assignment: \<open>other\<close> is left like a page that was moved from, whatever the page held before.\<close>

definition assign_page :: "page \<Rightarrow> page \<Rightarrow> page \<times> page" where
  "assign_page p other =
     (let p = p\<lparr>pg_file := pg_file other\<rparr>; other = other\<lparr>pg_file := \<lparr>mf_path = [], mf_data = []\<rparr>\<rparr>;
          p = p\<lparr>pg_state := pg_state other, pg_chunks := pg_chunks other\<rparr>;
          other = other\<lparr>pg_chunks := []\<rparr>
      in (p, other\<lparr>pg_state := Page_ok\<rparr>))"

definition empty_page :: page where
  "empty_page = \<lparr>pg_file = \<lparr>mf_path = [], mf_data = []\<rparr>, pg_state = Page_ok, pg_chunks = []\<rparr>"

text \<open>Assigning is moving, nothing of the old page is left; what was moved from is an empty page.\<close>

lemma assign_page_move: "assign_page p other = move_page other" "snd (move_page other) = empty_page"
  by (simp_all add: assign_page_def move_page_def empty_page_def Let_def)

lemma load_path_assigns: "load_path fs path p =
    (case mk_page fs path of Inl e \<Rightarrow> (Inl e, p) | Inr other \<Rightarrow> (Inr (), fst (assign_page p other)))"
  by (simp add: load_path_def assign_page_move move_page_def split: sum.split)

fun generate_loop :: "local_time \<Rightarrow> page_model \<Rightarrow> chunk list \<Rightarrow> nat \<Rightarrow> sink \<Rightarrow> (exn + nat) \<times> sink" where
  "generate_loop now m [] len k = (Inr len, k)"
| "generate_loop now m (c # cs) len k = (case chunk_generate now m c k of
     (Inl e, k) \<Rightarrow> (Inl e, k)
   | (Inr n, k) \<Rightarrow> generate_loop now m cs (len + n) k)"

definition generate :: "local_time \<Rightarrow> page_model \<Rightarrow> page \<Rightarrow> sink \<Rightarrow> (exn + nat) \<times> sink" where
  "generate now m p k = generate_loop now m (pg_chunks p) 0 k"

definition export_symbols :: "page \<Rightarrow> string set \<Rightarrow> string set" where
  "export_symbols p symbols = fold chunk_symbols (pg_chunks p) symbols"

definition page_symbols :: "page \<Rightarrow> string set" where
  "page_symbols p = export_symbols p {}"

definition page_good :: "page \<Rightarrow> bool" where
  "page_good p = (pg_state p = Page_ok)"

definition page_bad :: "page \<Rightarrow> bool" where
  "page_bad p = (\<not> page_good p)"

text \<open>\<open>operator<<\<close> of a \<open>page_printer\<close>: generate into fresh buffers, then write them all.\<close>

definition print_page :: "local_time \<Rightarrow> page_model \<Rightarrow> page \<Rightarrow> exn + string option" where
  "print_page now m p = (case generate now m p ([], []) of
     (Inl e, _) \<Rightarrow> Inl e
   | (Inr _, (bs, strs)) \<Rightarrow>
       Inr (wire_of \<lparr>buffers = bs, headers = [], strings = strs\<rparr> bs))"

section \<open>The scanner\<close>

text \<open>What stands at a \<open>$\<close>: a command with its argument and the text after it.\<close>

definition scan_full :: "string \<Rightarrow> (string \<times> string \<times> string) option" where
  "scan_full t =
     (let t1 = dropWhile is_space t; name = takeWhile is_name t1;
          t2 = dropWhile is_space (dropWhile is_name t1)
      in if t1 \<noteq> [] \<and> is_name_start (hd t1) \<and> list_ex is_close t2
         then Some (name, takeWhile not_close t2, tl (dropWhile not_close t2)) else None)"

fun scan_command :: "string \<Rightarrow> (string \<times> string \<times> string) option" where
  "scan_command (d # o_c # t) =
     (if d = CHR ''$'' then
        (if is_open o_c then scan_full t
         else if is_name_start o_c then Some (var_cmd, takeWhile is_name (o_c # t), dropWhile is_name (o_c # t))
         else None)
      else None)"
| "scan_command _ = None"

lemma scan_full_shorter: "scan_full t = Some (c, a, rest) \<Longrightarrow> length rest \<le> length t"
proof -
  assume "scan_full t = Some (c, a, rest)"
  then have "rest = tl (dropWhile not_close (dropWhile is_space (dropWhile is_name (dropWhile is_space t))))"
    by (simp add: scan_full_def Let_def split: if_splits)
  moreover have "length (tl (dropWhile P xs)) \<le> length xs" for P and xs :: string
    using length_dropWhile_le [of P xs] by simp
  ultimately show ?thesis
    using length_dropWhile_le by (metis order_trans)
qed

lemma scan_command_shorter: "scan_command s = Some (c, a, rest) \<Longrightarrow> length rest < length s"
proof (induction s rule: scan_command.induct)
  case (1 d o_c t)
  have "is_name_start o_c \<Longrightarrow> is_name o_c" by (auto simp: is_name_start_def is_name_def is_alnum_def)
  then show ?case using 1 length_dropWhile_le [of is_name t]
    by (auto split: if_splits dest: scan_full_shorter)
qed simp_all

text \<open>The page as pieces of text, each with the command that follows it, and the rest.\<close>

function scan_page :: "string \<Rightarrow> (string \<times> string \<times> string) list \<times> string" where
  "scan_page s = (case scan_command s of
     Some (c, a, rest) \<Rightarrow> (let (items, tail) = scan_page rest in (([], c, a) # items, tail))
   | None \<Rightarrow> (case s of
       [] \<Rightarrow> ([], [])
     | x # s' \<Rightarrow> (case scan_page s' of
          ([], tail) \<Rightarrow> ([], x # tail)
        | ((raw, c, a) # items, tail) \<Rightarrow> ((x # raw, c, a) # items, tail))))"
  by pat_completeness auto
termination
  by (relation "measure length") (auto dest: scan_command_shorter)

declare scan_page.simps [simp del]

section \<open>The regular expression finds what the scanner finds\<close>

declare dropWhile_eq_Nil_conv [simp del] takeWhile_eq_Nil_iff [simp del]

definition needs :: "regex \<Rightarrow> (char \<Rightarrow> bool) \<Rightarrow> bool" where
  "needs r P \<longleftrightarrow> (\<forall>n s c. (\<forall>x\<in>set s. \<not> P x) \<longrightarrow> run r (n, s, c) = [])"

lemma needs_Cls: "needs (Cls P) P"
  by (auto simp: needs_def split: list.split)

lemma needs_Sq: "needs b P \<Longrightarrow> needs (Sq a b) P"
proof -
  assume b: "needs b P"
  show "needs (Sq a b) P" unfolding needs_def
  proof (intro allI impI)
    fix n s c assume s: "\<forall>x\<in>set s. \<not> P x"
    have "run b st = []" if "st \<in> set (run a (n, s, c))" for st
    proof -
      have "set (mrest st) \<subseteq> set s" using run_suffix [OF that] by auto
      then have "\<forall>x\<in>set (mrest st). \<not> P x" using s by blast
      then show ?thesis using b unfolding needs_def by (cases st) simp
    qed
    then show "run (Sq a b) (n, s, c) = []" by simp
  qed
qed

lemma run_k_Star_first:
  assumes "k (n + length (takeWhile P s), dropWhile P s, c) = st # ys"
  shows "\<exists>ys. run_k (Star (Cls P)) k (n, s, c) = st # ys"
  using assms by (simp add: run_k_def run_Star_Cls_list dropWhile_eq_drop [symmetric] del: run.simps(5))

lemma run_Sq_k: "run (Sq a b) st = run_k a (run b) st"
  by (simp add: run_k_def)

lemma name_start_name: "is_name_start c \<Longrightarrow> is_name c"
  by (auto simp: is_name_start_def is_name_def is_alnum_def)

lemma run_k_name:
  "run_k (Grp i name_regex) k (n, s, c) = (case s of
     [] \<Rightarrow> []
   | x # t \<Rightarrow> if is_name_start x then run_k (Star (Cls is_name))
        (\<lambda>st. k (mpos st, mrest st, (i, take (mpos st - n) s) # mcaps st)) (Suc n, t, c) else [])"
  by (simp add: run_k_Grp name_regex_def run_k_Sq run_k_Cls split: list.split)

lemma run_k_name_first:
  assumes "is_name_start (hd s)" "s \<noteq> []"
    and "k (n + length (takeWhile is_name s), dropWhile is_name s, (i, takeWhile is_name s) # c) = st # ys"
  shows "\<exists>ys. run_k (Grp i name_regex) k (n, s, c) = st # ys"
proof -
  obtain x t where s: "s = x # t" using assms(2) by (cases s) auto
  have x: "is_name_start x" "is_name x" using assms(1) s name_start_name by auto
  have "\<exists>ys. run_k (Star (Cls is_name))
      (\<lambda>st. k (mpos st, mrest st, (i, take (mpos st - n) s) # mcaps st)) (Suc n, t, c) = st # ys"
    by (rule run_k_Star_first) (use assms(3) x s in simp)
  then show ?thesis using x s by (simp add: run_k_name)
qed

lemma close_disjoint: "is_close c \<Longrightarrow> \<not> is_space c" "is_close c \<Longrightarrow> \<not> is_name c"
    "is_open c \<Longrightarrow> \<not> is_name_start c" "is_space c \<Longrightarrow> \<not> is_name_start c"
  by (auto simp: is_close_def is_open_def is_name_def is_name_start_def char_class_defs)

definition full_tail :: regex where
  "full_tail = Sq (Star (Cls is_space)) (Sq (Grp 3 (Star (Cls not_close))) (Cls is_close))"

lemma run_full_tail:
  assumes "list_ex is_close (dropWhile is_space s)"
  shows "\<exists>ys. run full_tail (n, s, c) = (n + length s - length (tl (dropWhile not_close (dropWhile is_space s))),
     tl (dropWhile not_close (dropWhile is_space s)), (3, takeWhile not_close (dropWhile is_space s)) # c) # ys"
proof -
  let ?t = "dropWhile is_space s"
  have "dropWhile not_close ?t \<noteq> []" using assms by (auto simp: dropWhile_eq_Nil_conv list_ex_iff)
  then obtain x u where x: "dropWhile not_close ?t = x # u" "is_close x"
    using hd_dropWhile [of not_close ?t] by (cases "dropWhile not_close ?t") auto
  have len: "length s = length (takeWhile is_space s) + (length (takeWhile not_close ?t) + Suc (length u))"
    using length_take_drop [of is_space s] length_take_drop [of not_close ?t] x by simp
  have rej: "rejects (Cls is_close) not_close" by (rule rejects_Cls) simp
  have "run (Sq (Grp 3 (Star (Cls not_close))) (Cls is_close)) (n + length (takeWhile is_space s), ?t, c) =
      [(n + length s - length u, u, (3, takeWhile not_close ?t) # c)]"
    unfolding run_Sq_Grp_Star_det [OF rej] by (simp add: x len)
  then show ?thesis unfolding full_tail_def run_Sq_k x list.sel
    by (rule run_k_Star_first)
qed

definition full_regex :: regex where
  "full_regex = Sq (Lit CHR ''$'') (Sq (Cls is_open) (Sq (Star (Cls is_space)) (Sq (Grp 2 name_regex) full_tail)))"

lemma run_full_open:
  "run (Sq (Star (Cls is_space)) (Sq (Grp 2 name_regex) full_tail)) (n, t, []) =
     run_k (Grp 2 name_regex) (run full_tail) (n + length (takeWhile is_space t), dropWhile is_space t, [])"
proof -
  have e: "run (Sq (Grp 2 name_regex) full_tail) (m, x # u, []) = []" if "is_space x" for m x u
    using close_disjoint(4) [OF that] unfolding run_Sq_k by (simp add: run_k_name)
  show ?thesis
    using run_k_Star [of is_space "run (Sq (Grp 2 name_regex) full_tail)", OF e]
    by (simp only: run_Sq_k [of "Grp 2 name_regex"] run_Sq_k [of "Star (Cls is_space)"])
qed

lemma set_take_drop: "set xs = set (takeWhile P xs) \<union> set (dropWhile P xs)"
  by (metis set_append takeWhile_dropWhile_id)

lemma run_full_none:
  assumes "scan_full t = None"
  shows "run (Sq (Star (Cls is_space)) (Sq (Grp 2 name_regex) full_tail)) (n, t, []) = []"
proof -
  let ?t1 = "dropWhile is_space t"
  let ?t2 = "dropWhile is_space (dropWhile is_name ?t1)"
  consider "?t1 = []" | "?t1 \<noteq> []" "\<not> is_name_start (hd ?t1)" | "\<not> list_ex is_close ?t2"
  proof -
    have "\<not> (?t1 \<noteq> [] \<and> is_name_start (hd ?t1) \<and> list_ex is_close ?t2)"
    proof
      assume "?t1 \<noteq> [] \<and> is_name_start (hd ?t1) \<and> list_ex is_close ?t2"
      then show False using assms by (simp add: scan_full_def Let_def)
    qed
    then show ?thesis using that by blast
  qed
  then show ?thesis
  proof cases
    case 1
    then show ?thesis unfolding run_full_open by (simp add: run_k_name)
  next
    case 2
    then show ?thesis unfolding run_full_open by (cases ?t1) (simp_all add: run_k_name)
  next
    case 3
    have "\<not> is_close x" if x: "x \<in> set t" for x
    proof -
      have "x \<in> set (takeWhile is_space t) \<or> x \<in> set (takeWhile is_name ?t1) \<or>
          x \<in> set (takeWhile is_space (dropWhile is_name ?t1)) \<or> x \<in> set ?t2"
        using x set_take_drop [of t is_space] set_take_drop [of ?t1 is_name]
          set_take_drop [of "dropWhile is_name ?t1" is_space] by blast
      then show ?thesis using 3 close_disjoint(1,2) [of x]
        by (auto simp: list_ex_iff dest: set_takeWhileD)
    qed
    moreover have "needs (Sq (Star (Cls is_space)) (Sq (Grp 2 name_regex) full_tail)) is_close"
      unfolding full_tail_def by (intro needs_Sq needs_Cls)
    ultimately show ?thesis by (simp add: needs_def del: run.simps)
  qed
qed

lemma run_full_some:
  assumes "scan_full t = Some (cmd, arg, rest)"
  shows "\<exists>ys. run (Sq (Star (Cls is_space)) (Sq (Grp 2 name_regex) full_tail)) (n, t, []) =
    (n + length t - length rest, rest, [(3, arg), (2, cmd)]) # ys"
proof -
  let ?t1 = "dropWhile is_space t"
  let ?s = "dropWhile is_name ?t1"
  have a: "?t1 \<noteq> []" "is_name_start (hd ?t1)" "list_ex is_close (dropWhile is_space ?s)"
    and eq: "cmd = takeWhile is_name ?t1" "arg = takeWhile not_close (dropWhile is_space ?s)"
      "rest = tl (dropWhile not_close (dropWhile is_space ?s))"
    using assms by (auto simp: scan_full_def Let_def split: if_splits)
  let ?n = "n + length (takeWhile is_space t)"
  have len: "?n + length (takeWhile is_name ?t1) + length ?s = n + length t"
    using length_take_drop [of is_space t] length_take_drop [of is_name ?t1] by simp
  obtain ys where "run full_tail (?n + length (takeWhile is_name ?t1), ?s, [(2, cmd)]) =
      (n + length t - length rest, rest, [(3, arg), (2, cmd)]) # ys"
    using run_full_tail [OF a(3), of "?n + length (takeWhile is_name ?t1)" "[(2, cmd)]"]
    unfolding len eq by blast
  then show ?thesis unfolding run_full_open
    by (intro run_k_name_first [OF a(2,1)]) (simp add: eq(1))
qed

definition hit :: "string \<Rightarrow> string \<Rightarrow> caps \<Rightarrow> bool" where
  "hit c a m \<longleftrightarrow> (if group 2 m = [] then (var_cmd, group 4 m) else (group 2 m, group 3 m)) = (c, a)"

lemma run_page_alt:
  "run page_regex (n, s, []) = map (\<lambda>st. (mpos st, mrest st, (1, take (mpos st - n) s) # mcaps st))
     (run full_regex (n, s, []) @ run (Sq (Lit CHR ''$'') (Grp 4 name_regex)) (n, s, []))"
  by (simp add: page_regex_def full_regex_def full_tail_def)

lemma run_full_regex:
  "run full_regex (n, s, []) = (case s of
     d # x # t \<Rightarrow> if d = CHR ''$'' \<and> is_open x
       then run (Sq (Star (Cls is_space)) (Sq (Grp 2 name_regex) full_tail)) (n + 2, t, []) else []
   | _ \<Rightarrow> [])"
  unfolding full_regex_def Lit_def run_Sq_Cls by (simp split: list.split)

lemma run_short_regex:
  "run (Sq (Lit CHR ''$'') (Grp 4 name_regex)) (n, s, []) = (case s of
     d # t \<Rightarrow> if d = CHR ''$'' then run (Grp 4 name_regex) (Suc n, t, []) else [] | _ \<Rightarrow> [])"
  unfolding Lit_def run_Sq_Cls by simp

lemma run_name_none: "s = [] \<or> \<not> is_name_start (hd s) \<Longrightarrow> run (Grp i name_regex) (n, s, c) = []"
  by (cases s) (simp_all add: name_regex_def)

lemma run_name_some:
  assumes "is_name_start (hd s)" "s \<noteq> []"
  shows "\<exists>ys. run (Grp i name_regex) (n, s, c) =
    (n + length (takeWhile is_name s), dropWhile is_name s, (i, takeWhile is_name s) # c) # ys"
proof -
  have r: "run r st = run_k r (\<lambda>st. [st]) st" for r st by (simp add: run_k_def)
  show ?thesis unfolding r by (rule run_k_name_first [OF assms]) simp
qed

lemma run_page_none: "scan_command s = None \<Longrightarrow> run page_regex (n, s, []) = []"
proof -
  assume none: "scan_command s = None"
  have "run full_regex (n, s, []) = []"
    using none by (cases s rule: scan_command.cases)
      (auto simp: run_full_regex run_full_none simp del: run.simps split: if_splits)
  moreover have "run (Sq (Lit CHR ''$'') (Grp 4 name_regex)) (n, s, []) = []"
    using none close_disjoint(3)
    by (cases s rule: scan_command.cases) (auto simp: run_short_regex run_name_none simp del: run.simps split: if_splits)
  ultimately show ?thesis by (simp add: run_page_alt del: run.simps)
qed

lemma run_page_some:
  assumes "scan_command s = Some (c, a, rest)"
  shows "\<exists>m ys. run page_regex (n, s, []) = (n + length s - length rest, rest, m) # ys \<and> hit c a m"
proof -
  obtain x t where s: "s = CHR ''$'' # x # t"
    using assms by (cases s rule: scan_command.cases) (auto split: if_splits)
  show ?thesis
  proof (cases "is_open x")
    case True
    then have f: "scan_full t = Some (c, a, rest)" using assms s by simp
    then have c: "c \<noteq> []"
      by (auto simp: scan_full_def Let_def name_start_name takeWhile_eq_Nil_iff split: if_splits)
    obtain ys where "run full_regex (n, s, []) = (n + 2 + length t - length rest, rest, [(3, a), (2, c)]) # ys"
      using run_full_some [OF f, of "n + 2"] True by (auto simp: run_full_regex s simp del: run.simps)
    then show ?thesis using c
      by (simp add: run_page_alt hit_def group_def s del: run.simps)
  next
    case False
    then have n: "is_name_start x" and eq: "c = var_cmd" "a = takeWhile is_name (x # t)"
      "rest = dropWhile is_name (x # t)" using assms s by (auto split: if_splits)
    obtain ys where ys: "run (Grp 4 name_regex) (Suc n, x # t, []) =
        (Suc n + length a, rest, [(4, a)]) # ys"
      using run_name_some [of "x # t" 4 "Suc n" "[]"] n eq by auto
    have "length a + length rest = Suc (length t)"
      unfolding eq length_take_drop by simp
    then have "Suc n + length a = n + length s - length rest" by (simp add: s)
    moreover have "run full_regex (n, s, []) = []" using False by (simp add: run_full_regex s)
    ultimately show ?thesis using ys
      by (simp add: run_page_alt run_short_regex s hit_def group_def eq(1) del: run.simps)
  qed
qed

lemma consumes_page: "consumes page_regex"
  by (simp add: page_regex_def Lit_def consumes_Grp consumes_Alt consumes_Sq1 consumes_Cls)

text \<open>The matches of the library and the items of the scanner, position by position.\<close>

fun items_at :: "nat \<Rightarrow> (string \<times> string \<times> string) list \<Rightarrow> (nat \<times> nat \<times> caps) list \<Rightarrow> string \<Rightarrow> string \<Rightarrow> bool" where
  "items_at n [] it s tail \<longleftrightarrow> it = [] \<and> s = tail"
| "items_at n ((raw, c, a) # items) it s tail \<longleftrightarrow> (\<exists>len m it' u rest.
     it = (n + length raw, len, m) # it' \<and> hit c a m \<and> s = raw @ u @ rest \<and> len = length u \<and>
     items_at (n + length raw + len) items it' rest tail)"

lemma items_at_shift:
  "items_at (Suc n) items it s tail \<Longrightarrow>
   (case items of [] \<Rightarrow> items_at n [] it (x # s) (x # tail)
    | (raw, c, a) # items \<Rightarrow> items_at n ((x # raw, c, a) # items) it (x # s) tail)"
  by (cases items) fastforce+

lemma regex_iterate_page:
  "scan_page s = (items, tail) \<Longrightarrow> items_at n items (regex_iterate page_regex n s) s tail"
proof (induction s arbitrary: n items tail rule: scan_page.induct)
  case (1 s)
  show ?case
  proof (cases "scan_command s")
    case (Some x)
    obtain c a rest where x: "x = (c, a, rest)" by (metis prod_cases3)
    obtain items' where i: "scan_page rest = (items', tail)" "items = ([], c, a) # items'"
      using "1.prems" Some x by (subst (asm) scan_page.simps) (auto split: prod.splits)
    obtain m ys where r: "run page_regex (n, s, []) = (n + length s - length rest, rest, m) # ys" "hit c a m"
      using run_page_some [of s c a rest n] Some x by auto
    have sh: "length rest < length s" using Some x scan_command_shorter by simp
    obtain u where u: "s = u @ rest" using run_suffix [of "(n + length s - length rest, rest, m)" page_regex "(n, s, [])"] r
      by auto
    have it: "regex_iterate page_regex n s = (n, length u, m) # regex_iterate page_regex (n + length u) rest"
      using regex_iterate_hit [OF r(1) sh] by (simp add: u)
    show ?thesis unfolding i(2) it using "1.IH"(2) [OF Some x [symmetric] refl i(1), of "n + length u"] r(2) u by auto
  next
    case None
    note r = run_page_none [OF None]
    show ?thesis
    proof (cases s)
      case Nil
      then show ?thesis using "1.prems" None r
        by (subst (asm) scan_page.simps) (auto simp: regex_iterate_end)
    next
      case (Cons x t)
      obtain its tl where st: "scan_page t = (its, tl)" by fastforce
      have it: "regex_iterate page_regex n s = regex_iterate page_regex (Suc n) t"
        using regex_iterate_next [OF consumes_page] r Cons by simp
      have it_at: "items_at (Suc n) its (regex_iterate page_regex (Suc n) t) t tl"
        using "1.IH"(1) [OF None Cons st] .
      have pr: "(case (its, tl) of ([], tail) \<Rightarrow> ([], x # tail)
          | ((raw, c, a) # items, tail) \<Rightarrow> ((x # raw, c, a) # items, tail)) = (items, tail)"
        using "1.prems" None Cons st by (subst (asm) scan_page.simps) simp
      show ?thesis
      proof (cases its)
        case Nil
        then show ?thesis using pr it_at it unfolding Cons by auto
      next
        case c: (Cons i its')
        obtain raw c a where "i = (raw, c, a)" by (metis prod_cases3)
        then show ?thesis using pr items_at_shift [OF it_at, of x] it c unfolding Cons by (auto simp del: items_at.simps)
      qed
    qed
  qed
qed

section \<open>Parsed pages\<close>

fun chunks_of :: "(string \<times> string \<times> string) list \<Rightarrow> string + chunk list" where
  "chunks_of [] = Inr []"
| "chunks_of ((raw, c, a) # items) = (case map_of default_module_registrar c of
     None \<Rightarrow> Inl c
   | Some gen \<Rightarrow> rbind (chunks_of items) (\<lambda>cs. Inr (Raw raw # gen a # cs)))"

definition unknown_command :: "string \<Rightarrow> string \<Rightarrow> exn" where
  "unknown_command path c = Templ (Page_err (File_parsing_error path (''Module not found: '' @ quoted c)))"

lemma registrar_not_out: "reg_module default_module_registrar c =
   (case map_of default_module_registrar c of None \<Rightarrow> Inl (Out_of_range ''at'') | Some g \<Rightarrow> Inr g)"
  by (simp add: reg_module_def)

lemma parse_loop_items:
  "items_at (length pre) items it s tail \<Longrightarrow> text = pre @ s \<Longrightarrow>
   parse_loop path it text (length pre) chunks = (case chunks_of items of
     Inl c \<Rightarrow> Inl (unknown_command path c)
   | Inr cs \<Rightarrow> Inr (chunks @ cs, length text - length tail))"
proof (induction items arbitrary: pre it s chunks)
  case Nil
  then show ?case by simp
next
  case (Cons i items)
  obtain raw c a where i: "i = (raw, c, a)" by (metis prod_cases3)
  obtain m it' u rest where it: "it = (length pre + length raw, length u, m) # it'" "hit c a m"
    "s = raw @ u @ rest" "items_at (length (pre @ raw @ u)) items it' rest tail"
    using Cons.prems(1) by (auto simp: i add.assoc)
  have IH: "parse_loop path it' text (length (pre @ raw @ u)) cs' = (case chunks_of items of
     Inl c \<Rightarrow> Inl (unknown_command path c)
   | Inr cs \<Rightarrow> Inr (cs' @ cs, length text - length tail))" for cs'
    by (rule Cons.IH [OF it(4)]) (use Cons.prems(2) it(3) in simp)
  have h: "(if group 2 m = [] then (var_cmd, group 4 m) else (group 2 m, group 3 m)) = (c, a)"
    using it(2) by (simp add: hit_def)
  have raw: "take (length raw) (drop (length pre) text) = raw" using Cons.prems(2) it(3) by simp
  show ?case
  proof (cases "map_of default_module_registrar c")
    case None
    then show ?thesis by (simp add: it(1) h raw registrar_not_out i unknown_command_def)
  next
    case (Some g)
    then show ?thesis using IH [of "chunks @ [Raw raw, g a]"]
      by (cases "chunks_of items") (simp_all add: it(1) h raw registrar_not_out i add.assoc)
  qed
qed

lemma scan_page_tail: "scan_page s = (items, tail) \<Longrightarrow> length tail \<le> length s"
proof -
  assume "scan_page s = (items, tail)"
  from regex_iterate_page [OF this, of 0] have a: "items_at 0 items (regex_iterate page_regex 0 s) s tail" .
  have p: "items_at n items it s tail \<Longrightarrow> length tail \<le> length s" for n it
    by (induction items arbitrary: n it s) fastforce+
  show ?thesis by (rule p [OF a])
qed

lemma scan_page_suffix: "scan_page s = (items, tail) \<Longrightarrow> \<exists>u. s = u @ tail"
proof -
  assume "scan_page s = (items, tail)"
  from regex_iterate_page [OF this, of 0] have a: "items_at 0 items (regex_iterate page_regex 0 s) s tail" .
  have p: "items_at n items it s tail \<Longrightarrow> \<exists>u. s = u @ tail" for n it
  proof (induction items arbitrary: n it s)
    case (Cons i items)
    obtain raw c b where "i = (raw, c, b)" by (metis prod_cases3)
    then show ?case using Cons by (auto simp del: split_paired_Ex) (metis append.assoc)
  qed simp
  show ?thesis by (rule p [OF a])
qed

lemma parse_page_scan:
  assumes "scan_page text = (items, tail)"
  shows "parse_page path text = (case chunks_of items of
     Inl c \<Rightarrow> Inl (unknown_command path c)
   | Inr cs \<Rightarrow> Inr (cs @ (if tail = [] then [] else [Raw tail])))"
proof -
  have "items_at (length ([] :: string)) items (regex_iterate page_regex 0 text) text tail"
    using regex_iterate_page [OF assms, of 0] by simp
  from parse_loop_items [OF this, of "text" path "[]"]
  have l: "parse_loop path (regex_iterate page_regex 0 text) text 0 [] = (case chunks_of items of
     Inl c \<Rightarrow> Inl (unknown_command path c) | Inr cs \<Rightarrow> Inr (cs, length text - length tail))"
    by (simp split: sum.split)
  have le: "length tail \<le> length text" by (rule scan_page_tail [OF assms])
  have tl: "drop (length text - length tail) text = tail"
    using scan_page_suffix [OF assms] by auto
  show ?thesis
  proof (cases "chunks_of items")
    case (Inr cs)
    show ?thesis
    proof (cases "tail = []")
      case False
      then have "length text - length tail < length text" using le by (cases tail) (simp_all add: diff_less_mono2 [of 0, simplified])
      then show ?thesis using False le tl by (simp add: parse_page_def l Inr)
    qed (simp add: parse_page_def l Inr)
  qed (simp add: parse_page_def l)
qed


definition command_ok :: "string \<times> string \<times> string \<Rightarrow> bool" where
  "command_ok = (\<lambda>(raw, c, a). CHR ''$'' \<notin> set raw \<and> c \<noteq> [] \<and> is_name_start (hd c) \<and> list_all is_name c \<and>
     list_all not_close a \<and> (a = [] \<or> \<not> is_space (hd a)))"

definition print_item :: "string \<times> string \<times> string \<Rightarrow> string" where
  "print_item = (\<lambda>(raw, c, a). raw @ ''${'' @ c @ '' '' @ a @ ''}'')"

lemma scan_full_printed:
  assumes "command_ok (raw, c, a)" "is_close q"
  shows "scan_full (c @ '' '' @ a @ [q] @ rest) = Some (c, a, rest)"
proof -
  have c: "c \<noteq> []" "is_name_start (hd c)" "\<forall>x\<in>set c. is_name x" "\<forall>x\<in>set a. not_close x"
    using assms by (auto simp: command_ok_def list_all_iff)
  have sp: "\<not> is_space (hd c)" using c(2) close_disjoint(4) by blast
  have d1: "dropWhile is_space (c @ '' '' @ a @ [q] @ rest) = c @ '' '' @ a @ [q] @ rest"
    using c(1) sp by (cases c) simp_all
  have n: "takeWhile is_name (c @ '' '' @ a @ [q] @ rest) = c"
    "dropWhile is_name (c @ '' '' @ a @ [q] @ rest) = '' '' @ a @ [q] @ rest"
    using c(3) by (simp_all add: takeWhile_all dropWhile_all is_name_def char_class_defs)
  have br: "is_close q" "\<not> is_space q" "is_space CHR '' ''" using assms(2) by (auto simp: is_close_def is_space_def)
  have d2: "dropWhile is_space ('' '' @ a @ [q] @ rest) = a @ [q] @ rest"
    using assms br by (cases a) (auto simp: command_ok_def)
  have a: "takeWhile not_close (a @ [q] @ rest) = a" "dropWhile not_close (a @ [q] @ rest) = [q] @ rest"
    using c(4) br by (simp_all add: takeWhile_all dropWhile_all)
  show ?thesis unfolding scan_full_def Let_def d1 n d2 a using c(1,2) br by simp
qed

lemma scan_page_raw:
  assumes "CHR ''$'' \<notin> set raw" "scan_page s = (items, tail)"
  shows "scan_page (raw @ s) = (case items of [] \<Rightarrow> ([], raw @ tail)
     | (r, c, a) # items \<Rightarrow> ((raw @ r, c, a) # items, tail))"
  using assms(1)
proof (induction raw)
  case Nil
  then show ?case using assms(2) by (auto split: list.split)
next
  case (Cons x raw)
  have "scan_command (x # raw @ s) = None"
    using Cons.prems by (cases "raw @ s") auto
  then show ?case using Cons by (subst scan_page.simps) (auto split: list.split)
qed

lemma scan_page_printed:
  "list_all command_ok items \<Longrightarrow> CHR ''$'' \<notin> set tail \<Longrightarrow>
   scan_page (concat (map print_item items) @ tail) = (items, tail)"
proof (induction items)
  case Nil
  have "scan_page [] = ([], [])" by (subst scan_page.simps) simp
  from scan_page_raw [OF Nil.prems(2) this] show ?case by simp
next
  case (Cons i items)
  obtain raw c a where i: "i = (raw, c, a)" by (metis prod_cases3)
  let ?rest = "concat (map print_item items) @ tail"
  have ok: "command_ok (raw, c, a)" using Cons.prems(1) i by simp
  have IH: "scan_page ?rest = (items, tail)" using Cons by simp
  have "scan_command (''${'' @ c @ '' '' @ a @ ''}'' @ ?rest) = Some (c, a, ?rest)"
    using scan_full_printed [OF ok, of "CHR ''}''" ?rest] by (simp add: is_open_def is_close_def)
  then have "scan_page (''${'' @ c @ '' '' @ a @ ''}'' @ ?rest) = (([], c, a) # items, tail)"
    by (subst scan_page.simps) (simp add: IH)
  moreover have "CHR ''$'' \<notin> set raw" using ok by (simp add: command_ok_def)
  ultimately have "scan_page (raw @ ''${'' @ c @ '' '' @ a @ ''}'' @ ?rest) = ((raw, c, a) # items, tail)"
    using scan_page_raw by fastforce
  then show ?case by (simp add: i print_item_def)
qed

text \<open>
  Pages as the comment in \<open>page.cpp\<close> describes them: the full form with either bracket, whose arguments are at
  most a name, and the short form of \<open>var\<close>; a name has letters, digits and underscores and does not begin
  with a digit.
\<close>

datatype directive = Braces string string | Parens string string | Short string

fun directive_text :: "directive \<Rightarrow> string" where
  "directive_text (Braces c a) = ''${'' @ c @ '' '' @ a @ ''}''"
| "directive_text (Parens c a) = ''$('' @ c @ '' '' @ a @ '')''"
| "directive_text (Short v) = ''$'' @ v"

fun directive_call :: "directive \<Rightarrow> string \<times> string" where
  "directive_call (Braces c a) = (c, a)"
| "directive_call (Parens c a) = (c, a)"
| "directive_call (Short v) = (var_cmd, v)"

definition plain_name :: "string \<Rightarrow> bool" where
  "plain_name v \<longleftrightarrow> v \<noteq> [] \<and> is_name_start (hd v) \<and> list_all is_name v"

fun directive_ok :: "directive \<Rightarrow> bool" where
  "directive_ok (Short v) = plain_name v"
| "directive_ok (Braces c a) = (plain_name c \<and> (a = [] \<or> plain_name a))"
| "directive_ok (Parens c a) = (plain_name c \<and> (a = [] \<or> plain_name a))"

text \<open>A page: pieces of text, each before a command, and what follows the last. A short form ends where its name ends.\<close>

fun page_text :: "(string \<times> directive) list \<Rightarrow> string \<Rightarrow> string" where
  "page_text [] tail = tail"
| "page_text ((raw, d) # parts) tail = raw @ directive_text d @ page_text parts tail"

fun page_ok :: "(string \<times> directive) list \<Rightarrow> string \<Rightarrow> bool" where
  "page_ok [] tail = (CHR ''$'' \<notin> set tail)"
| "page_ok ((raw, d) # parts) tail = (CHR ''$'' \<notin> set raw \<and> directive_ok d \<and> page_ok parts tail \<and>
     ((\<exists>v. d = Short v) \<longrightarrow> page_text parts tail = [] \<or> \<not> is_name (hd (page_text parts tail))))"

definition page_items :: "(string \<times> directive) list \<Rightarrow> (string \<times> string \<times> string) list" where
  "page_items parts = map (\<lambda>(raw, d). (raw, directive_call d)) parts"

lemma name_not_space: "is_name_start c \<Longrightarrow> \<not> is_space c" "is_name c \<Longrightarrow> not_close c"
  using close_disjoint(2,4) by blast+

lemma brackets: "is_open CHR ''{''" "is_open CHR ''(''" "is_close CHR ''}''" "is_close CHR '')''"
  by (simp_all add: is_open_def is_close_def)

lemma full_command_ok:
  assumes "plain_name c" "a = [] \<or> plain_name a"
  shows "command_ok ([], c, a)"
  using assms name_not_space by (auto simp: command_ok_def plain_name_def list_all_iff)

lemma scan_directive:
  assumes "directive_ok d" "(\<exists>v. d = Short v) \<longrightarrow> rest = [] \<or> \<not> is_name (hd rest)"
  shows "scan_command (directive_text d @ rest) = Some (fst (directive_call d), snd (directive_call d), rest)"
proof (cases d)
  case (Braces c a)
  then have "command_ok ([], c, a)" using assms(1) full_command_ok by simp
  from scan_full_printed [OF this brackets(3), of rest] show ?thesis by (simp add: Braces brackets)
next
  case (Parens c a)
  then have "command_ok ([], c, a)" using assms(1) full_command_ok by simp
  from scan_full_printed [OF this brackets(4), of rest] show ?thesis by (simp add: Parens brackets)
next
  case (Short v)
  then obtain x v' where v: "v = x # v'" "is_name_start x" "\<forall>y\<in>set v. is_name y"
    using assms(1) by (cases v) (auto simp: plain_name_def list_all_iff)
  have r: "rest = [] \<or> \<not> is_name (hd rest)" using assms(2) Short by blast
  then have "takeWhile is_name rest = [] \<and> dropWhile is_name rest = rest" by (cases rest) simp_all
  then have "takeWhile is_name (v @ rest) = v" "dropWhile is_name (v @ rest) = rest"
    using v(3) by (simp_all add: takeWhile_all dropWhile_all)
  moreover have "\<not> is_open x" using v(2) close_disjoint(3) by blast
  ultimately show ?thesis using v(1,2) by (simp add: Short)
qed

lemma scan_page_parts: "page_ok parts tail \<Longrightarrow> scan_page (page_text parts tail) = (page_items parts, tail)"
proof (induction parts)
  case Nil
  have "scan_page [] = ([], [])" by (subst scan_page.simps) simp
  from scan_page_raw [OF _ this, of tail] Nil show ?case by (simp add: page_items_def)
next
  case (Cons p parts)
  obtain raw d where p: "p = (raw, d)" by (cases p)
  let ?rest = "page_text parts tail"
  have "scan_command (directive_text d @ ?rest) = Some (fst (directive_call d), snd (directive_call d), ?rest)"
    using Cons.prems p by (intro scan_directive) auto
  then have "scan_page (directive_text d @ ?rest) = (([], directive_call d) # page_items parts, tail)"
    using Cons p by (subst scan_page.simps) simp
  moreover have "CHR ''$'' \<notin> set raw" using Cons.prems p by simp
  ultimately have "scan_page (raw @ directive_text d @ ?rest) = ((raw, directive_call d) # page_items parts, tail)"
    using scan_page_raw [of raw "directive_text d @ ?rest"] by (cases "directive_call d") fastforce
  then show ?case by (simp add: p page_items_def)
qed

text \<open>
  C15: A page file written as the comment in \<open>page.cpp\<close> says is read back exactly: the pieces of text and the
  commands, in the full form with braces or parentheses or in the short form of \<open>var\<close>, become alternating
  chunks, and what follows the last command is the last chunk; the first command that does not exist makes
  the page an error that names it. Text is anything without a dollar sign, line breaks included.
\<close>
theorem page_roundtrip:
  assumes "page_ok parts tail"
  shows "parse_page path (page_text parts tail) = (case chunks_of (page_items parts) of
     Inl c \<Rightarrow> Inl (unknown_command path c)
   | Inr cs \<Rightarrow> Inr (cs @ (if tail = [] then [] else [Raw tail])))"
  by (rule parse_page_scan [OF scan_page_parts [OF assms]])

lemma page_roundtrip_witness:
  "parse_page ''p'' (''Hi ${tolower name}, $(var a_1) or $b2!'') =
     Inr [Raw ''Hi '', Tolower_chunk ''name'', Raw '', '', Var_chunk ''a_1'', Raw '' or '', Var_chunk ''b2'', Raw ''!'']"
proof -
  let ?parts = "[(''Hi '', Braces ''tolower'' ''name''), ('', '', Parens ''var'' ''a_1''), ('' or '', Short ''b2'')]"
  have o: "page_ok ?parts ''!''"
    by (simp add: plain_name_def is_name_start_def is_name_def char_class_defs)
  have d: "map_of default_module_registrar ''var'' = Some Var_chunk" "map_of default_module_registrar ''tolower'' = Some Tolower_chunk"
    by (simp_all add: default_module_registrar_def' var_cmd_def)
  show ?thesis using page_roundtrip [OF o, of "''p''"] by (simp add: page_items_def var_cmd_def d)
qed

text \<open>
  The comment allows spaces around a name, but not line breaks. The code skips both before an argument, and after
  it keeps everything up to the bracket: \<open>${var name }\<close> asks for a variable whose name ends with the space.
\<close>

theorem space_around_name:
  "parse_page path ''${var name }'' = Inr [Raw [], Var_chunk ''name '']"
  "parse_page path (''${var'' @ [LF] @ ''name}'') = Inr [Raw [], Var_chunk ''name'']"
proof -
  have d: "map_of default_module_registrar ''var'' = Some Var_chunk"
    by (simp add: default_module_registrar_def' var_cmd_def)
  have "scan_page ''${var name }'' = ([([], ''var'', ''name '')], [])" "scan_page (''${var'' @ [LF] @ ''name}'') = ([([], ''var'', ''name'')], [])"
    by (simp_all add: scan_page.simps scan_full_def Let_def is_open_def is_close_def is_name_start_def is_name_def is_space_def char_class_defs)
  then show "parse_page path ''${var name }'' = Inr [Raw [], Var_chunk ''name '']"
    "parse_page path (''${var'' @ [LF] @ ''name}'') = Inr [Raw [], Var_chunk ''name'']"
    by (simp_all add: parse_page_scan d)
qed

section \<open>Generated pages\<close>

text \<open>What a chunk stands for.\<close>

fun chunk_text :: "local_time \<Rightarrow> page_model \<Rightarrow> chunk \<Rightarrow> exn + string" where
  "chunk_text now m (Raw s) = Inr s"
| "chunk_text now m (Var_chunk v) = m v"
| "chunk_text now m (Tolower_chunk v) = rbind (m v) (\<lambda>s. Inr (map to_lower s))"
| "chunk_text now m (Toupper_chunk v) = rbind (m v) (\<lambda>s. Inr (map to_upper s))"
| "chunk_text now m (Date_chunk v) = Inr (date_str now)"
| "chunk_text now m (Time_chunk v) = Inr (time_str now)"
| "chunk_text now m (Debug_chunk v) = rbind (m v) (\<lambda>s.
     Inr (''DEBUG (length = '' @ to_string (length s) @ ''): '' @ quoted s))"

fun chunks_text :: "local_time \<Rightarrow> page_model \<Rightarrow> chunk list \<Rightarrow> exn + string" where
  "chunks_text now m [] = Inr []"
| "chunks_text now m (c # cs) = rbind (chunk_text now m c) (\<lambda>s. rbind (chunks_text now m cs) (\<lambda>t. Inr (s @ t)))"

fun is_debug :: "chunk \<Rightarrow> bool" where
  "is_debug (Debug_chunk _) = True"
| "is_debug _ = False"

definition sink_wire :: "sink \<Rightarrow> string option" where
  "sink_wire = (\<lambda>(bs, strs). wire_of \<lparr>buffers = bs, headers = [], strings = strs\<rparr> bs)"

lemma wire_of_more_strings:
  "wire_of \<lparr>buffers = bs, headers = h, strings = strs\<rparr> cs = Some w \<Longrightarrow>
   wire_of \<lparr>buffers = bs', headers = h, strings = strs @ xs\<rparr> cs = Some w"
proof -
  assume a: "wire_of \<lparr>buffers = bs, headers = h, strings = strs\<rparr> cs = Some w"
  from wire_of_cache [OF a, of xs]
  have "wire_of \<lparr>buffers = bs, headers = h, strings = strs @ xs\<rparr> cs = Some w" by simp
  moreover have "wire_of \<lparr>buffers = bs', headers = h, strings = strs @ xs\<rparr> cs =
      wire_of \<lparr>buffers = bs, headers = h, strings = strs @ xs\<rparr> cs"
    by (rule wire_of_cong) (simp add: deref_def split: location.splits)
  ultimately show ?thesis by simp
qed

lemma put_outer_wire: "sink_wire k = Some w \<Longrightarrow> put_outer s k = (n, k') \<Longrightarrow>
    n = length s \<and> sink_wire k' = Some (w @ s)"
proof -
  assume a: "sink_wire k = Some w" "put_outer s k = (n, k')"
  obtain bs strs where k: "k = (bs, strs)" by fastforce
  have "wire_of \<lparr>buffers = bs @ [outer_buffer s], headers = [], strings = strs @ []\<rparr> bs = Some w"
    by (rule wire_of_more_strings) (use a(1) k in \<open>simp add: sink_wire_def\<close>)
  then show ?thesis using a(2)
    by (auto simp: k put_outer_def sink_wire_def wire_of_append deref_def outer_buffer_def)
qed

lemma put_cached_wire: "sink_wire k = Some w \<Longrightarrow> put_cached s k = (n, k') \<Longrightarrow>
    n = length s \<and> sink_wire k' = Some (w @ s)"
proof -
  assume a: "sink_wire k = Some w" "put_cached s k = (n, k')"
  obtain bs strs where k: "k = (bs, strs)" by fastforce
  have "wire_of \<lparr>buffers = bs @ [\<lparr>buf_loc = Cached (length strs), buf_size = length s\<rparr>], headers = [],
      strings = strs @ [s]\<rparr> bs = Some w"
    by (rule wire_of_more_strings) (use a(1) k in \<open>simp add: sink_wire_def\<close>)
  then show ?thesis using a(2)
    by (auto simp: k put_cached_def sink_wire_def wire_of_append deref_def)
qed

lemma chunk_generate_wire:
  assumes "sink_wire k = Some w" "\<not> is_debug c"
  shows "case chunk_text now m c of
     Inl e \<Rightarrow> chunk_generate now m c k = (Inl e, k)
   | Inr s \<Rightarrow> \<exists>k'. chunk_generate now m c k = (Inr (length s), k') \<and> sink_wire k' = Some (w @ s)"
proof -
  have o: "put_outer s k = (length s, snd (put_outer s k))" "sink_wire (snd (put_outer s k)) = Some (w @ s)" for s
    using put_outer_wire [OF assms(1), of s] by (cases "put_outer s k"; simp)+
  have p: "put_cached s k = (length s, snd (put_cached s k))" "sink_wire (snd (put_cached s k)) = Some (w @ s)" for s
    using put_cached_wire [OF assms(1), of s] by (cases "put_cached s k"; simp)+
  have o': "(let (n, k) = put_outer s k in (Inr n, k)) = (Inr (length s), snd (put_outer s k))" for s
    using o(1) [of s] by (metis case_prod_conv)
  have p': "(let (n, k) = put_cached s k in (Inr n, k)) = (Inr (length s), snd (put_cached s k))" for s
    using p(1) [of s] by (metis case_prod_conv)
  show ?thesis
  proof (cases c)
    case (Raw s) then show ?thesis using o(2) by (simp add: o')
  next
    case (Var_chunk v) then show ?thesis using o(2) by (cases "m v") (simp_all add: o')
  next
    case (Tolower_chunk v)
    then show ?thesis using p(2) by (cases "m v") (simp_all add: p')
  next
    case (Toupper_chunk v)
    then show ?thesis using p(2) by (cases "m v") (simp_all add: p')
  next
    case (Date_chunk v) then show ?thesis using p(2) by (simp add: p')
  next
    case (Time_chunk v) then show ?thesis using p(2) by (simp add: p')
  next
    case (Debug_chunk v) then show ?thesis using assms(2) by simp
  qed
qed

lemma generate_loop_wire:
  assumes "sink_wire k = Some w" "\<forall>c\<in>set cs. \<not> is_debug c"
  shows "case chunks_text now m cs of
     Inl e \<Rightarrow> \<exists>k'. generate_loop now m cs len k = (Inl e, k')
   | Inr s \<Rightarrow> \<exists>k'. generate_loop now m cs len k = (Inr (len + length s), k') \<and> sink_wire k' = Some (w @ s)"
  using assms
proof (induction cs arbitrary: k w len)
  case (Cons c cs)
  have nd: "\<not> is_debug c" "\<forall>c\<in>set cs. \<not> is_debug c" using Cons.prems(2) by auto
  note g = chunk_generate_wire [OF Cons.prems(1) nd(1), of now m]
  show ?case
  proof (cases "chunk_text now m c")
    case (Inl e)
    then show ?thesis using g by simp
  next
    case (Inr s)
    then obtain k' where k': "chunk_generate now m c k = (Inr (length s), k')" "sink_wire k' = Some (w @ s)"
      using g by auto
    from Cons.IH [OF k'(2) nd(2), of "len + length s"] show ?thesis using Inr k'(1)
      by (cases "chunks_text now m cs") (auto simp: add.assoc)
  qed
qed simp

text \<open>
  C27: Generating a page without debug chunks adds buffers that hold exactly the text of the page
  with every command replaced by what it stands for, and returns the length of that text, which
  becomes the \<open>Content-Length\<close>; if a variable is missing, the exception of the model is thrown.
\<close>
theorem page_generates:
  assumes "\<forall>c\<in>set (pg_chunks p). \<not> is_debug c"
  shows "case chunks_text now m (pg_chunks p) of
     Inl e \<Rightarrow> fst (generate now m p ([], [])) = Inl e \<and> print_page now m p = Inl e
   | Inr s \<Rightarrow> fst (generate now m p ([], [])) = Inr (length s) \<and> print_page now m p = Inr (Some s)"
proof -
  have "sink_wire ([], []) = Some []" by (simp add: sink_wire_def)
  from generate_loop_wire [OF this assms, of now m 0] show ?thesis
    by (auto simp: generate_def print_page_def sink_wire_def split: sum.splits)
qed

definition sample_time :: local_time where
  "sample_time = \<lparr>tm_mday = 1, tm_mon = 0, tm_year = 116, tm_hour = 12, tm_min = 5\<rparr>"

definition sample_page :: page where
  "sample_page = \<lparr>pg_file = \<lparr>mf_path = ''p'', mf_data = ''Hi ${var n}''\<rparr>, pg_state = Page_ok,
     pg_chunks = [Raw ''Hi '', Var_chunk ''n'']\<rparr>"

definition sample_model :: page_model where
  "sample_model v = (if v = ''n'' then Inr ''Bob'' else Inl (Templ (Model_err (Variable_not_found v))))"

lemma page_generates_witness:
  "print_page sample_time sample_model sample_page = Inr (Some ''Hi Bob'')"
proof -
  have d: "\<forall>c\<in>set (pg_chunks sample_page). \<not> is_debug c" by (simp add: sample_page_def)
  have t: "chunks_text sample_time sample_model (pg_chunks sample_page) = Inr ''Hi Bob''"
    by (simp add: sample_page_def sample_model_def)
  show ?thesis using page_generates [OF d, of sample_time sample_model] by (simp add: t)
qed

section \<open>Symbols and errors\<close>

lemma export_symbols_union: "fold chunk_symbols cs symbols = fold chunk_symbols cs {} \<union> symbols"
proof (induction cs arbitrary: symbols)
  case (Cons c cs)
  have "chunk_symbols c symbols = chunk_symbols c {} \<union> symbols" by (cases c) auto
  then show ?case using Cons [of "chunk_symbols c symbols"] Cons [of "chunk_symbols c {}"] by simp blast
qed simp

lemma chunk_generate_cong:
  "(\<And>v. v \<in> chunk_symbols c {} \<Longrightarrow> m v = m' v) \<Longrightarrow> chunk_generate now m c k = chunk_generate now m' c k"
  by (cases c) auto

lemma chunk_generate_ok:
  "(\<And>v. v \<in> chunk_symbols c {} \<Longrightarrow> \<exists>s. m v = Inr s) \<Longrightarrow> \<exists>n k'. chunk_generate now m c k = (Inr n, k')"
  by (cases c) (auto simp: split_beta)

text \<open>
  C28: \<open>symbols()\<close> is enough to render a page: the result depends on the model only through these
  names, and a model that defines all of them never makes the page throw.
\<close>
theorem page_symbols_suffice:
  "((\<forall>v\<in>page_symbols p. m v = m' v) \<longrightarrow> generate now m p k = generate now m' p k) \<and>
   ((\<forall>v\<in>page_symbols p. \<exists>s. m v = Inr s) \<longrightarrow> (\<exists>n k'. generate now m p k = (Inr n, k')))"
proof -
  have sub: "chunk_symbols c {} \<subseteq> fold chunk_symbols (c # cs) {}" "fold chunk_symbols cs {} \<subseteq> fold chunk_symbols (c # cs) {}" for c cs
    using export_symbols_union [of cs "chunk_symbols c {}"] by auto
  have cong: "(\<forall>v\<in>fold chunk_symbols cs {}. m v = m' v) \<Longrightarrow> generate_loop now m cs len k = generate_loop now m' cs len k" for cs len
  proof (induction cs arbitrary: len k)
    case (Cons c cs)
    have "chunk_generate now m c k = chunk_generate now m' c k"
      using Cons.prems sub(1) [of c cs] by (intro chunk_generate_cong) blast
    moreover have "\<forall>v\<in>fold chunk_symbols cs {}. m v = m' v" using Cons.prems sub(2) [of cs c] by blast
    ultimately show ?case using Cons.IH by (simp split: prod.split sum.split)
  qed simp
  have ok: "(\<forall>v\<in>fold chunk_symbols cs {}. \<exists>s. m v = Inr s) \<Longrightarrow> \<exists>n k'. generate_loop now m cs len k = (Inr n, k')" for cs len
  proof (induction cs arbitrary: len k)
    case (Cons c cs)
    have "\<exists>n k'. chunk_generate now m c k = (Inr n, k')"
      using Cons.prems sub(1) [of c cs] by (intro chunk_generate_ok) blast
    moreover have "\<forall>v\<in>fold chunk_symbols cs {}. \<exists>s. m v = Inr s" using Cons.prems sub(2) [of cs c] by blast
    ultimately show ?case using Cons.IH by auto
  qed simp
  show ?thesis using cong ok
    by (simp add: generate_def page_symbols_def export_symbols_def)
qed

lemma page_symbols_suffice_witness:
  "\<exists>n k'. generate sample_time sample_model sample_page ([], []) = (Inr n, k')"
proof -
  have "\<forall>v\<in>page_symbols sample_page. \<exists>s. sample_model v = Inr s"
    by (simp add: page_symbols_def export_symbols_def sample_page_def sample_model_def)
  then show ?thesis using page_symbols_suffice [of sample_page sample_model sample_model sample_time "([], [])"] by blast
qed

text \<open>
  A debug chunk announces a length but leaves three of its five buffers pointing to strings
  that are destroyed when \<open>generate\<close> returns: the page is generated without an error and what is
  sent for it is undefined.
\<close>
theorem debug_chunk_dangles:
  assumes "pg_chunks p = [Debug_chunk v]" "m v = Inr s"
  shows "fst (generate now m p ([], [])) = Inr (length (''DEBUG (length = '' @ to_string (length s) @ ''): '' @ quoted s)) \<and>
    print_page now m p = Inr None"
proof -
  have "chunk_generate now m (Debug_chunk v) ([], []) =
      (Inr (16 + length (to_string (length s)) + 4 + length s + 1),
       [\<lparr>buf_loc = Dangling, buf_size = 16\<rparr>, \<lparr>buf_loc = Cached 0, buf_size = length (to_string (length s))\<rparr>,
        \<lparr>buf_loc = Dangling, buf_size = 4\<rparr>, outer_buffer s, \<lparr>buf_loc = Dangling, buf_size = 1\<rparr>],
       [to_string (length s)])"
    using assms(2) by (simp add: put_temporary_def put_cached_def put_outer_def)
  then show ?thesis using assms(1)
    by (simp add: generate_def print_page_def deref_def quoted_def)
qed

lemma debug_chunk_dangles_witness:
  "print_page sample_time sample_model (sample_page\<lparr>pg_chunks := [Debug_chunk ''n'']\<rparr>) = Inr None"
  using debug_chunk_dangles [of "sample_page\<lparr>pg_chunks := [Debug_chunk ''n'']\<rparr>" "''n''" sample_model "''Bob''" sample_time]
  by (simp add: sample_model_def)

text \<open>
  A page with an unknown command is never reported as a \<open>file_parsing_error\<close>: \<open>load\<close> catches
  its own exception, so the constructor throws a \<open>page_error\<close> whose message carries the prefix
  of the templatizer twice; and a missing file is reported by \<open>base::path_not_found\<close>, which is not
  a templatizer error, because the file is mapped outside the \<open>try\<close>.
\<close>
theorem page_error_wrapped:
  assumes "mk_mapped_file fs path = Inr f" "scan_page (mf_data f) = (items, tail)" "chunks_of items = Inl c"
  shows "mk_page fs path = Inl (Templ (Page_err (Page_error
    (''Templatizer: Page: '' @ page_error_arg (File_parsing_error (mf_path f) (''Module not found: '' @ quoted c))))))"
  using assms(1,3) parse_page_scan [OF assms(2), of "mf_path f"]
  by (simp add: mk_page_def load_def load_catch_def unknown_command_def templatizer_error_what_def)

lemma page_error_wrapped_witness:
  "\<exists>msg. mk_page \<lparr>fs_exists = (\<lambda>p. Inr True), fs_is_directory = (\<lambda>p. Inr False), fs_is_empty = (\<lambda>p. Inr False),
     fs_map_region = (\<lambda>p. Inr ''${foo }''), fs_canonical = (\<lambda>p b. Inr p), fs_append = (\<lambda>p q. p @ q)\<rparr> ''a'' =
   Inl (Templ (Page_err (Page_error msg)))"
proof -
  have o: "list_all command_ok [([], ''foo'', [])]"
    by (simp add: command_ok_def is_name_start_def is_name_def char_class_defs)
  have s: "scan_page (mf_data \<lparr>mf_path = ''a'', mf_data = ''${foo }''\<rparr>) = ([([], ''foo'', [])], [])"
    using scan_page_printed [OF o, of "[]"] by (simp add: print_item_def)
  have c: "chunks_of [([], ''foo'', [])] = Inl ''foo''"
    by (simp add: default_module_registrar_def' var_cmd_def)
  show ?thesis by (rule exI, rule page_error_wrapped [OF _ s c]) (simp add: mk_mapped_file_def)
qed

end
