(* ===== verification/Template_Host.thy ===== *)
theory Template_Host
  imports File_Host Templatizer
begin

text \<open>
  \<open>host/modules/file_handlers\<close> and \<open>logic/page_model\<close>: the handlers of a file host that render
  template pages. The generator of page models is a method of the logic that owns the handler
  and may use the database, so it is a parameter with a state \<open>'d\<close>; the state of the handlers is
  their caches and that state.
\<close>

section \<open>\<open>page_model\<close>\<close>

definition page_model_variable :: "(string \<times> string) list \<Rightarrow> page_model" where
  "page_model_variable vars var_name = (case map_of vars var_name of
     None \<Rightarrow> Inl (Templ (Model_err (Variable_not_found var_name)))
   | Some s \<Rightarrow> Inr s)"

text \<open>\<open>page_model_generator::page_model(request, path)\<close>\<close>

type_synonym 'd page_model_generator = "request \<Rightarrow> string \<Rightarrow> 'd \<Rightarrow> (exn + (string \<times> string) list) \<times> 'd"

section \<open>\<open>template_pages_only\<close>\<close>

type_synonym page_and_mime = "page \<times> string"

definition load_page :: "shell \<Rightarrow> file_system \<Rightarrow> string \<Rightarrow> exn + page_and_mime" where
  "load_page popen fs path =
     (let mime = (case get_file_mime popen default_mime_command path of
        Inl (Sys Unknown_error) \<Rightarrow> Inr [] | r \<Rightarrow> r) in
      rbind mime (\<lambda>mime_type. rbind (mk_page fs path) (\<lambda>p. Inr (p, mime_type))))"

text \<open>
  The constructor of the response: the page adds its buffers to those of the response and its
  strings to the cache of the response; for \<open>HEAD\<close> they are removed again.
\<close>

definition template_response ::
  "local_time \<Rightarrow> page_and_mime \<Rightarrow> (string \<times> string) list \<Rightarrow> string \<Rightarrow> request \<Rightarrow> status \<Rightarrow> exn + response" where
  "template_response now tm vars server_name rq st =
     (let r = add_server_name server_name (mk_response st (rq_version rq)) in
      case generate now (page_model_variable vars) (fst tm) (buffers r, strings r) of
        (Inl e, _) \<Rightarrow> Inl e
      | (Inr content_len, (bs, strs)) \<Rightarrow>
         (let r = r\<lparr>buffers := bs, strings := strs\<rparr>;
              r = (if snd tm \<noteq> [] then add_header header_content_type (snd tm) r else r);
              r = add_header header_content_length (to_string content_len) r
          in Inr (if rq_method rq = HEAD then r\<lparr>buffers := take 1 (buffers r)\<rparr> else r)))"

text \<open>The exceptions the call operator translates; all others pass.\<close>

definition template_catch :: "string \<Rightarrow> exn \<Rightarrow> exn" where
  "template_catch path e = (case e of
     Templ (Page_err (Page_path_not_found _)) \<Rightarrow> Host (Path_not_found path)
   | Templ (Page_err _) \<Rightarrow> Host (Host_error (what e))
   | e \<Rightarrow> e)"

text \<open>
  The order in which the arguments of the response are evaluated is not specified in C++; the
  model takes the cache first.
\<close>

definition template_pages_only ::
  "local_time \<Rightarrow> shell \<Rightarrow> file_system \<Rightarrow> 'd page_model_generator \<Rightarrow> (page_and_mime file_cache \<times> 'd) handler" where
  "template_pages_only now popen fs gen server_name rq path = (\<lambda>(c, d).
     if rq_method rq \<noteq> GET \<and> rq_method rq \<noteq> HEAD then
       (Inl (Host (Method_not_allowed (method_to_str (rq_method rq)))), c, d)
     else (case cache_at (\<lambda>p u. (load_page popen fs p, u)) path c () of
       (Inl e, c, _) \<Rightarrow> (Inl (template_catch path e), c, d)
     | (Inr tm, c, _) \<Rightarrow>
        (case gen rq path d of
           (Inl e, d) \<Rightarrow> (Inl (template_catch path e), c, d)
         | (Inr vars, d) \<Rightarrow>
            (case template_response now tm vars server_name rq status_ok of
               Inl e \<Rightarrow> (Inl (template_catch path e), c, d)
             | Inr r \<Rightarrow> (Inr (Some r), c, d)))))"

definition template_pages_only_clear :: "page_and_mime file_cache \<times> 'd \<Rightarrow> page_and_mime file_cache \<times> 'd" where
  "template_pages_only_clear = (\<lambda>(c, d). (cache_clear c, d))"

section \<open>\<open>files_and_template_pages\<close>\<close>

datatype behavior = Template_pages | Files

record ft_config =
  ft_default_behavior :: behavior
  ft_change_behavior_regex :: regex

definition html_regex :: regex where
  "html_regex = Sq any_chars (Lits ''.html'' Eps)"

definition parse_behavior :: "string \<Rightarrow> exn + behavior" where
  "parse_behavior str =
     (if str = ''files'' then Inr Files else if str = ''template_pages'' then Inr Template_pages
      else Inl (Host (Incorrect_config (''Incorrect default_behavior: '' @ quoted str @
        '', correct values are: '' @ quoted ''files'' @ '', '' @ quoted ''template_pages''))))"

definition mk_files_and_template_pages ::
  "'j json_lib \<Rightarrow> (string \<Rightarrow> exn + regex) \<Rightarrow> 'j \<Rightarrow> exn + ft_config" where
  "mk_files_and_template_pages lib compile config =
     rbind (json_extract (js_at lib) (js_string lib) config [] [Key ''default_behavior'']) (\<lambda>(found, str).
     rbind (if found then parse_behavior str else Inr Files) (\<lambda>beh.
     rbind (json_extract (js_at lib) (js_string lib) config [] [Key ''change_behavior_regex'']) (\<lambda>(found, str).
     rbind (if found then compile str else Inr html_regex) (\<lambda>re.
       Inr \<lparr>ft_default_behavior = beh, ft_change_behavior_regex = re\<rparr>))))"

text \<open>The state: the cache of files, the cache of pages, and the state of the logic.\<close>

type_synonym 'd ft_state = "file_and_mime file_cache \<times> page_and_mime file_cache \<times> 'd"

definition is_template_page :: "ft_config \<Rightarrow> string \<Rightarrow> bool" where
  "is_template_page ft path =
     (let is_template_page = (ft_default_behavior ft = Template_pages) in
      if matches path (ft_change_behavior_regex ft) then \<not> is_template_page else is_template_page)"

definition files_and_template_pages ::
  "local_time \<Rightarrow> shell \<Rightarrow> file_system \<Rightarrow> 'd page_model_generator \<Rightarrow> ft_config \<Rightarrow> 'd ft_state handler" where
  "files_and_template_pages now popen fs gen ft server_name rq path = (\<lambda>(fc, pc, d).
     if is_template_page ft path then
       (case template_pages_only now popen fs gen server_name rq path (pc, d) of
          (r, (pc, d)) \<Rightarrow> (r, fc, pc, d))
     else (case files_only popen fs server_name rq path fc of (r, fc) \<Rightarrow> (r, fc, pc, d)))"

definition files_and_template_pages_clear :: "'d ft_state \<Rightarrow> 'd ft_state" where
  "files_and_template_pages_clear = (\<lambda>(fc, pc, d).
     (let fc = files_only_clear fc; (pc, d) = template_pages_only_clear (pc, d) in (fc, pc, d)))"

section \<open>Rendered responses are framed\<close>

lemma chunk_generate_sizes:
  "chunk_generate now m c (bs, strs) = (Inr n, (bs', strs')) \<Longrightarrow>
   \<exists>cs. bs' = bs @ cs \<and> sum_list (map buf_size cs) = n"
  by (cases c) (auto simp: put_outer_def put_cached_def put_temporary_def outer_buffer_def
      split: sum.splits)

lemma generate_loop_sizes:
  "generate_loop now m cs len (bs, strs) = (Inr n, (bs', strs')) \<Longrightarrow>
   \<exists>ds. bs' = bs @ ds \<and> len + sum_list (map buf_size ds) = n"
proof (induction cs arbitrary: len bs strs)
  case (Cons c cs)
  obtain r bs1 strs1 where g: "chunk_generate now m c (bs, strs) = (r, (bs1, strs1))" by (metis prod_cases3)
  then obtain k where k: "r = Inr k" using Cons.prems by (cases r) auto
  obtain ds where ds: "bs1 = bs @ ds" "sum_list (map buf_size ds) = k"
    using chunk_generate_sizes g k by blast
  from Cons.IH [of "len + k" bs1 strs1] Cons.prems g k ds show ?case by auto
qed simp

lemma headers_add_header:
  "headers r = render line hs [] \<Longrightarrow> headers (add_header k v r) = render line (hs @ [(k, v)]) []"
  by (simp add: add_header_def prepare_update_headers_buffer_def update_headers_buffer_def Let_def
      render_def header_text_def str_defs)

lemma buffers_add_header:
  "buffers r = h # bs \<Longrightarrow>
   buffers (add_header k v r) = \<lparr>buf_loc = Headers_loc, buf_size = length (headers (add_header k v r))\<rparr> # bs"
  by (simp add: add_header_def prepare_update_headers_buffer_def update_headers_buffer_def Let_def)

lemma repr_head: "repr line hs body r \<Longrightarrow> headers r = render line hs [] \<and>
    (\<exists>bs. buffers r = \<lparr>buf_loc = Headers_loc, buf_size = length (headers r)\<rparr> # bs)"
  by (auto simp: repr_def)

lemma start_buffers: "buffers (add_server_name sn (mk_response st v)) =
    [\<lparr>buf_loc = Headers_loc, buf_size = length (headers (add_server_name sn (mk_response st v)))\<rparr>]"
  by (auto simp: add_server_name_def mk_response_def update_headers_buffer_def add_header_def
      prepare_update_headers_buffer_def Let_def)

lemma start_strings: "strings (add_server_name sn (mk_response st v)) = []"
  by (simp add: add_server_name_def mk_response_def update_headers_buffer_def Let_def)

lemma template_response_framed:
  assumes "template_response now tm vars sn rq st = Inr r"
  shows "framed rq r"
proof -
  define r0 where "r0 = add_server_name sn (mk_response st (rq_version rq))"
  obtain n bs strs where g: "generate now (page_model_variable vars) (fst tm) (buffers r0, strings r0) = (Inr n, (bs, strs))"
    using assms by (auto simp: template_response_def Let_def r0_def [symmetric] split: sum.splits prod.splits)
  then obtain ds where ds: "bs = buffers r0 @ ds" "sum_list (map buf_size ds) = n"
    using generate_loop_sizes [of now _ _ 0] unfolding generate_def by fastforce
  define r1 where "r1 = r0\<lparr>buffers := bs, strings := strs\<rparr>"
  define r2 where "r2 = (if snd tm \<noteq> [] then add_header header_content_type (snd tm) r1 else r1)"
  define r3 where "r3 = add_header header_content_length (to_string n) r2"
  let ?line = "status_line st (rq_version rq)"
  let ?hs = "server_headers sn @ (if snd tm = [] then [] else [(header_content_type, snd tm)])"
  have r0: "headers r0 = render ?line (server_headers sn) []"
    using repr_head [OF repr_start] by (simp add: r0_def)
  have h2: "headers r2 = render ?line ?hs []"
    using r0 headers_add_header [of r1 ?line "server_headers sn"] by (simp add: r2_def r1_def)
  have b1: "buffers r1 = \<lparr>buf_loc = Headers_loc, buf_size = length (headers r0)\<rparr> # ds"
    using ds(1) start_buffers by (simp add: r1_def r0_def)
  obtain h where b2: "buffers r2 = h # ds"
    using b1 buffers_add_header [OF b1] by (cases "snd tm = []") (auto simp: r2_def)
  have h3: "headers r3 = render ?line (?hs @ [(header_content_length, to_string n)]) []"
    unfolding r3_def by (rule headers_add_header [OF h2])
  have b3: "buffers r3 = \<lparr>buf_loc = Headers_loc, buf_size = length (headers r3)\<rparr> # ds"
    unfolding r3_def by (rule buffers_add_header [OF b2])
  have r: "r = (if rq_method rq = HEAD then r3\<lparr>buffers := take 1 (buffers r3)\<rparr> else r3)"
  proof -
    have "Inr r = (Inr (if rq_method rq = HEAD then r3\<lparr>buffers := take 1 (buffers r3)\<rparr> else r3) :: exn + response)"
      unfolding assms [symmetric] template_response_def Let_def r0_def [symmetric] g prod.case sum.case
        r1_def r2_def r3_def ..
    then show ?thesis by simp
  qed
  have c: "content_lengths (?hs @ [(header_content_length, to_string n)]) = [to_string n]" by simp
  show ?thesis unfolding framed_def
    using h3 b3 ds(2) c by (intro exI [of _ st] exI [of _ "?hs @ [(header_content_length, to_string n)]"] exI [of _ n]
        exI [of _ "if rq_method rq = HEAD then [] else ds"]) (simp add: r)
qed

lemma template_pages_only_framed:
  "template_pages_only now popen fs gen sn rq path w = (Inr x, w') \<Longrightarrow> \<exists>r. x = Some r \<and> framed rq r"
  by (auto simp: template_pages_only_def split: if_splits prod.splits sum.splits dest: template_response_framed)

lemma files_and_template_pages_framed:
  "files_and_template_pages now popen fs gen ft sn rq path w = (Inr x, w') \<Longrightarrow> \<exists>r. x = Some r \<and> framed rq r"
  by (auto simp: files_and_template_pages_def split: if_splits prod.splits
      dest: template_pages_only_framed files_only_framed)

interpretation tpo: file_handler fs h "template_pages_only now popen fs gen" for fs h now popen gen
  by unfold_locales (rule template_pages_only_framed)

interpretation ftp: file_handler fs h "files_and_template_pages now popen fs gen ft" for fs h now popen gen ft
  by unfold_locales (rule files_and_template_pages_framed)

text \<open>
  A host that serves files and template pages answers every request with a framed response:
  the announced length is the number of bytes the buffers cover even when a page contains
  variables, and whatever the file system, the model generator and the caches do, nothing is
  thrown and no request is sent round again.
\<close>
theorem files_and_template_pages_total:
  "\<exists>r w'. file_response fs h (files_and_template_pages now popen fs gen ft) sn rq w = (Inr (Some r), rq, w') \<and>
    framed rq r"
  by (rule ftp.file_response_answers)

lemma chunk_generate_error:
  "chunk_text now m c = Inl e \<Longrightarrow> chunk_generate now m c k = (Inl e, k)"
  by (cases c) (auto simp: rbind_def split: sum.splits)

lemma chunk_generate_fine: "chunk_text now m c = Inr s \<Longrightarrow> \<exists>n k'. chunk_generate now m c k = (Inr n, k')"
  by (cases c) (auto simp: rbind_def split_beta split: sum.splits)

lemma generate_loop_error:
  "chunks_text now m cs = Inl e \<Longrightarrow> \<exists>k'. generate_loop now m cs len k = (Inl e, k')"
proof (induction cs arbitrary: len k)
  case (Cons c cs)
  show ?case
  proof (cases "chunk_text now m c")
    case (Inl e')
    then show ?thesis using Cons.prems chunk_generate_error [OF Inl] by auto
  next
    case (Inr s)
    then have "chunks_text now m cs = Inl e" using Cons.prems by (cases "chunks_text now m cs") auto
    then show ?thesis using Cons.IH chunk_generate_fine [OF Inr, of k] by auto
  qed
qed simp

text \<open>
  A variable that the model of the page does not define is an internal error of the server:
  the client gets 500, not a partial page, and the page stays cached.
\<close>
theorem missing_variable_is_500:
  assumes loc: "locate fs h rq = Inr path" and cached: "map_of pc path = Some (p, mime)"
    and page: "is_template_page ft path"
    and gen: "gen rq path d = (Inr vars, d')"
    and missing: "chunks_text now (page_model_variable vars) (pg_chunks p) = Inl (Templ (Model_err e))"
  shows "file_response fs h (files_and_template_pages now popen fs gen ft) sn rq (fc, pc, d) =
    (Inr (Some (phony_response sn rq status_internal_server_error)), rq, (fc, pc, d'))"
proof -
  have m: "rq_method rq = GET \<or> rq_method rq = HEAD"
    using loc by (auto simp: locate_def rbind_Inr_iff validate_method_def split: if_splits)
  let ?r = "add_server_name sn (mk_response status_ok (rq_version rq))"
  obtain k' where "generate now (page_model_variable vars) p (buffers ?r, strings ?r) = (Inl (Templ (Model_err e)), k')"
    unfolding generate_def using generate_loop_error [OF missing] by blast
  then have "template_response now (p, mime) vars sn rq status_ok = Inl (Templ (Model_err e))"
    by (simp add: template_response_def Let_def)
  then show ?thesis using m
    by (auto simp: file_response_def loc files_and_template_pages_def page template_pages_only_def
        cache_at_def cached gen template_catch_def error_status_def handle_error_def)
qed

lemma missing_variable_is_500_witness:
  "\<exists>w. file_response (one_file ''/www/a.css'' ''p{}'') sample_host
     (files_and_template_pages sample_time (\<lambda>c. None) (one_file ''/www/a.css'' ''p{}'') (\<lambda>rq path d. (Inr [], d))
       \<lparr>ft_default_behavior = Template_pages, ft_change_behavior_regex = Cls (\<lambda>c. False)\<rparr>)
     [] sample_get ([], [(''/www/a.css'', sample_page, [])], ()) =
   (Inr (Some (phony_response [] sample_get status_internal_server_error)), sample_get, w)"
proof -
  have p: "is_template_page \<lparr>ft_default_behavior = Template_pages, ft_change_behavior_regex = Cls (\<lambda>c. False)\<rparr> ''/www/a.css''"
    by (simp add: is_template_page_def matches_def regex_match_def)
  have m: "chunks_text sample_time (page_model_variable []) (pg_chunks sample_page) =
      Inl (Templ (Model_err (Variable_not_found ''n'')))"
    by (simp add: sample_page_def page_model_variable_def)
  have c: "map_of [(''/www/a.css'', sample_page, [])] ''/www/a.css'' = Some (sample_page, [])" by simp
  show ?thesis
    by (rule exI, rule missing_variable_is_500 [OF sample_locate c p _ m]) simp
qed

end
