(* ===== verification/Session.thy ===== *)
theory Session
  imports Host_Base
begin

text \<open>
  \<open>server/session\<close>: the life of one connection. The asynchronous calls of the code become the
  fields \<open>ss_read\<close> (the read that is outstanding) and \<open>ss_sending\<close> (a write is outstanding), the
  completion handlers become steps, and the interleavings that the event loop allows are the
  paths of the step relation.
\<close>

section \<open>Processing a request\<close>

text \<open>
  The loop that dispatches a request to the host it names, again and again while the host returns
  a null pointer. Nothing bounds it, so it is a partial function: \<open>None\<close> means that
  \<open>process_request\<close> never returns.
\<close>

partial_function (option) dispatch ::
  "'w manager \<Rightarrow> port_type \<Rightarrow> string \<Rightarrow> request \<Rightarrow> 'w \<Rightarrow> ((exn + response) \<times> request \<times> 'w) option" where
  [code]: "dispatch mgr server_port server_name rq w =
     (if rq_port rq \<noteq> server_port
      then Some (Inl (Http (Incorrect_port (to_string (unat (rq_port rq))))), rq, w)
      else case manager_host mgr (rq_host rq) (rq_port rq) of
        Inl e \<Rightarrow> Some (Inl e, rq, w)
      | Inr host \<Rightarrow>
         (case vh_response host server_name rq w of
            (Inl e, rq, w) \<Rightarrow> Some (Inl e, rq, w)
          | (Inr (Some r), rq, w) \<Rightarrow> Some (Inr r, rq, w)
          | (Inr None, rq, w) \<Rightarrow> dispatch mgr server_port server_name rq w))"

text \<open>The \<open>catch\<close> clauses of \<open>process_request\<close>, in their order.\<close>

definition session_error_status :: "exn \<Rightarrow> status" where
  "session_error_status e = (case e of
     Host (Host_not_found _) \<Rightarrow> status_not_found
   | Host (Port_not_allowed _ _) \<Rightarrow> status_not_found
   | Host _ \<Rightarrow> status_bad_request
   | Http (Unimplemented_method _) \<Rightarrow> status_not_implemented
   | Http (Unsupported_protocol_version _) \<Rightarrow> status_http_version_not_supported
   | Http _ \<Rightarrow> status_bad_request
   | _ \<Rightarrow> status_internal_server_error)"

section \<open>The session\<close>

datatype read = No_read | Read_until_separator | Read_at_least nat

record 'w session =
  ss_server_port :: port_type
  ss_stream_buffer :: string
  ss_request :: request
  ss_queue :: "response list"
  ss_sending :: bool
  ss_processing_new_request :: bool
  ss_read :: read
  ss_sent :: "response list"     \<comment> \<open>for the statements: responses whose write has completed\<close>
  ss_produced :: "response list" \<comment> \<open>for the statements: all responses ever queued\<close>
  ss_broken :: bool              \<comment> \<open>for the statements: a write has failed\<close>
  ss_world :: 'w

definition add_request_handler :: "'w session \<Rightarrow> 'w session" where
  "add_request_handler s = s\<lparr>ss_read := Read_until_separator\<rparr>"

definition add_response_handler :: "'w session \<Rightarrow> 'w session" where
  "add_response_handler s = (if ss_sending s \<or> ss_queue s = [] then s else s\<lparr>ss_sending := True\<rparr>)"

definition send_response :: "response \<Rightarrow> 'w session \<Rightarrow> 'w session" where
  "send_response r s = add_response_handler
     (s\<lparr>ss_queue := ss_queue s @ [r], ss_produced := ss_produced s @ [r]\<rparr>)"

definition send_phony :: "string \<Rightarrow> status \<Rightarrow> 'w session \<Rightarrow> 'w session" where
  "send_phony server_name st s = send_response (phony_response server_name (ss_request s) st) s"

definition session_handle_error :: "string \<Rightarrow> exn \<Rightarrow> 'w session \<Rightarrow> 'w session" where
  "session_handle_error server_name e s = send_phony server_name (session_error_status e) s"

text \<open>\<open>run\<close>: the constructor, then the first read.\<close>

definition mk_session :: "string \<Rightarrow> port_type \<Rightarrow> 'w \<Rightarrow> 'w session" where
  "mk_session client_address server_port w = \<lparr>ss_server_port = server_port, ss_stream_buffer = [],
     ss_request = new_request client_address, ss_queue = [], ss_sending = False,
     ss_processing_new_request = True, ss_read = No_read, ss_sent = [], ss_produced = [],
     ss_broken = False, ss_world = w\<rparr>"

definition run_session :: "string \<Rightarrow> port_type \<Rightarrow> 'w \<Rightarrow> 'w session" where
  "run_session client_address server_port w = add_request_handler (mk_session client_address server_port w)"

text \<open>Reading: a new request, or more of the body of the current one.\<close>

definition read_request :: "req_env \<Rightarrow> 'w session \<Rightarrow> (exn + 64 word) \<times> 'w session" where
  "read_request env s =
     (let stream = \<lparr>is_rest = ss_stream_buffer s, is_good = True\<rparr>;
          (r, rq, stream) =
            (if ss_processing_new_request s then process_stream env stream (ss_request s)
             else (case process_stream_again stream (ss_request s) of (n, rq, stream) \<Rightarrow> (Inr n, rq, stream)))
      in (r, s\<lparr>ss_request := rq, ss_stream_buffer := is_rest stream\<rparr>))"

definition process_request :: "req_env \<Rightarrow> 'w manager \<Rightarrow> string \<Rightarrow> 'w session \<Rightarrow> 'w session option" where
  "process_request env mgr server_name s =
     (case read_request env s of
        (Inl e, s) \<Rightarrow> Some (session_handle_error server_name e s)
      | (Inr required_body_size, s) \<Rightarrow>
         if required_body_size \<noteq> 0 then
           Some (s\<lparr>ss_processing_new_request := False, ss_read := Read_at_least (unat required_body_size)\<rparr>)
         else
           (let s = s\<lparr>ss_processing_new_request := True\<rparr> in
            case dispatch mgr (ss_server_port s) server_name (ss_request s) (ss_world s) of
              None \<Rightarrow> None
            | Some (Inl e, rq, w) \<Rightarrow>
                Some (session_handle_error server_name e (s\<lparr>ss_request := rq, ss_world := w\<rparr>))
            | Some (Inr r, rq, w) \<Rightarrow>
                (let s = send_response r (s\<lparr>ss_request := rq, ss_world := w\<rparr>) in
                 Some (if rq_keep_alive (ss_request s) then add_request_handler s else s))))"

text \<open>The completion handlers; an error only ends the reading or the writing.\<close>

definition request_handler :: "req_env \<Rightarrow> 'w manager \<Rightarrow> string \<Rightarrow> bool \<Rightarrow> 'w session \<Rightarrow> 'w session option" where
  "request_handler env mgr server_name err s = (if \<not> err then process_request env mgr server_name s else Some s)"

definition response_handler :: "bool \<Rightarrow> 'w session \<Rightarrow> 'w session" where
  "response_handler err s =
     (let s = s\<lparr>ss_sending := False\<rparr>;
          s = s\<lparr>ss_sent := (if err then ss_sent s else ss_sent s @ [hd (ss_queue s)]),
            ss_broken := (ss_broken s \<or> err), ss_queue := tl (ss_queue s)\<rparr>
      in if \<not> err then add_response_handler s else s)"

section \<open>Steps\<close>

text \<open>When a read completes: the data arrives at the end of the stream buffer.\<close>

definition has_separator :: "string \<Rightarrow> bool" where
  "has_separator s \<longleftrightarrow> (\<exists>a b. s = a @ header_body_separator @ b)"

definition read_complete :: "read \<Rightarrow> string \<Rightarrow> string \<Rightarrow> bool" where
  "read_complete rd buf arrived = (case rd of
     No_read \<Rightarrow> False
   | Read_until_separator \<Rightarrow> has_separator (buf @ arrived)
   | Read_at_least n \<Rightarrow> n \<le> length arrived)"

text \<open>
  A server name drawn by the worker is one of its names, or empty. A step that would not return
  is not a step.
\<close>

inductive session_step :: "req_env \<Rightarrow> 'w manager \<Rightarrow> string list \<Rightarrow> 'w session \<Rightarrow> 'w session \<Rightarrow> bool"
  for env mgr names where
  read_ok: "read_complete (ss_read s) (ss_stream_buffer s) arrived \<Longrightarrow>
     server_name \<in> set names \<or> names = [] \<and> server_name = [] \<Longrightarrow>
     request_handler env mgr server_name False
       (s\<lparr>ss_read := No_read, ss_stream_buffer := ss_stream_buffer s @ arrived\<rparr>) = Some s' \<Longrightarrow>
     session_step env mgr names s s'"
| read_error: "ss_read s \<noteq> No_read \<Longrightarrow>
     session_step env mgr names s (s\<lparr>ss_read := No_read, ss_stream_buffer := ss_stream_buffer s @ arrived\<rparr>)"
| write_ok: "ss_sending s \<Longrightarrow> session_step env mgr names s (response_handler False s)"
| write_error: "ss_sending s \<Longrightarrow> session_step env mgr names s (response_handler True s)"

inductive_cases session_stepE: "session_step env mgr names s s'"

inductive reachable :: "req_env \<Rightarrow> 'w manager \<Rightarrow> string list \<Rightarrow> 'w session \<Rightarrow> bool"
  for env mgr names where
  start: "reachable env mgr names (run_session client_address server_port w)"
| step: "reachable env mgr names s \<Longrightarrow> session_step env mgr names s s' \<Longrightarrow> reachable env mgr names s'"

section \<open>The queue of responses\<close>

text \<open>
  The invariant of the sending side: something is written only while its response is at the head
  of the queue; until a write fails, nothing waits unsent, and every response ever queued is
  sent or still queued, in order.
\<close>

definition queue_ok :: "'w session \<Rightarrow> bool" where
  "queue_ok s \<longleftrightarrow> (ss_sending s \<longrightarrow> ss_queue s \<noteq> []) \<and>
     (\<not> ss_broken s \<longrightarrow> (ss_queue s \<noteq> [] \<longrightarrow> ss_sending s) \<and> ss_sent s @ ss_queue s = ss_produced s)"

lemma add_response_handler_sel [simp]:
  "ss_queue (add_response_handler s) = ss_queue s"
  "ss_sent (add_response_handler s) = ss_sent s"
  "ss_produced (add_response_handler s) = ss_produced s"
  "ss_broken (add_response_handler s) = ss_broken s"
  "ss_read (add_response_handler s) = ss_read s"
  "ss_request (add_response_handler s) = ss_request s"
  "ss_sending (add_response_handler s) = (ss_queue s \<noteq> [] \<or> ss_sending s)"
  by (auto simp: add_response_handler_def)

lemma send_response_sel [simp]:
  "ss_queue (send_response r s) = ss_queue s @ [r]"
  "ss_sent (send_response r s) = ss_sent s"
  "ss_produced (send_response r s) = ss_produced s @ [r]"
  "ss_broken (send_response r s) = ss_broken s"
  "ss_read (send_response r s) = ss_read s"
  "ss_request (send_response r s) = ss_request s"
  "ss_sending (send_response r s)"
  by (simp_all add: send_response_def)

lemma add_request_handler_sel [simp]:
  "ss_queue (add_request_handler s) = ss_queue s" "ss_sent (add_request_handler s) = ss_sent s"
  "ss_produced (add_request_handler s) = ss_produced s" "ss_broken (add_request_handler s) = ss_broken s"
  "ss_sending (add_request_handler s) = ss_sending s" "ss_read (add_request_handler s) = Read_until_separator"
  by (simp_all add: add_request_handler_def)

text \<open>Two sessions that agree on everything the sending side and the reader depend on.\<close>

definition same_sending :: "'w session \<Rightarrow> 'w session \<Rightarrow> bool" where
  "same_sending s s' \<longleftrightarrow> ss_queue s' = ss_queue s \<and> ss_sent s' = ss_sent s \<and>
     ss_produced s' = ss_produced s \<and> ss_broken s' = ss_broken s \<and> ss_sending s' = ss_sending s"

lemma same_sending_queue_ok: "same_sending s s' \<Longrightarrow> queue_ok s' = queue_ok s"
  by (simp add: same_sending_def queue_ok_def)

lemma queue_ok_send: "queue_ok s \<Longrightarrow> queue_ok (send_response r s)"
  by (auto simp: queue_ok_def)

lemma read_request_sel:
  "read_request env s = (r, s') \<Longrightarrow> same_sending s s' \<and> ss_read s' = ss_read s"
  by (auto simp: read_request_def Let_def same_sending_def split: prod.splits)

text \<open>
  What processing a request does: it asks for more of the body, or it queues one response, either
  the page of an error, after which nothing more is read, or the answer of a host.
\<close>

inductive outcome :: "req_env \<Rightarrow> 'w manager \<Rightarrow> string \<Rightarrow> 'w session \<Rightarrow> 'w session \<Rightarrow> bool"
  for env mgr sn s where
  more: "read_request env s = (Inr n, s1) \<Longrightarrow> n \<noteq> 0 \<Longrightarrow> same_sending s s' \<Longrightarrow>
     ss_read s' = Read_at_least (unat n) \<Longrightarrow> outcome env mgr sn s s'"
| refused: "read_request env s = (Inl e, s1) \<Longrightarrow> same_sending s s1 \<Longrightarrow>
     s' = send_response (phony_response sn (ss_request s1) (session_error_status e)) s1 \<Longrightarrow>
     ss_read s' = ss_read s \<Longrightarrow> outcome env mgr sn s s'"
| failed: "read_request env s = (Inr 0, s1) \<Longrightarrow> same_sending s s2 \<Longrightarrow>
     dispatch mgr (ss_server_port s1) sn (ss_request s1) (ss_world s1) = Some (Inl e, ss_request s2, ss_world s2) \<Longrightarrow>
     s' = send_response (phony_response sn (ss_request s2) (session_error_status e)) s2 \<Longrightarrow>
     ss_read s' = ss_read s \<Longrightarrow> outcome env mgr sn s s'"
| answered: "read_request env s = (Inr 0, s1) \<Longrightarrow> same_sending s s2 \<Longrightarrow>
     dispatch mgr (ss_server_port s1) sn (ss_request s1) (ss_world s1) = Some (Inr r, ss_request s2, ss_world s2) \<Longrightarrow>
     s' = (if rq_keep_alive (ss_request s2) then add_request_handler (send_response r s2) else send_response r s2) \<Longrightarrow>
     ss_read s' = (if rq_keep_alive (ss_request s2) then Read_until_separator else ss_read s) \<Longrightarrow>
     outcome env mgr sn s s'"

lemma process_request_outcome:
  assumes "process_request env mgr sn s = Some s'"
  shows "outcome env mgr sn s s'"
proof -
  obtain r s1 where rd: "read_request env s = (r, s1)" by fastforce
  note sel = read_request_sel [OF rd]
  show ?thesis
  proof (cases r)
    case (Inl e)
    then show ?thesis using assms rd sel
      by (intro refused) (auto simp: process_request_def session_handle_error_def send_phony_def)
  next
    case (Inr n)
    show ?thesis
    proof (cases "n = 0")
      case True
      let ?s = "s1\<lparr>ss_processing_new_request := True\<rparr>"
      obtain o2 rq w where d: "dispatch mgr (ss_server_port ?s) sn (ss_request ?s) (ss_world ?s) = Some (o2, rq, w)"
        using assms rd Inr True
        by (auto simp: process_request_def Let_def split: option.splits prod.splits)
      let ?s2 = "?s\<lparr>ss_request := rq, ss_world := w\<rparr>"
      have ss: "same_sending s ?s2" using sel by (simp add: same_sending_def)
      have rd0: "read_request env s = (Inr 0, s1)" using rd Inr True by simp
      show ?thesis
      proof (cases o2)
        case (Inl e)
        show ?thesis
          by (rule failed [OF rd0 ss, of mgr sn e]) (use assms rd0 d Inl sel in
              \<open>auto simp: process_request_def Let_def session_handle_error_def send_phony_def\<close>)
      next
        case (Inr resp)
        show ?thesis
          by (rule answered [OF rd0 ss, of mgr sn resp]) (use assms rd0 d Inr sel in
              \<open>auto simp: process_request_def Let_def\<close>)
      qed
    next
      case False
      then show ?thesis using assms rd Inr sel
        by (intro more [of env s n s1]) (auto simp: process_request_def same_sending_def)
    qed
  qed
qed

lemma outcome_queue_ok: "outcome env mgr sn s s' \<Longrightarrow> queue_ok s \<Longrightarrow> queue_ok s'"
  by (erule outcome.cases)
    (auto simp: same_sending_queue_ok intro!: queue_ok_send simp: queue_ok_def add_request_handler_def
      same_sending_def)

lemma response_handler_queue_ok: "ss_sending s \<Longrightarrow> queue_ok s \<Longrightarrow> queue_ok (response_handler err s)"
proof -
  assume s: "ss_sending s" "queue_ok s"
  then obtain r rs where q: "ss_queue s = r # rs" by (cases "ss_queue s") (auto simp: queue_ok_def)
  show ?thesis using s q by (auto simp: response_handler_def queue_ok_def Let_def)
qed

lemma session_step_queue_ok: "session_step env mgr names s s' \<Longrightarrow> queue_ok s \<Longrightarrow> queue_ok s'"
proof (erule session_stepE)
  fix arrived sn
  assume r: "request_handler env mgr sn False
      (s\<lparr>ss_read := No_read, ss_stream_buffer := ss_stream_buffer s @ arrived\<rparr>) = Some s'" and ok: "queue_ok s"
  have "queue_ok (s\<lparr>ss_read := No_read, ss_stream_buffer := ss_stream_buffer s @ arrived\<rparr>)"
    using ok by (simp add: queue_ok_def)
  then show "queue_ok s'"
    using outcome_queue_ok process_request_outcome r by (fastforce simp: request_handler_def)
qed (auto simp: queue_ok_def [of "_\<lparr>ss_read := No_read, ss_stream_buffer := _\<rparr>"] queue_ok_def [of s]
      intro: response_handler_queue_ok)

lemma reachable_queue_ok: "reachable env mgr names s \<Longrightarrow> queue_ok s"
proof (induction rule: reachable.induct)
  case (start client_address server_port w)
  then show ?case by (simp add: queue_ok_def run_session_def mk_session_def)
next
  case (step s s')
  then show ?case by (blast intro: session_step_queue_ok)
qed

text \<open>
  Whatever the order in which reads and writes complete, responses leave in the order in which
  they were queued, each once: as long as no write has failed, what was sent followed by what is
  queued is everything that was ever queued, a write is outstanding exactly when something waits,
  and it writes the head of the queue.
\<close>
theorem responses_in_order:
  assumes "reachable env mgr names s"
  shows "(ss_sending s \<longrightarrow> ss_queue s \<noteq> []) \<and>
    (\<not> ss_broken s \<longrightarrow> (ss_queue s \<noteq> [] \<longrightarrow> ss_sending s) \<and> ss_sent s @ ss_queue s = ss_produced s)"
  using reachable_queue_ok [OF assms] by (simp add: queue_ok_def)

section \<open>Dispatching\<close>

text \<open>
  When every host of the manager answers or throws, a request is dispatched exactly once: the
  loop returns after one round with the outcome of the host the request names, or with the error
  of the port check or of the lookup.
\<close>
theorem dispatch_terminates:
  assumes "\<forall>h\<in>set mgr. \<forall>rq w. fst (vh_response h sn rq w) \<noteq> Inr None"
  shows "\<exists>res. dispatch mgr port sn rq w = Some res \<and>
    res = (if rq_port rq \<noteq> port then (Inl (Http (Incorrect_port (to_string (unat (rq_port rq))))), rq, w)
      else case manager_host mgr (rq_host rq) (rq_port rq) of
        Inl e \<Rightarrow> (Inl e, rq, w)
      | Inr h \<Rightarrow> (case vh_response h sn rq w of
          (Inl e, rq', w') \<Rightarrow> (Inl e, rq', w') | (Inr r, rq', w') \<Rightarrow> (Inr (the r), rq', w')))"
proof (cases "rq_port rq = port")
  case True
  show ?thesis
  proof (cases "manager_host mgr (rq_host rq) (rq_port rq)")
    case (Inl e)
    then show ?thesis using True by (subst dispatch.simps) simp
  next
    case (Inr h)
    then have "h \<in> set mgr"
      by (auto simp: manager_host_def find_host_def find_Some_iff split: option.splits if_splits)
    moreover obtain x rq' w' where r: "vh_response h sn rq w = (x, rq', w')" by (metis prod_cases3)
    ultimately have "x \<noteq> Inr None" using assms by (metis fst_conv)
    then show ?thesis using True Inr r
      by (subst dispatch.simps) (cases x; auto split: option.split)
  qed
next
  case False
  then show ?thesis by (subst dispatch.simps) simp
qed

lemma dispatch_terminates_witness:
  "\<exists>res. dispatch [mk_base_vhost \<lparr>name = ''localhost'', ports = [80]\<rparr>] 80 []
     ((new_request [])\<lparr>rq_host := ''localhost''\<rparr>) () = Some res"
proof -
  have "\<forall>h\<in>set ([mk_base_vhost \<lparr>name = ''localhost'', ports = [80]\<rparr>] :: unit manager). \<forall>rq w. fst (vh_response h [] rq w) \<noteq> Inr None"
    by (simp add: mk_base_vhost_def base_response_def)
  from dispatch_terminates [OF this] show ?thesis by blast
qed

text \<open>
  C32: A host that sends the request round again and leaves it as it is makes the session loop for
  ever: \<open>process_request\<close> never returns, and the worker serves nobody any more.
\<close>
theorem dispatch_diverges:
  assumes "rq_port rq = port" "manager_host mgr (rq_host rq) (rq_port rq) = Inr h"
    and again: "vh_response h sn rq w = (Inr None, rq, w)"
  shows "dispatch mgr port sn rq w = None"
proof -
  have False if d: "dispatch mgr port sn rq w = Some y" for y
  proof -
    have "\<not> (mgr = mgr \<and> port = port \<and> sn = sn \<and> rq = rq \<and> w = w)"
    proof (rule dispatch.raw_induct [where P = "\<lambda>mgr' port' sn' rq' w' y.
          \<not> (mgr' = mgr \<and> port' = port \<and> sn' = sn \<and> rq' = rq \<and> w' = w)", OF _ d])
      fix f mgr' port' sn' rq' w' y'
      assume IH: "\<And>a b c d e y. f a b c d e = Some y \<Longrightarrow>
          \<not> (a = mgr \<and> b = port \<and> c = sn \<and> d = rq \<and> e = w)"
        and body: "(if rq_port rq' \<noteq> port'
          then Some (Inl (Http (Incorrect_port (to_string (unat (rq_port rq'))))), rq', w')
          else case manager_host mgr' (rq_host rq') (rq_port rq') of
            Inl e \<Rightarrow> Some (Inl e, rq', w')
          | Inr host \<Rightarrow>
             (case vh_response host sn' rq' w' of
                (Inl e, rq, w) \<Rightarrow> Some (Inl e, rq, w)
              | (Inr None, rq, w) \<Rightarrow> f mgr' port' sn' rq w
              | (Inr (Some r), rq, w) \<Rightarrow> Some (Inr r, rq, w))) = Some y'"
      show "\<not> (mgr' = mgr \<and> port' = port \<and> sn' = sn \<and> rq' = rq \<and> w' = w)"
      proof
        assume "mgr' = mgr \<and> port' = port \<and> sn' = sn \<and> rq' = rq \<and> w' = w"
        then have "f mgr port sn rq w = Some y'" using body assms by simp
        then show False using IH by blast
      qed
    qed
    then show False by simp
  qed
  then show ?thesis by (cases "dispatch mgr port sn rq w") auto
qed

definition again_host :: "unit vhost" where
  "again_host = \<lparr>vh_base = \<lparr>name = ''localhost'', ports = [80]\<rparr>,
     vh_response = (\<lambda>sn rq w. (Inr None, rq, w)), vh_clear_cache = Some\<rparr>"

lemma dispatch_diverges_witness:
  "dispatch [again_host] 80 [] ((new_request [])\<lparr>rq_host := ''localhost''\<rparr>) () = None"
  by (rule dispatch_diverges [where h = again_host])
    (simp_all add: again_host_def manager_host_def find_host_def port_allowed_def new_request_def default_port_def)

section \<open>Errors\<close>

text \<open>
  C21: Every failure, while reading or in a host, is answered with the phony page of its status,
  and nothing more is read on that connection, even if the client asked to keep it alive.
\<close>
theorem session_answers_errors:
  assumes "process_request env mgr sn (s\<lparr>ss_read := No_read\<rparr>) = Some s'"
    and failure: "read_request env (s\<lparr>ss_read := No_read\<rparr>) = (Inl e, s1) \<and> rq = ss_request s1 \<or>
      read_request env (s\<lparr>ss_read := No_read\<rparr>) = (Inr 0, s1) \<and>
        dispatch mgr (ss_server_port s1) sn (ss_request s1) (ss_world s1) = Some (Inl e, rq, w)"
  shows "ss_queue s' = ss_queue s @ [phony_response sn rq (session_error_status e)] \<and> ss_sending s' \<and>
    ss_read s' = No_read"
proof -
  from process_request_outcome [OF assms(1)] show ?thesis
    using failure by cases (auto simp: same_sending_def)
qed

lemma session_answers_errors_witness:
  "\<exists>s'. process_request decimal_env ([] :: unit manager) [] ((run_session [] 80 ())\<lparr>ss_stream_buffer := ''GET'', ss_read := No_read\<rparr>) = Some s' \<and>
    ss_read s' = No_read"
proof -
  let ?s = "(run_session [] 80 ())\<lparr>ss_stream_buffer := ''GET''\<rparr>"
  have "scan_start ''GET'' = None" by (simp add: scan_start_def is_name_def char_class_defs)
  then have "\<exists>rq st. process_stream decimal_env \<lparr>is_rest = ''GET'', is_good = True\<rparr> (new_request []) =
      (Inl (Http (Incorrect_start_string ''GET'')), rq, st)"
    by (simp add: process_stream_def getline_def process_start_scan)
  then obtain s1 where r: "read_request decimal_env (?s\<lparr>ss_read := No_read\<rparr>) = (Inl (Http (Incorrect_start_string ''GET'')), s1)"
    by (auto simp: read_request_def run_session_def add_request_handler_def mk_session_def)
  then have "\<exists>s'. process_request decimal_env ([] :: unit manager) [] (?s\<lparr>ss_read := No_read\<rparr>) = Some s'"
    by (simp add: process_request_def)
  then obtain s' where p: "process_request decimal_env ([] :: unit manager) [] (?s\<lparr>ss_read := No_read\<rparr>) = Some s'" by blast
  show ?thesis using session_answers_errors [OF p] r p by (intro exI [of _ s']) auto
qed

lemma garbage_processed:
  assumes "scan_start line = None" "LF \<notin> set line" "ss_processing_new_request s"
    and "ss_stream_buffer s = line @ LF # rest"
  shows "process_request env mgr sn s = Some (session_handle_error sn (Http (Incorrect_start_string line))
    (s\<lparr>ss_request := reset (ss_request s), ss_stream_buffer := rest\<rparr>))"
proof -
  have "process_stream env \<lparr>is_rest = line @ LF # rest, is_good = True\<rparr> (ss_request s) =
      (Inl (Http (Incorrect_start_string line)), reset (ss_request s), \<lparr>is_rest = rest, is_good = True\<rparr>)"
    using getline_line [OF assms(2), of rest "[]"] assms(1) by (simp add: process_stream_def process_start_scan)
  then show ?thesis using assms(3,4) by (simp add: process_request_def read_request_def)
qed

text \<open>
  A first line that is not a request line is answered before the version is known, so the
  status line the client gets is \<open>HTTP/unknown 400 Bad Request\<close>, which no HTTP client can read.
\<close>
theorem garbage_gets_unknown_version:
  assumes "scan_start line = None" "LF \<notin> set line" "ss_processing_new_request s"
    and "ss_stream_buffer s = line @ LF # rest"
  shows "\<exists>s' r body. process_request env mgr sn s = Some s' \<and> ss_queue s' = ss_queue s @ [r] \<and>
    wire r = Some (''HTTP/unknown 400 Bad Request'' @ [CR, LF] @ body)"
proof -
  have v: "rq_version (reset (ss_request s)) = V_unknown" by (simp add: reset_def)
  note w = repr_wire [OF repr_phony [of status_bad_request "reset (ss_request s)" sn]]
  have "\<exists>body. wire (phony_response sn (reset (ss_request s)) status_bad_request) =
      Some (''HTTP/unknown 400 Bad Request'' @ [CR, LF] @ body)"
    unfolding w by (simp add: render_def status_line_def v status_bad_request_def)
  then show ?thesis
    by (simp add: garbage_processed [OF assms] session_handle_error_def send_phony_def session_error_status_def)
qed

lemma garbage_gets_unknown_version_witness:
  "\<exists>s' r body. process_request decimal_env ([] :: unit manager) []
      ((run_session [] 80 ())\<lparr>ss_stream_buffer := ''hello'' @ LF # []\<rparr>) = Some s' \<and> ss_queue s' = [r] \<and>
    wire r = Some (''HTTP/unknown 400 Bad Request'' @ [CR, LF] @ body)"
proof -
  have "scan_start ''hello'' = None" by (simp add: scan_start_def is_name_def char_class_defs)
  from garbage_gets_unknown_version [OF this, of "(run_session [] 80 ())\<lparr>ss_stream_buffer := ''hello'' @ LF # []\<rparr>"
      "[]" decimal_env "[]" "[]"]
  show ?thesis by (simp add: run_session_def add_request_handler_def mk_session_def)
qed

text \<open>A session that has answered one such line.\<close>

lemma garbage_session:
  fixes mgr :: "unit manager"
  shows "\<exists>s r. reachable decimal_env mgr [] s \<and> ss_produced s = [r] \<and> ss_queue s = [r] \<and> \<not> ss_broken s"
proof -
  let ?s0 = "run_session [] 80 () :: unit session"
  let ?data = "''hello'' @ CR # LF # [CR, LF]"
  let ?s1 = "?s0\<lparr>ss_read := No_read, ss_stream_buffer := ss_stream_buffer ?s0 @ ?data\<rparr>"
  have scan: "scan_start (''hello'' @ [CR]) = None" by (simp add: scan_start_def is_name_def char_class_defs)
  have r: "process_request decimal_env mgr [] ?s1 = Some (session_handle_error [] (Http (Incorrect_start_string (''hello'' @ [CR])))
      (?s1\<lparr>ss_request := reset (ss_request ?s1), ss_stream_buffer := [CR, LF]\<rparr>))"
    by (rule garbage_processed [OF scan]) (simp_all add: run_session_def mk_session_def add_request_handler_def)
  have sep: "read_complete (ss_read ?s0) (ss_stream_buffer ?s0) ?data"
  proof -
    have "has_separator ?data"
      unfolding has_separator_def by (rule exI [of _ "''hello''"], rule exI [of _ "[]"]) (simp add: header_body_separator_def)
    then show ?thesis by (simp add: read_complete_def run_session_def mk_session_def add_request_handler_def)
  qed
  have "reachable decimal_env mgr [] (session_handle_error [] (Http (Incorrect_start_string (''hello'' @ [CR])))
      (?s1\<lparr>ss_request := reset (ss_request ?s1), ss_stream_buffer := [CR, LF]\<rparr>))"
    by (rule reachable.step [OF reachable.start session_step.read_ok [OF sep]])
      (simp, simp only: request_handler_def simp_thms if_True r)
  then show ?thesis
    by (intro exI conjI, assumption) (simp_all add: session_handle_error_def send_phony_def send_response_def add_response_handler_def
        run_session_def mk_session_def add_request_handler_def)
qed

lemma responses_in_order_witness:
  "\<exists>(s :: unit session) r. ss_queue s = [r] \<and> ss_sending s \<and> ss_sent s = []"
proof -
  obtain s :: "unit session" and r where s: "reachable decimal_env [] [] s" "ss_produced s = [r]" "ss_queue s = [r]" "\<not> ss_broken s"
    using garbage_session by blast
  with responses_in_order [OF s(1)] show ?thesis by (intro exI [of _ s] exI [of _ r]) simp
qed

section \<open>What is sent\<close>

text \<open>
  The hosts of a manager keep the contract \<open>responder\<close>. Then everything a session ever queues is
  framed for some request, so a client can tell where each response ends.
\<close>

definition hosts_framed :: "'w manager \<Rightarrow> bool" where
  "hosts_framed mgr \<longleftrightarrow> (\<forall>h\<in>set mgr. responder (vh_response h))"

lemma manager_host_in: "manager_host mgr n port = Inr h \<Longrightarrow> h \<in> set mgr"
  by (auto simp: manager_host_def find_host_def find_Some_iff split: option.splits if_splits)

lemma dispatch_framed:
  assumes d: "dispatch mgr port sn rq w = Some y" and h: "hosts_framed mgr"
  shows "\<forall>r. fst y = Inr r \<longrightarrow> framed (fst (snd y)) r"
proof -
  have "hosts_framed mgr \<longrightarrow> (\<forall>r. fst y = Inr r \<longrightarrow> framed (fst (snd y)) r)"
  proof (rule dispatch.raw_induct [where P = "\<lambda>mgr port sn rq w y.
        hosts_framed mgr \<longrightarrow> (\<forall>r. fst y = Inr r \<longrightarrow> framed (fst (snd y)) r)", OF _ d], intro impI)
    fix f mgr' port' sn' rq' w' y'
    assume IH: "\<And>a b c d e (y :: (exn + response) \<times> request \<times> 'a). f a b c d e = Some y \<Longrightarrow>
        hosts_framed a \<longrightarrow> (\<forall>r. fst y = Inr r \<longrightarrow> framed (fst (snd y)) r)"
      and body: "(if rq_port rq' \<noteq> port'
        then Some (Inl (Http (Incorrect_port (to_string (unat (rq_port rq'))))), rq', w')
        else case manager_host mgr' (rq_host rq') (rq_port rq') of
          Inl e \<Rightarrow> Some (Inl e, rq', w')
        | Inr host \<Rightarrow>
           (case vh_response host sn' rq' w' of
              (Inl e, rq, w) \<Rightarrow> Some (Inl e, rq, w)
            | (Inr None, rq, w) \<Rightarrow> f mgr' port' sn' rq w
            | (Inr (Some r), rq, w) \<Rightarrow> Some (Inr r, rq, w))) = Some y'"
      and hf: "hosts_framed mgr'"
    show "\<forall>r. fst y' = Inr r \<longrightarrow> framed (fst (snd y')) r"
    proof (cases "rq_port rq' \<noteq> port'")
      case False
      show ?thesis
      proof (cases "manager_host mgr' (rq_host rq') (rq_port rq')")
        case (Inl e)
        then show ?thesis using body False by auto
      next
        case (Inr hst)
        have resp: "responder (vh_response hst)"
          using hf manager_host_in [OF Inr] by (simp add: hosts_framed_def)
        obtain x rq2 w2 where v: "vh_response hst sn' rq' w' = (x, rq2, w2)" by (metis prod_cases3)
        consider e where "x = Inl e" | "x = Inr None" | r where "x = Inr (Some r)"
          by (metis option.exhaust sum.exhaust)
        then show ?thesis
        proof cases
          case 2
          then have "f mgr' port' sn' rq2 w2 = Some y'" using body False Inr v by simp
          from IH [OF this] show ?thesis using hf by blast
        next
          case (3 r)
          then have "framed rq2 r" using responder.response_framed [OF resp] v by blast
          then show ?thesis using body False Inr v 3 by auto
        qed (use body False Inr v in auto)
      qed
    qed (use body in auto)
  qed
  then show ?thesis using h by blast
qed

lemma outcome_produced:
  "outcome env mgr sn s s' \<Longrightarrow> hosts_framed mgr \<Longrightarrow>
   ss_produced s' = ss_produced s \<or> (\<exists>r rq. ss_produced s' = ss_produced s @ [r] \<and> framed rq r)"
proof (induction rule: outcome.induct)
  case (answered s1 s2 r s')
  from dispatch_framed [OF answered(3,6)] have "framed (ss_request s2) r" by simp
  then show ?case using answered(2,4) by (auto simp: same_sending_def)
qed (auto simp: same_sending_def)

text \<open>
  If the hosts keep their contract, every response a session ever queues is framed for the
  request it answers, its own error pages included, whatever the clients send and however reads
  and writes interleave.
\<close>
theorem session_responses_framed:
  assumes "hosts_framed mgr" "reachable env mgr names s"
  shows "\<forall>r\<in>set (ss_produced s). \<exists>rq. framed rq r"
  using assms(2)
proof induction
  case (start client_address server_port w)
  then show ?case by (simp add: run_session_def mk_session_def)
next
  case (step s s')
  have "ss_produced s' = ss_produced s \<or> (\<exists>r rq. ss_produced s' = ss_produced s @ [r] \<and> framed rq r)"
    using step.hyps(2)
  proof (cases rule: session_step.cases)
    case (read_ok arrived sn)
    then show ?thesis
      using outcome_produced [OF process_request_outcome assms(1)] by (fastforce simp: request_handler_def)
  qed (auto simp: response_handler_def Let_def)
  then show ?case using step.IH by auto
qed

lemma session_responses_framed_witness:
  "\<exists>(s :: unit session) r. ss_produced s = [r] \<and> (\<exists>rq. framed rq r)"
proof -
  let ?mgr = "[mk_base_vhost \<lparr>name = ''localhost'', ports = [80]\<rparr>] :: unit manager"
  have h: "hosts_framed ?mgr"
    using base_host.responder_axioms by (simp add: hosts_framed_def mk_base_vhost_def)
  obtain s r where s: "reachable decimal_env ?mgr [] s" "ss_produced s = [r]" using garbage_session by blast
  with session_responses_framed [OF h s(1)] show ?thesis by auto
qed

end
