(* ===== verification/Hierarchy.thy ===== *)
theory Hierarchy
  imports Session
begin

text \<open>
  \<open>host/path_utils\<close>, \<open>host/modules/hierarchy\<close>, \<open>host/modules/phony\<close>, \<open>host/module\<close> and
  \<open>host/generator\<close>: a host that hands requests on to other hosts by the first section of the path,
  and the construction of hosts from a configuration. Hierarchies nest; the specification of
  the routing is a walk through a tree.
\<close>

declare dropWhile_eq_Nil_conv [simp del] takeWhile_eq_Nil_iff [simp del]

section \<open>\<open>split_first_section\<close>\<close>

definition is_slash_or_query :: "char \<Rightarrow> bool" where
  "is_slash_or_query c \<longleftrightarrow> c = CHR ''/'' \<or> c = CHR ''?''"

abbreviation in_section :: "char \<Rightarrow> bool" where
  "in_section \<equiv> \<lambda>c. \<not> is_slash_or_query c"

definition section_regex :: regex where
  "section_regex = Sq Bol (Sq (Lit CHR ''/'') (Sq (Grp 1 (Star (Cls in_section)))
     (Sq (Opt (Grp 2 (Sq (Cls is_slash_or_query) (Star (Cls not_newline))))) Eol)))"

definition split_first_section :: "string \<Rightarrow> exn + (string \<times> string)" where
  "split_first_section path = (case regex_match section_regex path of
     None \<Rightarrow> Inl (Std_logic ''Incorrect path'')
   | Some m \<Rightarrow> Inr (group 1 m, group 2 m))"

text \<open>The reference: what lies between the leading slash and the next \<open>/\<close> or \<open>?\<close>, and the rest.\<close>

definition section_split :: "string \<Rightarrow> (string \<times> string) option" where
  "section_split path = (case path of
     [] \<Rightarrow> None
   | c # s \<Rightarrow> if c \<noteq> CHR ''/'' \<or> \<not> list_all not_newline (tl (dropWhile in_section s)) then None
             else Some (takeWhile in_section s, dropWhile in_section s))"

lemma run_end_section_tail:
  "run_end (Sq (Opt (Grp 2 (Sq (Cls is_slash_or_query) (Star (Cls not_newline))))) Eol) (n, x # t, c) =
    (if is_slash_or_query x \<and> list_all not_newline t then [(Suc n + length t, [], (2, x # t) # c)] else [])"
proof -
  let ?R = "Grp 2 (Sq (Cls is_slash_or_query) (Star (Cls not_newline)))"
  have e: "run_end (Sq (Opt ?R) Eol) st = run_end (Opt ?R) st" for st
  proof -
    have "concat (map (run_end Eol) xs) = filter (\<lambda>st. mrest st = []) xs" for xs
      by (induction xs) (auto simp: run_end_Eol)
    then show ?thesis by (simp add: run_end_Sq run_end_def [of "Opt ?R"])
  qed
  have d: "dropWhile not_newline t = [] \<longleftrightarrow> list_all not_newline t"
    by (simp add: dropWhile_eq_Nil_conv list_all_iff)
  have k: "list_all not_newline t \<Longrightarrow> takeWhile not_newline t = t"
    by (simp add: takeWhile_eq_all_conv list_all_iff)
  show ?thesis unfolding e
    by (simp add: run_end_Opt run_end_Grp run_end_Sq_Cls run_end_Star d k)
qed

lemma split_first_section_ref:
  "split_first_section path = (case section_split path of
     None \<Rightarrow> Inl (Std_logic ''Incorrect path'') | Some p \<Rightarrow> Inr p)"
proof (cases path)
  case Nil
  then show ?thesis
    by (simp add: split_first_section_def section_split_def regex_match_run_end section_regex_def
        run_end_Sq_Bol Lit_def run_end_Sq_Cls)
next
  case (Cons c s)
  let ?T = "Sq (Opt (Grp 2 (Sq (Cls is_slash_or_query) (Star (Cls not_newline))))) Eol"
  have rej: "rejects_end ?T in_section"
    unfolding rejects_end_def using run_end_section_tail by simp
  have r: "run_end section_regex (0, c # s, []) = (if c = CHR ''/'' then
      run_end ?T (1 + length (takeWhile in_section s), dropWhile in_section s, [(1, takeWhile in_section s)]) else [])"
    unfolding section_regex_def
    by (simp add: run_end_Sq_Bol Lit_def run_end_Sq_Cls run_end_Sq_Grp_Star [OF rej])
  show ?thesis
  proof (cases "dropWhile in_section s")
    case Nil
    have "run_end ?T (n, [], k) = [(n, [], k)]" for n k
      by (simp add: run_end_Sq Opt_def run_end_Eol)
    then show ?thesis using Nil
      by (simp add: split_first_section_def section_split_def regex_match_run_end r Cons group_def)
  next
    case (Cons x t)
    then have "is_slash_or_query x"
      by (metis (mono_tags, lifting) hd_dropWhile list.discI list.sel(1))
    then show ?thesis using Cons
      by (simp add: split_first_section_def section_split_def regex_match_run_end r \<open>path = c # s\<close>
          run_end_section_tail group_def)
  qed
qed

section \<open>\<open>hierarchy\<close>\<close>

record 'w hierarchy =
  hi_base :: host_base
  hi_hosts :: "(string \<times> 'w vhost) list"
  hi_default :: "'w vhost option"

text \<open>The path the host of a section sees.\<close>

definition section_path :: "string \<Rightarrow> string" where
  "section_path trailing_path = (if trailing_path = [] \<or> trailing_path ! 0 \<noteq> CHR ''/''
     then CHR ''/'' # trailing_path else trailing_path)"

definition hierarchy_response :: "'w hierarchy \<Rightarrow> 'w respond" where
  "hierarchy_response hi server_name rq w = (case split_first_section (rq_path rq) of
     Inl _ \<Rightarrow> (Inl (Host (Path_not_found (rq_path rq))), rq, w)
   | Inr (first_section, trailing_path) \<Rightarrow>
      (case map_of (hi_hosts hi) first_section of
         None \<Rightarrow> (case hi_default hi of
             Some h \<Rightarrow> vh_response h server_name rq w
           | None \<Rightarrow> (Inl (Host (Host_not_found first_section)), rq, w))
       | Some h \<Rightarrow> vh_response h server_name (rq\<lparr>rq_path := section_path trailing_path\<rparr>) w))"

text \<open>
  \<open>clear_cache\<close> uses \<open>default_host_\<close> without looking whether there is one: \<open>None\<close> is the
  dereferenced null pointer.
\<close>

definition hierarchy_clear_cache :: "'w hierarchy \<Rightarrow> 'w \<Rightarrow> 'w option" where
  "hierarchy_clear_cache hi w = (case clear_all (map snd (hi_hosts hi)) w of
     None \<Rightarrow> None
   | Some w \<Rightarrow> (case hi_default hi of None \<Rightarrow> None | Some h \<Rightarrow> vh_clear_cache h w))"

definition hierarchy_vhost :: "'w hierarchy \<Rightarrow> 'w vhost" where
  "hierarchy_vhost hi = \<lparr>vh_base = hi_base hi, vh_response = hierarchy_response hi,
     vh_clear_cache = hierarchy_clear_cache hi\<rparr>"

section \<open>\<open>generate_host\<close>, \<open>module\<close> and the constructor of \<open>hierarchy\<close>\<close>

text \<open>Of \<open>nlohmann::json\<close> also: assignment to a key (which fails for arrays and scalars).\<close>

record 'j json_edit = "'j json_lib" +
  js_set_string :: "'j \<Rightarrow> string \<Rightarrow> string \<Rightarrow> exn + 'j"
  js_set_ports :: "'j \<Rightarrow> string \<Rightarrow> port_type list \<Rightarrow> exn + 'j"

text \<open>
  Generators return an option: \<open>None\<close> is a construction that has not finished within the given
  depth of nested hierarchies.
\<close>

type_synonym ('j, 'w) host_generator = "'j \<Rightarrow> (exn + 'w vhost) option"
type_synonym ('j, 'w) host_modules = "(string, ('j, 'w) host_generator) registrar"

fun known_types :: "('j, 'w) host_modules \<Rightarrow> string" where
  "known_types [] = []"
| "known_types [(t, g)] = quoted t"
| "known_types ((t, g) # ms) = quoted t @ '', '' @ known_types ms"

definition generate_host :: "('j, 'm) json_edit_scheme \<Rightarrow> ('j, 'w) host_modules \<Rightarrow> ('j, 'w) host_generator" where
  "generate_host lib modules host_config =
     (case json_extract (js_at lib) (js_string lib) host_config [] [Key ''type''] of
        Inl e \<Rightarrow> Some (Inl e)
      | Inr (False, _) \<Rightarrow> Some (Inl (Host (Incorrect_config (''Required key: '' @ quoted ''type'' @ '' missed''))))
      | Inr (True, type) \<Rightarrow>
         (case map_of modules type of
            Some gen \<Rightarrow> gen host_config
          | None \<Rightarrow> Some (Inl (Host (Incorrect_config (''Unknown host type: '' @ quoted type @
              (if modules \<noteq> [] then '', correct values are: '' @ known_types modules else [])))))))"

text \<open>The hosts of the sections, built in the order in which the map of the sections is traversed.\<close>

definition named_config :: "('j, 'm) json_edit_scheme \<Rightarrow> host_base \<Rightarrow> 'j \<Rightarrow> exn + 'j" where
  "named_config lib b config =
     rbind (js_set_string lib config ''name'' (name b)) (\<lambda>c. js_set_ports lib c ''ports'' (ports b))"

fun section_hosts ::
  "('j, 'm) json_edit_scheme \<Rightarrow> ('j, 'w) host_generator \<Rightarrow> host_base \<Rightarrow> (string \<times> 'j) list \<Rightarrow> (string \<times> 'w vhost) list \<Rightarrow>
     (exn + (string \<times> 'w vhost) list) option" where
  "section_hosts lib gen b [] hosts = Some (Inr hosts)"
| "section_hosts lib gen b ((section_name, config) # content) hosts =
     (case named_config lib b config of
        Inl e \<Rightarrow> Some (Inl e)
      | Inr config \<Rightarrow> (case gen config of
          None \<Rightarrow> None
        | Some (Inl e) \<Rightarrow> Some (Inl e)
        | Some (Inr h) \<Rightarrow> section_hosts lib gen b content (emplace section_name h hosts)))"

definition content_type_error :: exn where
  "content_type_error = Host (Incorrect_config (''Incorrect type of: '' @ quoted ''content'' @
     '' value (in hierarchy host config), it should be map: section name -> host config''))"

definition default_host ::
  "('j, 'm) json_edit_scheme \<Rightarrow> ('j, 'w) host_generator \<Rightarrow> host_base \<Rightarrow> 'j \<Rightarrow> (exn + 'w vhost option) option" where
  "default_host lib gen b config = (case json_path (js_at lib) config [Key ''default''] of
     Inl (Out_of_range _) \<Rightarrow> Some (Inr None)
   | Inl e \<Rightarrow> Some (Inl e)
   | Inr c \<Rightarrow> (case named_config lib b c of
       Inl e \<Rightarrow> Some (Inl e)
     | Inr c \<Rightarrow> (case gen c of
         None \<Rightarrow> None
       | Some (Inl e) \<Rightarrow> Some (Inl e)
       | Some (Inr h) \<Rightarrow> Some (Inr (Some h)))))"

definition mk_hierarchy ::
  "('j, 'm) json_edit_scheme \<Rightarrow> ('j, 'w) host_generator \<Rightarrow> 'j \<Rightarrow> (exn + 'w hierarchy) option" where
  "mk_hierarchy lib gen config = (case mk_host_base (json_lib.truncate lib) config of
     Inl e \<Rightarrow> Some (Inl e)
   | Inr b \<Rightarrow>
      (case json_extract (js_at lib) (js_object lib) config [] [Key ''content''] of
         Inl e \<Rightarrow> Some (Inl (if is_std_logic_error e then content_type_error else e))
       | Inr (_, content) \<Rightarrow>
          (case section_hosts lib gen b content [] of
             None \<Rightarrow> None
           | Some (Inl e) \<Rightarrow> Some (Inl e)
           | Some (Inr hosts) \<Rightarrow>
              (case default_host lib gen b config of
                 None \<Rightarrow> None
               | Some (Inl e) \<Rightarrow> Some (Inl e)
               | Some (Inr d) \<Rightarrow> Some (Inr \<lparr>hi_base = b, hi_hosts = hosts, hi_default = d\<rparr>)))))"

text \<open>
  The module of phony hosts, and that of hierarchies over a generator; the registrar of the
  program holds these two and the modules of the other hosts.
\<close>

definition phony_module :: "('j, 'm) json_edit_scheme \<Rightarrow> ('j, 'w) host_generator" where
  "phony_module lib config = (case mk_host_base (json_lib.truncate lib) config of
     Inl e \<Rightarrow> Some (Inl e) | Inr b \<Rightarrow> Some (Inr (mk_base_vhost b)))"

definition hierarchy_module :: "('j, 'm) json_edit_scheme \<Rightarrow> ('j, 'w) host_generator \<Rightarrow> ('j, 'w) host_generator" where
  "hierarchy_module lib gen config = (case mk_hierarchy lib gen config of
     None \<Rightarrow> None | Some (Inl e) \<Rightarrow> Some (Inl e) | Some (Inr hi) \<Rightarrow> Some (Inr (hierarchy_vhost hi)))"

definition host_registrar ::
  "('j, 'm) json_edit_scheme \<Rightarrow> ('j, 'w) host_generator \<Rightarrow> ('j, 'w) host_modules \<Rightarrow> ('j, 'w) host_modules" where
  "host_registrar lib gen others =
     snd (mk_module ''hierarchy'' (hierarchy_module lib gen) (snd (mk_module ''phony'' (phony_module lib) others)))"


fun generate_host_fuel :: "('j, 'm) json_edit_scheme \<Rightarrow> ('j, 'w) host_modules \<Rightarrow> nat \<Rightarrow> ('j, 'w) host_generator" where
  "generate_host_fuel lib others 0 = (\<lambda>config. None)"
| "generate_host_fuel lib others (Suc fuel) =
     generate_host lib (host_registrar lib (generate_host_fuel lib others fuel) others)"

text \<open>\<open>manager_generator\<close>: every host of the list is generated and added; the first failure ends it.\<close>

fun generate_manager :: "('j, 'w) host_generator \<Rightarrow> 'j list \<Rightarrow> 'w manager \<Rightarrow> (exn + 'w manager) option" where
  "generate_manager gen [] m = Some (Inr m)"
| "generate_manager gen (host_config # hosts_config) m = (case gen host_config of
     None \<Rightarrow> None
   | Some (Inl e) \<Rightarrow> Some (Inl e)
   | Some (Inr h) \<Rightarrow> (case add_host (Some h) m of
       (Inl e, _) \<Rightarrow> Some (Inl e)
     | (Inr _, m) \<Rightarrow> generate_manager gen hosts_config m))"

section \<open>Routing through nested hierarchies\<close>

datatype 'w tree = Leaf "'w vhost" | Node "(string \<times> 'w tree) list" "'w tree option"

fun tree_vhost :: "host_base \<Rightarrow> 'w tree \<Rightarrow> 'w vhost" where
  "tree_vhost b (Leaf h) = h"
| "tree_vhost b (Node ts d) = hierarchy_vhost \<lparr>hi_base = b,
     hi_hosts = map (\<lambda>(s, t). (s, tree_vhost b t)) ts, hi_default = map_option (tree_vhost b) d\<rparr>"

text \<open>The leaf a path leads to, or the error, and what is left of the path.\<close>

function walk :: "'w tree \<Rightarrow> string \<Rightarrow> (exn + 'w vhost) \<times> string" where
  "walk (Leaf h) path = (Inr h, path)"
| "walk (Node ts d) path = (case section_split path of
     None \<Rightarrow> (Inl (Host (Path_not_found path)), path)
   | Some (s, trailing) \<Rightarrow> (case map_of ts s of
       Some t \<Rightarrow> walk t (section_path trailing)
     | None \<Rightarrow> (case d of Some t \<Rightarrow> walk t path | None \<Rightarrow> (Inl (Host (Host_not_found s)), path))))"
  by pat_completeness auto
termination
  by (relation "measure (\<lambda>(t, path). size t)")
    (auto dest!: map_of_SomeD intro!: le_imp_less_Suc trans_le_add1 size_list_estimation')

lemma map_of_tree: "map_of (map (\<lambda>(s, t). (s, f t)) ts) s = map_option f (map_of ts s)"
  by (induction ts) auto

lemma rq_path_self [simp]: "rq\<lparr>rq_path := rq_path rq\<rparr> = rq" for rq :: request
  by (cases rq) simp

text \<open>
  C11: Nested hierarchies route a request by a walk through the tree of their sections: every
  level takes the first section of what is left of the path; where no section of that name
  exists the default host gets the path as it is, and without one the request fails with
  \<open>host_not_found\<close>, or with \<open>path_not_found\<close> where the path has no section. The host at the end
  sees exactly what is left of the path.
\<close>
theorem hierarchy_refines_walk:
  "vh_response (tree_vhost b t) sn rq w = (case walk t (rq_path rq) of
     (Inl e, path) \<Rightarrow> (Inl e, rq\<lparr>rq_path := path\<rparr>, w)
   | (Inr h, path) \<Rightarrow> vh_response h sn (rq\<lparr>rq_path := path\<rparr>) w)"
proof (induction t "rq_path rq" arbitrary: rq rule: walk.induct)
  case (2 ts d)
  show ?case
  proof (cases "section_split (rq_path rq)")
    case None
    then show ?thesis by (simp add: hierarchy_vhost_def hierarchy_response_def split_first_section_ref)
  next
    case (Some st)
    then obtain s trailing where st: "section_split (rq_path rq) = Some (s, trailing)" by (cases st) auto
    show ?thesis
    proof (cases "map_of ts s")
      case None
      then show ?thesis
        using st "2.hyps"(1) [OF st refl None]
        by (simp add: hierarchy_vhost_def hierarchy_response_def split_first_section_ref map_of_tree
            split: option.split)
    next
      case (Some t')
      then show ?thesis
        using st "2.hyps"(2) [OF st refl Some, of "rq\<lparr>rq_path := section_path trailing\<rparr>"]
        by (simp add: hierarchy_vhost_def hierarchy_response_def split_first_section_ref map_of_tree
            split: prod.split sum.split)
    qed
  qed
qed simp

text \<open>What a section is, for a path written by a client.\<close>

lemma section_split_path:
  assumes "list_all in_section s" "list_all not_newline rest" "rest = [] \<or> is_slash_or_query (hd rest)"
  shows "section_split (''/'' @ s @ rest) = Some (s, rest)"
proof -
  have "takeWhile in_section (s @ rest) = s" "dropWhile in_section (s @ rest) = rest"
    using assms(1,3) by (cases rest; auto simp: list_all_iff takeWhile_append dropWhile_append
      takeWhile_eq_Nil_iff dropWhile_eq_Nil_conv)+
  then show ?thesis using assms(2) by (cases rest) (simp_all add: section_split_def)
qed

text \<open>
  A path \<open>/<section>\<close> with something behind it reaches the host of the section, and that host
  sees a path that starts with a slash: what follows the section if that is a path, and the
  query behind a slash if it is a query.
\<close>
theorem hierarchy_section:
  assumes "list_all in_section s" "list_all not_newline rest" "rest = [] \<or> is_slash_or_query (hd rest)"
    and "rq_path rq = ''/'' @ s @ rest" "map_of (hi_hosts hi) s = Some h"
  shows "hierarchy_response hi sn rq w = vh_response h sn
    (rq\<lparr>rq_path := if rest \<noteq> [] \<and> hd rest = CHR ''/'' then rest else ''/'' @ rest\<rparr>) w"
  using section_split_path [OF assms(1-3)] assms(4,5)
  by (cases rest) (simp_all add: hierarchy_response_def split_first_section_ref section_path_def)

lemma hierarchy_section_witness:
  "hierarchy_response \<lparr>hi_base = default_host_base, hi_hosts = [(''u'', mk_base_vhost default_host_base)], hi_default = None\<rparr>
      [] (new_request []\<lparr>rq_path := ''/u?x''\<rparr>) () =
   vh_response (mk_base_vhost default_host_base)  [] (new_request []\<lparr>rq_path := ''/?x''\<rparr>) ()"
  using hierarchy_section [of "''u''" "''?x''" "new_request []\<lparr>rq_path := ''/u?x''\<rparr>"
    "\<lparr>hi_base = default_host_base, hi_hosts = [(''u'', mk_base_vhost default_host_base)], hi_default = None\<rparr>"
    "mk_base_vhost default_host_base" "[]" "()"]
  by (simp add: is_slash_or_query_def not_newline_def)

section \<open>The contract of the hosts is inherited\<close>

lemma hierarchy_responder:
  assumes "\<And>s h. (s, h) \<in> set (hi_hosts hi) \<Longrightarrow> responder (vh_response h)"
    and "\<And>h. hi_default hi = Some h \<Longrightarrow> responder (vh_response h)"
  shows "responder (hierarchy_response hi)"
proof
  fix sn rq w r rq' w'
  assume r: "hierarchy_response hi sn rq w = (Inr (Some r), rq', w')"
  then obtain h rq1 where h: "vh_response h sn rq1 w = (Inr (Some r), rq', w')"
    "(\<exists>s. (s, h) \<in> set (hi_hosts hi)) \<or> hi_default hi = Some h"
    by (auto simp: hierarchy_response_def dest!: map_of_SomeD split: sum.splits prod.splits option.splits)
  then have "responder (vh_response h)" using assms by blast
  then show "framed rq' r" using h(1) by (rule responder.response_framed)
qed

lemma section_hosts_all:
  "section_hosts lib gen b content hosts = Some (Inr hosts') \<Longrightarrow> (\<And>s h. (s, h) \<in> set hosts \<Longrightarrow> P h) \<Longrightarrow>
   (\<And>c h. gen c = Some (Inr h) \<Longrightarrow> P h) \<Longrightarrow> (s, h) \<in> set hosts' \<Longrightarrow> P h"
proof (induction lib gen b content hosts arbitrary: s h rule: section_hosts.induct)
  case (2 lib gen b n config content hosts)
  from "2.prems"(1) obtain c h' where c: "named_config lib b config = Inr c" "gen c = Some (Inr h')"
    "section_hosts lib gen b content (emplace n h' hosts) = Some (Inr hosts')"
    by (auto split: sum.splits option.splits)
  have "P h''" if "(s, h'') \<in> set (emplace n h' hosts)" for s h''
    using that "2.prems"(2) "2.prems"(3) [OF c(2)] by (auto simp: emplace_def split: if_splits)
  then show ?case by (rule "2.IH" [OF c(1,2) refl c(3) _ "2.prems"(3,4)])
qed auto

lemma mk_hierarchy_responder:
  assumes "mk_hierarchy lib gen config = Some (Inr hi)"
    and gen: "\<And>c h. gen c = Some (Inr h) \<Longrightarrow> responder (vh_response h)"
  shows "responder (hierarchy_response hi)"
proof -
  from assms(1) obtain b content hosts d where
    h: "section_hosts lib gen b content [] = Some (Inr hosts)" "default_host lib gen b config = Some (Inr d)"
      "hi = \<lparr>hi_base = b, hi_hosts = hosts, hi_default = d\<rparr>"
    by (auto simp: mk_hierarchy_def split: sum.splits option.splits prod.splits)
  show ?thesis
  proof (rule hierarchy_responder)
    fix s h assume "(s, h) \<in> set (hi_hosts hi)"
    then show "responder (vh_response h)"
      using section_hosts_all [OF h(1), of "\<lambda>h. responder (vh_response h)"] gen h(3) by auto
  next
    fix h assume "hi_default hi = Some h"
    then obtain c where "gen c = Some (Inr h)" using h(2,3)
      by (auto simp: default_host_def split: sum.splits option.splits exn.splits)
    then show "responder (vh_response h)" by (rule gen)
  qed
qed

lemma mk_module_lookup: "map_of (snd (mk_module i m r)) j = Some g \<Longrightarrow> map_of r j = Some g \<or> j = i \<and> g = m"
  by (auto simp: mk_module_def reg_add_def map_add_def split: if_splits option.splits)

lemma host_registrar_lookup:
  "map_of (host_registrar lib gen others) t = Some g \<Longrightarrow>
   map_of others t = Some g \<or> g = phony_module lib \<or> g = hierarchy_module lib gen"
  by (auto simp: host_registrar_def dest!: mk_module_lookup)

lemma generate_host_type:
  "generate_host lib modules config = Some (Inr h) \<Longrightarrow> \<exists>t g. map_of modules t = Some g \<and> g config = Some (Inr h)"
  by (fastforce simp: generate_host_def split: sum.splits option.splits bool.splits)

text \<open>
  Whatever hosts a configuration nests, the host built from it keeps the contract of
  \<open>response\<close> if the hosts of the other modules do: its responses are framed for the request.
\<close>
theorem generated_hosts_framed:
  assumes "generate_host_fuel lib others fuel config = Some (Inr h)"
    and "\<And>t g c h. map_of others t = Some g \<Longrightarrow> g c = Some (Inr h) \<Longrightarrow> responder (vh_response h)"
    and "vh_response h sn rq w = (Inr (Some r), rq', w')"
  shows "framed rq' r"
proof -
  have "responder (vh_response h)" using assms(1)
  proof (induction fuel arbitrary: config h)
    case (Suc fuel)
    let ?gen = "generate_host_fuel lib others fuel"
    obtain t g where g: "map_of (host_registrar lib ?gen others) t = Some g" "g config = Some (Inr h)"
      using generate_host_type Suc.prems by fastforce
    consider "map_of others t = Some g" | "g = phony_module lib" | "g = hierarchy_module lib ?gen"
      using host_registrar_lookup [OF g(1)] by blast
    then show ?case
    proof cases
      case 1
      then show ?thesis using assms(2) g(2) by blast
    next
      case 2
      then show ?thesis using g(2) base_host.responder_axioms
        by (auto simp: phony_module_def mk_base_vhost_def split: sum.splits)
    next
      case 3
      then obtain hi where "mk_hierarchy lib ?gen config = Some (Inr hi)" "h = hierarchy_vhost hi"
        using g(2) by (auto simp: hierarchy_module_def split: sum.splits option.splits)
      then show ?thesis using mk_hierarchy_responder Suc.IH by (fastforce simp: hierarchy_vhost_def)
    qed
  qed simp
  then show ?thesis using assms(3) by (rule responder.response_framed)
qed

section \<open>Clearing the caches\<close>

text \<open>
  Clearing the caches dereferences a null pointer as soon as the server has a hierarchy
  without a default host, although a default host is optional: whatever the other hosts do, no
  \<open>clear_cache\<close> of a manager that contains such a host completes.
\<close>
theorem clear_cache_needs_default:
  assumes "hierarchy_vhost hi \<in> set mgr" "hi_default hi = None"
  shows "manager_clear_cache mgr w = None"
proof -
  have h: "vh_clear_cache (hierarchy_vhost hi) w = None" for w
    using assms(2) by (simp add: hierarchy_vhost_def hierarchy_clear_cache_def split: option.split)
  have "clear_all mgr w = None" using assms(1)
    by (induction mgr arbitrary: w) (auto simp: h split: option.split)
  then show ?thesis by (simp add: manager_clear_cache_def)
qed

lemma clear_cache_needs_default_witness:
  "manager_clear_cache [mk_base_vhost default_host_base,
     hierarchy_vhost \<lparr>hi_base = default_host_base, hi_hosts = [], hi_default = None\<rparr>] () = None"
  by (rule clear_cache_needs_default [of "\<lparr>hi_base = default_host_base, hi_hosts = [], hi_default = None\<rparr>"]) simp_all

section \<open>The construction ends\<close>

text \<open>
  A measure of the nesting of a JSON value: element access goes down, and setting a key to a
  string or to a list of numbers adds no nesting.
\<close>

definition json_nesting :: "('j, 'm) json_edit_scheme \<Rightarrow> ('j \<Rightarrow> nat) \<Rightarrow> bool" where
  "json_nesting lib m \<longleftrightarrow>
     (\<forall>c k c'. js_at lib c k = Inr c' \<longrightarrow> m c' < m c) \<and>
     (\<forall>c kvs k v. js_object lib c = Inr kvs \<longrightarrow> (k, v) \<in> set kvs \<longrightarrow> m v < m c) \<and>
     (\<forall>c k s c'. js_set_string lib c k s = Inr c' \<longrightarrow> m c' \<le> m c) \<and>
     (\<forall>c k p c'. js_set_ports lib c k p = Inr c' \<longrightarrow> m c' \<le> m c)"

lemma named_config_nesting: "json_nesting lib m \<Longrightarrow> named_config lib b c = Inr c' \<Longrightarrow> m c' \<le> m c"
  unfolding json_nesting_def named_config_def rbind_Inr_iff by (meson le_trans)

text \<open>Two generators that are total and agree below a nesting build the same things there.\<close>

definition agree_below :: "('j \<Rightarrow> nat) \<Rightarrow> nat \<Rightarrow> ('j, 'w) host_generator \<Rightarrow> ('j, 'w) host_generator \<Rightarrow> bool" where
  "agree_below m n gen gen' \<longleftrightarrow> (\<forall>c. m c < n \<longrightarrow> gen' c = gen c \<and> gen c \<noteq> None)"

lemma section_hosts_agree:
  assumes "json_nesting lib m" "agree_below m n gen gen'"
  shows "(\<And>k c. (k, c) \<in> set content \<Longrightarrow> m c < n) \<Longrightarrow>
   section_hosts lib gen' b content hosts = section_hosts lib gen b content hosts \<and>
   section_hosts lib gen b content hosts \<noteq> None"
proof (induction content arbitrary: hosts)
  case (Cons x content)
  obtain k config where x: "x = (k, config)" by (cases x) auto
  show ?case
  proof (cases "named_config lib b config")
    case (Inr c)
    have "m c < n" using named_config_nesting [OF assms(1) Inr] Cons.prems [of k config] x by simp
    then have g: "gen' c = gen c" "gen c \<noteq> None" using assms(2) by (auto simp: agree_below_def)
    have "section_hosts lib gen' b content hosts = section_hosts lib gen b content hosts \<and>
      section_hosts lib gen b content hosts \<noteq> None" for hosts
      using Cons.IH [of hosts] Cons.prems by (meson list.set_intros(2))
    with g show ?thesis by (auto simp: x Inr split: sum.split)
  qed (simp add: x)
qed simp

lemma default_host_agree:
  assumes "json_nesting lib m" "agree_below m (m config) gen gen'"
  shows "default_host lib gen' b config = default_host lib gen b config \<and> default_host lib gen b config \<noteq> None"
proof (cases "js_at lib config (Key ''default'')")
  case (Inl e)
  then show ?thesis by (cases e) (simp_all add: default_host_def)
next
  case (Inr c)
  show ?thesis
  proof (cases "named_config lib b c")
    case (Inr c')
    have "m c' \<le> m c" by (rule named_config_nesting [OF assms(1) Inr])
    also have "m c < m config" using assms(1) \<open>js_at lib config _ = Inr c\<close> by (auto simp: json_nesting_def)
    finally have "gen' c' = gen c'" "gen c' \<noteq> None" using assms(2) by (auto simp: agree_below_def)
    then show ?thesis using Inr \<open>js_at lib config _ = Inr c\<close>
      by (auto simp: default_host_def split: sum.split)
  qed (simp add: default_host_def Inr)
qed

lemma hierarchy_module_agree:
  assumes "json_nesting lib m" "agree_below m (m config) gen gen'"
  shows "hierarchy_module lib gen' config = hierarchy_module lib gen config \<and> hierarchy_module lib gen config \<noteq> None"
proof -
  have "section_hosts lib gen' b content [] = section_hosts lib gen b content [] \<and>
    section_hosts lib gen b content [] \<noteq> None"
    if e: "json_extract (js_at lib) (js_object lib) config [] [Key ''content''] = Inr (found, content)"
    for b found content
  proof (rule section_hosts_agree [OF assms])
    fix k v assume v: "(k, v) \<in> set content"
    then obtain c where "js_at lib config (Key ''content'') = Inr c" "js_object lib c = Inr content"
      using e by (auto simp: json_extract_def json_get_def split: sum.splits exn.splits)
    then show "m v < m config" using assms(1) v unfolding json_nesting_def by (meson less_trans)
  qed
  then have "mk_hierarchy lib gen' config = mk_hierarchy lib gen config \<and> mk_hierarchy lib gen config \<noteq> None"
    using default_host_agree [OF assms]
    by (auto simp: mk_hierarchy_def split: sum.splits option.splits simp del: not_None_eq)
  then show ?thesis by (auto simp: hierarchy_module_def split: option.splits sum.splits)
qed

lemma known_types_last: "known_types (qs @ [(t, a)]) = known_types (qs @ [(t, b)])"
  by (induction qs rule: known_types.induct) simp_all

lemma host_registrar_agree:
  assumes "json_nesting lib m" "agree_below m (m config) gen gen'"
    and "\<And>t g c. map_of others t = Some g \<Longrightarrow> g c \<noteq> None"
  shows "generate_host lib (host_registrar lib gen' others) config =
      generate_host lib (host_registrar lib gen others) config \<and>
    generate_host lib (host_registrar lib gen others) config \<noteq> None"
proof -
  note h = hierarchy_module_agree [OF assms(1,2)]
  let ?r = "\<lambda>g. host_registrar lib g others"
  define q where "q = snd (mk_module ''phony'' (phony_module lib) others)"
  have r: "?r g = (if map_of q ''hierarchy'' = None then q @ [(''hierarchy'', hierarchy_module lib g)] else q)" for g
    by (simp add: host_registrar_def q_def [symmetric]) (simp add: mk_module_def reg_add_def)
  have p: "phony_module lib c \<noteq> None" for c by (simp add: phony_module_def split: sum.split)
  have q: "g c \<noteq> None" if "map_of q t = Some g" for t g c
  proof -
    have "map_of others t = Some g \<or> t = ''phony'' \<and> g = phony_module lib"
      using that unfolding q_def by (rule mk_module_lookup)
    then show ?thesis using assms(3) p by blast
  qed
  have l: "(case map_of (?r gen') t of Some g \<Rightarrow> g config | None \<Rightarrow> x) =
      (case map_of (?r gen) t of Some g \<Rightarrow> g config | None \<Rightarrow> x) \<and>
    (x \<noteq> None \<longrightarrow> (case map_of (?r gen) t of Some g \<Rightarrow> g config | None \<Rightarrow> x) \<noteq> None)" for t x
    using h q by (auto simp: r map_add_def split: option.splits)
  have n: "known_types (?r gen') = known_types (?r gen)" "?r gen' = [] \<longleftrightarrow> ?r gen = []"
    using known_types_last [of q "''hierarchy''" "hierarchy_module lib gen'" "hierarchy_module lib gen"]
    by (auto simp: r)
  show ?thesis unfolding generate_host_def n
    using l by (auto split: sum.split bool.split simp del: not_None_eq)
qed

text \<open>
  C33: The construction of a host from a configuration ends: as much depth as the configuration is
  nested is enough, and more depth builds the same host or fails with the same error.
\<close>
theorem generate_host_terminates:
  assumes "json_nesting lib m" "\<And>t g c. map_of others t = Some g \<Longrightarrow> g c \<noteq> None"
  shows "\<exists>r. \<forall>fuel > m config. generate_host_fuel lib others fuel config = Some r"
proof -
  have s: "agree_below m (Suc n) (generate_host_fuel lib others (Suc n)) (generate_host_fuel lib others k)"
    if "n < k" for n k
    using that
  proof (induction n arbitrary: k rule: less_induct)
    case (less n)
    obtain k' where k: "k = Suc k'" "n \<le> k'" using less.prems by (cases k) auto
    have "generate_host_fuel lib others k c = generate_host_fuel lib others (Suc n) c \<and>
        generate_host_fuel lib others (Suc n) c \<noteq> None" if c: "m c \<le> n" for c
    proof -
      have a: "agree_below m (m c) (generate_host_fuel lib others n) (generate_host_fuel lib others k')"
      proof (cases "m c")
        case (Suc i)
        have "agree_below m (Suc i) (generate_host_fuel lib others (Suc i)) (generate_host_fuel lib others x)"
          if "x = n \<or> x = k'" for x
          using less.IH [of i x] c k(2) Suc that by auto
        then show ?thesis unfolding Suc agree_below_def by (metis (no_types, lifting))
      qed (simp add: agree_below_def)
      show ?thesis using host_registrar_agree [where others = others and config = c, OF assms(1) a] assms(2) k(1) by simp
    qed
    then show ?case by (simp add: agree_below_def less_Suc_eq_le)
  qed
  let ?g = "generate_host_fuel lib others (Suc (m config)) config"
  have "generate_host_fuel lib others fuel config = ?g \<and> ?g \<noteq> None" if "m config < fuel" for fuel
    using s [OF that] by (simp add: agree_below_def)
  then show ?thesis by (metis (no_types, lifting) lessI option.exhaust)
qed

text \<open>A JSON library in memory, for concrete configurations.\<close>

datatype json = Jnull | Jstr string | Jnum nat | Jarr "json list" | Jobj "(string \<times> json) list"

fun jm_at :: "json json_at" where
  "jm_at (Jobj kvs) (Key k) = (case map_of kvs k of None \<Rightarrow> Inl (Out_of_range ''key not found'') | Some v \<Rightarrow> Inr v)"
| "jm_at (Jarr xs) (Index n) = (if n < length xs then Inr (xs ! n) else Inl (Out_of_range ''index out of range''))"
| "jm_at _ _ = Inl (Std_logic ''cannot use at()'')"

fun jm_string :: "json \<Rightarrow> exn + string" where
  "jm_string (Jstr s) = Inr s"
| "jm_string _ = Inl (Std_logic ''type must be string'')"

fun jm_num :: "json \<Rightarrow> port_type" where
  "jm_num (Jnum n) = of_nat n"
| "jm_num _ = 0"

fun jm_ports :: "json \<Rightarrow> exn + port_type list" where
  "jm_ports (Jarr xs) = Inr (map jm_num xs)"
| "jm_ports _ = Inl (Std_logic ''type must be array'')"

fun jm_items :: "json \<Rightarrow> exn + json list" where
  "jm_items (Jarr xs) = Inr xs"
| "jm_items j = Inr [j]"

fun jm_object :: "json \<Rightarrow> exn + (string \<times> json) list" where
  "jm_object (Jobj kvs) = Inr kvs"
| "jm_object _ = Inl (Std_logic ''type must be object'')"

fun jm_set :: "json \<Rightarrow> string \<Rightarrow> json \<Rightarrow> exn + json" where
  "jm_set (Jobj kvs) k v = Inr (Jobj ((k, v) # filter (\<lambda>(k', _). k' \<noteq> k) kvs))"
| "jm_set Jnull k v = Inr (Jobj [(k, v)])"
| "jm_set _ k v = Inl (Std_logic ''cannot use operator[]'')"

definition json_memory :: "json json_edit" where
  "json_memory = \<lparr>js_at = jm_at, js_string = jm_string, js_ports = jm_ports, js_items = jm_items,
     js_object = jm_object, js_set_string = (\<lambda>j k s. jm_set j k (Jstr s)),
     js_set_ports = (\<lambda>j k ps. jm_set j k (Jarr (map (\<lambda>p. Jnum (unat p)) ps)))\<rparr>"

fun jm_nesting :: "json \<Rightarrow> nat" where
  "jm_nesting Jnull = 2"
| "jm_nesting (Jstr s) = 0"
| "jm_nesting (Jnum n) = 0"
| "jm_nesting (Jarr xs) = Suc (fold max (map jm_nesting xs) 0)"
| "jm_nesting (Jobj kvs) = Suc (fold max (map (jm_nesting \<circ> snd) kvs) 1)"

lemma fold_max_le: "fold max xs n \<le> b \<longleftrightarrow> n \<le> b \<and> (\<forall>x \<in> set xs. x \<le> b)" for n b :: nat
  by (induction xs arbitrary: n) auto

lemma jm_nesting_set: "jm_set j k v = Inr j' \<Longrightarrow> jm_nesting v \<le> 1 \<Longrightarrow> jm_nesting j' \<le> jm_nesting j"
proof (cases j)
  case (Jobj kvs)
  assume "jm_set j k v = Inr j'" "jm_nesting v \<le> 1"
  moreover have "1 \<le> fold max (map (jm_nesting \<circ> snd) kvs) 1"
    "x \<in> set (map (jm_nesting \<circ> snd) kvs) \<Longrightarrow> x \<le> fold max (map (jm_nesting \<circ> snd) kvs) 1" for x
    using fold_max_le [of "map (jm_nesting \<circ> snd) kvs" 1] by blast+
  ultimately show ?thesis using Jobj by (auto simp: fold_max_le)
qed auto

lemma json_memory_nesting: "json_nesting json_memory jm_nesting"
proof -
  have le: "x \<in> set xs \<Longrightarrow> x < Suc (fold max xs n)" for x n :: nat and xs
    using fold_max_le [of xs n "fold max xs n"] by (simp add: less_Suc_eq_le)
  have v: "(k, v) \<in> set kvs \<Longrightarrow> jm_nesting v < jm_nesting (Jobj kvs)" for k v kvs
    using le [of "jm_nesting v" "map (jm_nesting \<circ> snd) kvs"] by force
  have "jm_at c k = Inr c' \<Longrightarrow> jm_nesting c' < jm_nesting c" for c k c'
    using v le by (cases "(c, k)" rule: jm_at.cases) (auto dest: map_of_SomeD split: option.splits if_splits)
  moreover have "jm_object c = Inr kvs \<Longrightarrow> (k, x) \<in> set kvs \<Longrightarrow> jm_nesting x < jm_nesting c" for c kvs k x
    using v by (cases c) auto
  moreover have "jm_nesting (Jarr (map (\<lambda>p. Jnum (unat p)) ps)) \<le> 1" for ps :: "port_type list"
    using fold_max_le [of "map (jm_nesting \<circ> (\<lambda>p. Jnum (unat p))) ps" 0 0] by auto
  ultimately show ?thesis
    by (auto simp: json_nesting_def json_memory_def intro: jm_nesting_set)
qed

lemma generate_host_terminates_witness:
  "\<exists>r. \<forall>fuel > jm_nesting (Jobj [(''type'', Jstr ''phony'')]).
     generate_host_fuel json_memory ([] :: (json, unit) host_modules) fuel (Jobj [(''type'', Jstr ''phony'')]) = Some r"
  by (rule generate_host_terminates [OF json_memory_nesting]) simp

definition sample_config :: json where
  "sample_config = Jobj [(''type'', Jstr ''hierarchy''), (''name'', Jstr ''h''), (''ports'', Jarr [Jnum 80]),
     (''content'', Jobj [(''a'', Jobj [(''type'', Jstr ''phony'')])])]"

lemma json_memory_sel [simp]:
  "js_at json_memory = jm_at" "js_string json_memory = jm_string" "js_ports json_memory = jm_ports" "js_object json_memory = jm_object"
  "js_set_string json_memory = (\<lambda>j k s. jm_set j k (Jstr s))" "js_set_ports json_memory = (\<lambda>j k ps. jm_set j k (Jarr (map (\<lambda>p. Jnum (unat p)) ps)))"
  "js_at (json_lib.truncate json_memory) = jm_at" "js_string (json_lib.truncate json_memory) = jm_string" "js_ports (json_lib.truncate json_memory) = jm_ports"
  by (simp_all add: json_memory_def json_lib.truncate_def)

lemma sample_section_host: "generate_host_fuel json_memory [] (Suc fuel)
     (Jobj [(''ports'', Jarr [Jnum 80]), (''name'', Jstr ''h''), (''type'', Jstr ''phony'')]) = Some (Inr (mk_base_vhost \<lparr>name = ''h'', ports = [80]\<rparr>))"
  by (simp add: generate_host_def host_registrar_def mk_module_def
      reg_add_def json_extract_def json_get_def mk_host_base_def phony_module_def)

lemma sample_section_config: "named_config json_memory \<lparr>name = ''h'', ports = [80]\<rparr> (Jobj [(''type'', Jstr ''phony'')]) = Inr
     (Jobj [(''ports'', Jarr [Jnum 80]), (''name'', Jstr ''h''), (''type'', Jstr ''phony'')])"
  by (simp add: named_config_def)

lemma sample_host_base: "mk_host_base (json_lib.truncate json_memory) sample_config = Inr \<lparr>name = ''h'', ports = [80]\<rparr>"
  by (simp add: mk_host_base_def json_get_def sample_config_def)

lemma sample_config_items: "json_extract jm_at jm_object sample_config [] [Key ''content''] = Inr (True, [(''a'', Jobj [(''type'', Jstr ''phony'')])])"
  "json_extract jm_at jm_string sample_config [] [Key ''type''] = Inr (True, ''hierarchy'')"
  "default_host json_memory g b sample_config = Some (Inr None)"
  by (simp_all add: json_extract_def json_get_def sample_config_def default_host_def)

lemma sample_hierarchy:
  "mk_hierarchy json_memory (generate_host_fuel json_memory [] (Suc fuel)) sample_config = Some (Inr
     \<lparr>hi_base = \<lparr>name = ''h'', ports = [80]\<rparr>,
      hi_hosts = [(''a'', mk_base_vhost \<lparr>name = ''h'', ports = [80]\<rparr>)], hi_default = None\<rparr>)"
  unfolding mk_hierarchy_def sample_host_base
  by (simp add: sample_config_items sample_section_config sample_section_host emplace_def del: generate_host_fuel.simps)

lemma sample_config_host:
  "generate_host_fuel json_memory [] (Suc (Suc fuel)) sample_config = Some (Inr (hierarchy_vhost
     \<lparr>hi_base = \<lparr>name = ''h'', ports = [80]\<rparr>,
      hi_hosts = [(''a'', mk_base_vhost \<lparr>name = ''h'', ports = [80]\<rparr>)], hi_default = None\<rparr>))"
  unfolding generate_host_fuel.simps(2) [of _ _ "Suc fuel"] generate_host_def
  by (simp add: sample_config_items host_registrar_def mk_module_def reg_add_def hierarchy_module_def sample_hierarchy del: generate_host_fuel.simps)

lemma generated_hosts_framed_witness:
  "\<exists>r rq'. vh_response (hierarchy_vhost \<lparr>hi_base = \<lparr>name = ''h'', ports = [80]\<rparr>,
      hi_hosts = [(''a'', mk_base_vhost \<lparr>name = ''h'', ports = [80]\<rparr>)], hi_default = None\<rparr>)
     [] (new_request []\<lparr>rq_path := ''/a''\<rparr>) () = (Inr (Some r), rq', ()) \<and> framed rq' r"
proof -
  let ?h = "hierarchy_vhost \<lparr>hi_base = \<lparr>name = ''h'', ports = [80]\<rparr>,
      hi_hosts = [(''a'', mk_base_vhost \<lparr>name = ''h'', ports = [80]\<rparr>)], hi_default = None\<rparr>"
  have "section_split ''/a'' = Some (''a'', [])"
    by (simp add: section_split_def is_slash_or_query_def)
  then have r: "vh_response ?h [] (new_request []\<lparr>rq_path := ''/a''\<rparr>) () =
      (Inr (Some (phony_response [] (new_request []\<lparr>rq_path := ''/''\<rparr>) status_not_found)),
       new_request []\<lparr>rq_path := ''/''\<rparr>, ())"
    by (simp add: hierarchy_vhost_def hierarchy_response_def split_first_section_ref section_path_def
        mk_base_vhost_def base_response_def)
  have "framed (new_request []\<lparr>rq_path := ''/''\<rparr>) (phony_response [] (new_request []\<lparr>rq_path := ''/''\<rparr>) status_not_found)"
    by (rule generated_hosts_framed [OF sample_config_host [of 0] _ r]) simp
  with r show ?thesis by blast
qed

end
