(* ===== verification/Mongo.thy ===== *)
theory Mongo
  imports Base_Utils "HOL-Library.Signed_Division"
begin

unbundle bit_operations_syntax

text \<open>
  What the logic uses of MongoDB, of its C++ driver, of Crypto++ and of the clock. All of it is
  outside the sources, so it is a parameter: the record \<open>logic_env\<close> of the operations, with the
  configuration of \<open>logic/global_instance\<close>. The documents that the code builds and reads are BSON
  values. The contract of the database is the locale \<open>mongo_store\<close>: an operation acts on the
  collections as the manual of MongoDB says. A database in memory is an instance.
\<close>

section \<open>BSON\<close>

type_synonym oid = "96 word"
type_synonym millis = "64 word"

datatype bval = Bint int | Bstr string | Bdate millis | Boid oid | Barr "bval list" | Bdoc "(string \<times> bval) list"

type_synonym doc = "(string \<times> bval) list"

text \<open>\<open>obj[key]\<close>; a missing field is the element \<open>EOO\<close>.\<close>

definition field :: "doc \<Rightarrow> string \<Rightarrow> bval option" where
  "field d k = map_of d k"

section \<open>\<open>global_instance\<close>\<close>

record 'w logic_env =
  collection_users :: string
  collection_sessions :: string
  session_lifetime :: millis
  session_restart_after :: millis
  session_forget_after :: millis
  session_id_create_attempts :: "32 word"
  user_ref_create_attempts :: "32 word"
  \<comment> \<open>\<open>mongo::DBClientBase\<close>: collection, query, fields to return (none: all)\<close>
  find_one :: "string \<Rightarrow> doc \<Rightarrow> doc \<Rightarrow> ('w, exn, doc) sx"
  find_and_modify :: "string \<Rightarrow> doc \<Rightarrow> doc \<Rightarrow> doc \<Rightarrow> ('w, exn, doc) sx"
  insert_doc :: "string \<Rightarrow> doc \<Rightarrow> ('w, exn, unit) sx"
  query_docs :: "string \<Rightarrow> doc \<Rightarrow> nat \<Rightarrow> doc \<Rightarrow> ('w, exn, doc list option) sx"
  \<comment> \<open>\<open>mongo::OID\<close>, \<open>mongo::BSONElement\<close> and \<open>mongo::dateToISOStringUTC\<close>\<close>
  gen_oid :: "('w, exn, oid) sx"
  oid_string :: "oid \<Rightarrow> string"
  string_oid :: "string \<Rightarrow> exn + oid"
  el_str :: "bval option \<Rightarrow> string"
  el_string :: "bval option \<Rightarrow> exn + string"
  el_oid :: "bval option \<Rightarrow> exn + oid"
  el_date :: "bval option \<Rightarrow> exn + millis"
  el_array :: "bval option \<Rightarrow> exn + bval list"
  iso_date :: "millis \<Rightarrow> string"
  \<comment> \<open>the clock, \<open>std::random_device\<close>, the hash functions and \<open>strftime\<close>\<close>
  clock :: "('w, exn, 64 word) sx"
  random_value :: "('w, exn, 32 word) sx"
  sha512 :: "8 word list \<Rightarrow> 8 word list"
  sha256 :: "8 word list \<Rightarrow> 8 word list"
  gmt_time :: "64 word \<Rightarrow> string"

type_synonym ('w, 'a) lx = "('w, exn, 'a) sx"

text \<open>The times are in milliseconds; the defaults are those of the class.\<close>

definition one_month :: millis where
  "one_month = 30 * 24 * 60 * 60 * 1000"

definition default_parameters :: "'w logic_env \<Rightarrow> 'w logic_env" where
  "default_parameters env = env\<lparr>session_lifetime := one_month * 1, session_restart_after := one_month div 2,
     session_forget_after := one_month * 12, session_id_create_attempts := 3, user_ref_create_attempts := 5\<rparr>"

text \<open>
  The constructor: \<open>client_status\<close> is the state of the driver's global instance, \<open>num\<close> and
  \<open>num32\<close> convert a JSON number, \<open>connect\<close> parses the URI and connects.
\<close>

definition init_error :: "string \<Rightarrow> exn" where
  "init_error description = Logic (Global_instance_init_error description)"

definition required_key :: "string \<Rightarrow> exn" where
  "required_key key = init_error (''Required key: '' @ quoted key @ '' missed (in mongo parameters)'')"

datatype connection = Incorrect_uri string | Not_connected string | Connected

definition extract_required ::
  "'j json_at \<Rightarrow> ('j \<Rightarrow> exn + string) \<Rightarrow> 'j \<Rightarrow> string \<Rightarrow> exn + string" where
  "extract_required at_op conv j key =
     rbind (json_extract at_op conv j [] [Key key]) (\<lambda>(found, v). if found then Inr v else Inl (required_key key))"

definition extract_optional ::
  "'j json_at \<Rightarrow> ('j \<Rightarrow> exn + 'a) \<Rightarrow> 'j \<Rightarrow> string \<Rightarrow> 'a \<Rightarrow> exn + 'a" where
  "extract_optional at_op conv j key old = rbind (json_extract at_op conv j old [Key key]) (\<lambda>(found, v). Inr v)"

definition global_instance ::
  "'j json_at \<Rightarrow> ('j \<Rightarrow> exn + string) \<Rightarrow> ('j \<Rightarrow> exn + 64 word) \<Rightarrow> ('j \<Rightarrow> exn + 32 word) \<Rightarrow> string option \<Rightarrow>
     (string \<Rightarrow> connection) \<Rightarrow> 'j \<Rightarrow> 'w logic_env \<Rightarrow> exn + 'w logic_env" where
  "global_instance at_op str num num32 client_status connect config env0 =
     (case client_status of Some status \<Rightarrow> Inl (init_error status) | None \<Rightarrow>
      (let env = default_parameters env0 in
       rbind (case json_path at_op config [Key ''mongo''] of
                Inl (Out_of_range _) \<Rightarrow> Inl (init_error (''Required key: '' @ quoted ''mongo'' @ '' missed''))
              | r \<Rightarrow> r) (\<lambda>m.
       rbind (extract_required at_op str m ''uri'') (\<lambda>uri.
       rbind (extract_required at_op str m ''collection_users'') (\<lambda>users.
       rbind (extract_required at_op str m ''collection_sessions'') (\<lambda>sessions.
       rbind (extract_optional at_op num m ''session_lifetime'' (session_lifetime env)) (\<lambda>lifetime.
       rbind (extract_optional at_op num m ''session_restart_after'' (session_restart_after env)) (\<lambda>restart.
       rbind (extract_optional at_op num m ''session_forget_after'' (session_forget_after env)) (\<lambda>forget.
       rbind (extract_optional at_op num32 m ''session_id_create_attempts'' (session_id_create_attempts env)) (\<lambda>ids.
       rbind (extract_optional at_op num32 m ''user_ref_create_attempts'' (user_ref_create_attempts env)) (\<lambda>refs.
         (case connect uri of
            Incorrect_uri message \<Rightarrow> Inl (Logic (Mongodb_incorrect_uri message))
          | Not_connected message \<Rightarrow> Inl (Logic (Mongodb_connection_error message))
          | Connected \<Rightarrow> Inr (env\<lparr>collection_users := users, collection_sessions := sessions,
              session_lifetime := lifetime, session_restart_after := restart, session_forget_after := forget,
              session_id_create_attempts := ids, user_ref_create_attempts := refs\<rparr>)))))))))))))"

section \<open>\<open>random_hash\<close>, \<open>time_for_cookie\<close>\<close>

definition hex_numbers :: string where
  "hex_numbers = ''0123456789abcdef''"

definition hex_byte :: "8 word \<Rightarrow> string" where
  "hex_byte b = [hex_numbers ! unat (drop_bit 4 b AND 0x0F), hex_numbers ! unat (b AND 0x0F)]"

definition bytes_of :: "string \<Rightarrow> 8 word list" where
  "bytes_of s = map (\<lambda>c. of_nat (of_char c)) s"

text \<open>The bytes of an integer in memory (little endian).\<close>

definition word_bytes :: "nat \<Rightarrow> 'a::len word \<Rightarrow> 8 word list" where
  "word_bytes n w = map (\<lambda>i. ucast (drop_bit (8 * i) w)) [0..<n]"

text \<open>
  The \<open>do\<close> loop: values of the random device are hashed until more bytes than the digest has have
  been counted, at least one. \<open>hashed\<close> is what has been put into the hash so far.
\<close>

function random_data :: "'w logic_env \<Rightarrow> nat \<Rightarrow> nat \<Rightarrow> 8 word list \<Rightarrow> ('w, 8 word list) lx" where
  "random_data env digest_size data_len hashed =
     sbind (random_value env) (\<lambda>v.
       (let hashed = hashed @ word_bytes 4 v; data_len = data_len + 4 in
        if data_len \<le> digest_size then random_data env digest_size data_len hashed else sreturn hashed))"
  by pat_completeness auto
termination by (relation "measure (\<lambda>(env, digest_size, data_len, hashed). Suc digest_size - data_len)") auto

declare random_data.simps [simp del]

definition generate_random_hash ::
  "'w logic_env \<Rightarrow> nat \<Rightarrow> (8 word list \<Rightarrow> 8 word list) \<Rightarrow> string \<Rightarrow> ('w, string) lx" where
  "generate_random_hash env digest_size digest str =
     sbind (clock env) (\<lambda>current_time.
     sbind (random_data env digest_size (length str) (bytes_of str @ word_bytes 8 current_time)) (\<lambda>hashed.
       sreturn (concat (map hex_byte (digest hashed)))))"

definition generate_session_id :: "'w logic_env \<Rightarrow> string \<Rightarrow> ('w, string) lx" where
  "generate_session_id env user_id = generate_random_hash env 64 (sha512 env) user_id"

definition generate_user_ref :: "'w logic_env \<Rightarrow> string \<Rightarrow> ('w, string) lx" where
  "generate_user_ref env user_id = generate_random_hash env 32 (sha256 env) user_id"

text \<open>The clock counts nanoseconds, \<open>utc_time\<close> milliseconds; \<open>std::time_t\<close> is signed.\<close>

definition div_time :: "64 word \<Rightarrow> int \<Rightarrow> 64 word" where
  "div_time t n = word_of_int (sint t sdiv n)"

definition utc_time :: "'w logic_env \<Rightarrow> ('w, millis) lx" where
  "utc_time env = sbind (clock env) (\<lambda>t. sreturn (div_time t 1000000))"

definition time_for_cookie :: "'w logic_env \<Rightarrow> millis \<Rightarrow> string" where
  "time_for_cookie env milliseconds = gmt_time env (div_time milliseconds 1000)"

section \<open>Stateful computations, by their outcome\<close>

definition wp :: "('s, 'e, 'a) sx \<Rightarrow> ('e + 'a \<Rightarrow> 's \<Rightarrow> bool) \<Rightarrow> 's \<Rightarrow> bool" where
  "wp m Q s \<longleftrightarrow> Q (fst (m s)) (snd (m s))"

lemma wp_bind: "wp (sbind m f) Q s \<longleftrightarrow>
    wp m (\<lambda>r s. case r of Inl e \<Rightarrow> Q (Inl e) s | Inr x \<Rightarrow> wp (f x) Q s) s"
  by (cases "fst (m s)") (auto simp: wp_def sbind_def split_beta)

lemma wp_return: "wp (sreturn x) Q s \<longleftrightarrow> Q (Inr x) s"
  by (simp add: wp_def)

lemma wp_throw: "wp (sthrow e) Q s \<longleftrightarrow> Q (Inl e) s"
  by (simp add: wp_def)

lemma wp_lift: "wp (slift r) Q s \<longleftrightarrow> Q r s"
  by (simp add: wp_def)

lemma wp_if: "wp (if b then m else m') Q s \<longleftrightarrow> (b \<longrightarrow> wp m Q s) \<and> (\<not> b \<longrightarrow> wp m' Q s)"
  by simp

lemmas wp_simps = wp_bind wp_return wp_throw wp_lift

lemma wp_mono: "wp m P s \<Longrightarrow> (\<And>r s'. P r s' \<Longrightarrow> Q r s') \<Longrightarrow> wp m Q s"
  by (simp add: wp_def)

lemma wpD: "wp m Q s \<Longrightarrow> m s = (r, s') \<Longrightarrow> Q r s'"
  by (simp add: wp_def)

section \<open>Collections of documents\<close>

definition doc_matches :: "doc \<Rightarrow> doc \<Rightarrow> bool" where
  "doc_matches q d = list_all (\<lambda>(k, v). map_of d k = Some v) q"

definition project :: "doc \<Rightarrow> doc \<Rightarrow> doc" where
  "project fs d = (if fs = [] then d else filter (\<lambda>(k, v). map_of fs k = Some (Bint 1) \<or>
     k = ''_id'' \<and> map_of fs k \<noteq> Some (Bint 0)) d)"

definition first_match :: "doc \<Rightarrow> doc list \<Rightarrow> doc option" where
  "first_match q ds = List.find (doc_matches q) ds"

definition found_doc :: "doc \<Rightarrow> doc \<Rightarrow> doc list \<Rightarrow> doc" where
  "found_doc q fs ds = (case first_match q ds of None \<Rightarrow> [] | Some d \<Rightarrow> project fs d)"

fun set_field :: "string \<Rightarrow> bval \<Rightarrow> doc \<Rightarrow> doc" where
  "set_field k v [] = [(k, v)]"
| "set_field k v ((k', v') # d) = (if k' = k then (k, v) # d else (k', v') # set_field k v d)"

text \<open>The update operators, each for one field; on a field of another type they do nothing here.\<close>

fun update_field :: "string \<Rightarrow> string \<times> bval \<Rightarrow> doc \<Rightarrow> doc" where
  "update_field op (k, v) d =
     (if op = ''$set'' then set_field k v d
      else if op = ''$min'' then (case (map_of d k, v) of
          (Some (Bdate old), Bdate new) \<Rightarrow> if new < old then set_field k v d else d
        | (None, _) \<Rightarrow> set_field k v d | _ \<Rightarrow> d)
      else if op = ''$push'' then (case map_of d k of
          Some (Barr xs) \<Rightarrow> set_field k (Barr (xs @ [v])) d | None \<Rightarrow> set_field k (Barr [v]) d | _ \<Rightarrow> d)
      else if op = ''$pull'' then (case map_of d k of
          Some (Barr xs) \<Rightarrow> set_field k (Barr (filter (\<lambda>x. x \<noteq> v) xs)) d | _ \<Rightarrow> d)
      else if op = ''$pop'' then (case map_of d k of
          Some (Barr xs) \<Rightarrow> set_field k (Barr (butlast xs)) d | _ \<Rightarrow> d)
      else d)"

definition apply_update :: "doc \<Rightarrow> doc \<Rightarrow> doc" where
  "apply_update u d = fold (\<lambda>(op, arg) d. case arg of Bdoc fs \<Rightarrow> fold (update_field op) fs d | _ \<Rightarrow> d) u d"

fun update_first :: "doc \<Rightarrow> doc \<Rightarrow> doc list \<Rightarrow> doc list" where
  "update_first q u [] = []"
| "update_first q u (d # ds) = (if doc_matches q d then apply_update u d # ds else d # update_first q u ds)"

lemma map_of_set_field: "map_of (set_field k v d) k' = (if k' = k then Some v else map_of d k')"
  by (induction k v d rule: set_field.induct) auto

lemma doc_matches_single [simp]: "doc_matches [(k, v)] d \<longleftrightarrow> map_of d k = Some v"
  by (simp add: doc_matches_def)

lemma field_project: "map_of fs k = Some (Bint 1) \<Longrightarrow> field (project fs d) k = field d k"
  by (induction d) (auto simp: project_def field_def)

lemma project_eq_Nil: "map_of d k = Some v \<Longrightarrow> map_of fs k = Some (Bint 1) \<Longrightarrow> project fs d \<noteq> []"
  using field_project [of fs k d] by (auto simp: field_def)

lemma first_match_Some: "first_match q ds = Some d \<Longrightarrow> d \<in> set ds \<and> doc_matches q d"
  by (auto simp: first_match_def find_Some_iff)

lemma first_match_None: "first_match q ds = None \<longleftrightarrow> (\<forall>d \<in> set ds. \<not> doc_matches q d)"
  by (auto simp: first_match_def find_None_iff)

lemma first_match_append: "first_match q (ds @ ds') =
    (case first_match q ds of None \<Rightarrow> first_match q ds' | Some d \<Rightarrow> Some d)"
  by (simp add: first_match_def find_append split: option.split)

text \<open>An update that does not change what it searches for acts on the document that is found.\<close>

lemma first_match_update:
  "(\<And>d. doc_matches q d \<Longrightarrow> doc_matches q (apply_update u d)) \<Longrightarrow>
   first_match q (update_first q u ds) = map_option (apply_update u) (first_match q ds)"
  by (induction ds) (auto simp: first_match_def)

section \<open>The contract of the database\<close>

text \<open>
  \<open>coll\<close> is what the database holds, \<open>now\<close> the time. Searching and taking numbers change nothing; an
  insertion may be refused (a unique index), then nothing changes either. Time passes with every
  operation and never runs backwards. The client is alone: no other worker changes the
  collections between two of its operations.
\<close>

locale mongo_store =
  fixes env :: "'w logic_env" and coll :: "'w \<Rightarrow> string \<Rightarrow> doc list" and now :: "'w \<Rightarrow> millis"
  assumes find_one_spec: "\<exists>w'. find_one env c q fs w = (Inr (found_doc q fs (coll w c)), w') \<and>
      coll w' = coll w \<and> now w \<le> now w'"
    and find_and_modify_spec: "\<exists>w'. find_and_modify env c q u fs w = (Inr (found_doc q fs (coll w c)), w') \<and>
      coll w' = (coll w)(c := update_first q u (coll w c)) \<and> now w \<le> now w'"
    and insert_spec: "\<exists>w'. now w \<le> now w' \<and>
      (insert_doc env c d w = (Inr (), w') \<and> coll w' = (coll w)(c := coll w c @ [d]) \<or>
       (\<exists>e. insert_doc env c d w = (Inl (Mongo_operation e), w') \<and> coll w' = coll w))"
    and query_spec: "\<exists>w'. query_docs env c q n fs w = (Inr (Some ((if n = 0 then id else take n)
      (map (project fs) (filter (doc_matches q) (coll w c))))), w') \<and> coll w' = coll w \<and> now w \<le> now w'"
    and gen_oid_spec: "\<exists>x w'. gen_oid env w = (Inr x, w') \<and> coll w' = coll w \<and> now w \<le> now w'"
    and random_spec: "\<exists>x w'. random_value env w = (Inr x, w') \<and> coll w' = coll w \<and> now w \<le> now w'"
    and clock_spec: "\<exists>t w'. clock env w = (Inr t, w') \<and> coll w' = coll w \<and>
      now w \<le> div_time t 1000000 \<and> div_time t 1000000 \<le> now w'"
    and el_str_spec [simp]: "el_str env (Some (Bstr s)) = s"
    and el_oid_spec [simp]: "el_oid env (Some (Boid i)) = Inr i"
    and el_date_spec [simp]: "el_date env (Some (Bdate t)) = Inr t"
    and el_array_spec [simp]: "length xs < 2 ^ 32 \<Longrightarrow> el_array env (Some (Barr xs)) = Inr xs"
    and string_oid_spec [simp]: "string_oid env (oid_string env i) = Inr i"
    and collections_distinct: "collection_users env \<noteq> collection_sessions env"
begin

lemma wp_find_one: "(\<And>w'. coll w' = coll w \<Longrightarrow> now w \<le> now w' \<Longrightarrow> Q (Inr (found_doc q fs (coll w c))) w') \<Longrightarrow>
    wp (find_one env c q fs) Q w"
  using find_one_spec [of c q fs w] by (auto simp: wp_def)

lemma wp_find_and_modify:
  "(\<And>w'. coll w' = (coll w)(c := update_first q u (coll w c)) \<Longrightarrow> now w \<le> now w' \<Longrightarrow>
      Q (Inr (found_doc q fs (coll w c))) w') \<Longrightarrow> wp (find_and_modify env c q u fs) Q w"
  using find_and_modify_spec [of c q u fs w] by (auto simp: wp_def)

lemma wp_insert: "(\<And>w'. coll w' = (coll w)(c := coll w c @ [d]) \<Longrightarrow> now w \<le> now w' \<Longrightarrow> Q (Inr ()) w') \<Longrightarrow>
    (\<And>e w'. coll w' = coll w \<Longrightarrow> now w \<le> now w' \<Longrightarrow> Q (Inl (Mongo_operation e)) w') \<Longrightarrow>
    wp (insert_doc env c d) Q w"
  using insert_spec [of w c d] by (auto simp: wp_def)

lemma wp_query: "(\<And>w'. coll w' = coll w \<Longrightarrow> now w \<le> now w' \<Longrightarrow>
      Q (Inr (Some ((if n = 0 then id else take n) (map (project fs) (filter (doc_matches q) (coll w c)))))) w') \<Longrightarrow>
    wp (query_docs env c q n fs) Q w"
  using query_spec [of c q n fs w] by (auto simp: wp_def)

lemma wp_gen_oid: "(\<And>x w'. coll w' = coll w \<Longrightarrow> now w \<le> now w' \<Longrightarrow> Q (Inr x) w') \<Longrightarrow> wp (gen_oid env) Q w"
  using gen_oid_spec [of w] by (auto simp: wp_def)

lemma wp_utc_time: "(\<And>t w'. coll w' = coll w \<Longrightarrow> now w \<le> t \<Longrightarrow> t \<le> now w' \<Longrightarrow> Q (Inr t) w') \<Longrightarrow>
    wp (utc_time env) Q w"
  using clock_spec [of w] by (auto simp: wp_def utc_time_def sbind_def)

lemma wp_random_data:
  "(\<And>x w'. coll w' = coll w \<Longrightarrow> now w \<le> now w' \<Longrightarrow> Q (Inr x) w') \<Longrightarrow> wp (random_data env n len hashed) Q w"
proof (induction "Suc n - len" arbitrary: len hashed w rule: less_induct)
  case less
  obtain v w1 where v: "random_value env w = (Inr v, w1)" "coll w1 = coll w" "now w \<le> now w1" using random_spec by blast
  show ?case
  proof (cases "len + 4 \<le> n")
    case True
    have "wp (random_data env n (len + 4) (hashed @ word_bytes 4 v)) Q w1"
      using True less.prems v(2,3) by (intro less.hyps) (auto intro: order_trans)
    then show ?thesis using True
      by (subst random_data.simps) (simp add: wp_bind wp_def [of "random_value env"] v(1))
  next
    case False
    then show ?thesis using less.prems [OF v(2,3)]
      by (subst random_data.simps) (simp add: wp_bind wp_def [of "random_value env"] v(1) wp_return)
  qed
qed

lemma wp_random_hash:
  "(\<And>x w'. coll w' = coll w \<Longrightarrow> now w \<le> now w' \<Longrightarrow> Q (Inr x) w') \<Longrightarrow> wp (generate_random_hash env n digest str) Q w"
proof -
  assume Q: "\<And>x w'. coll w' = coll w \<Longrightarrow> now w \<le> now w' \<Longrightarrow> Q (Inr x) w'"
  obtain t w1 where t: "clock env w = (Inr t, w1)" "coll w1 = coll w" "now w \<le> now w1"
    using clock_spec [of w] by (meson order_trans)
  have "wp (random_data env n (length str) (bytes_of str @ word_bytes 8 t)) (\<lambda>r s. case r of
      Inl e \<Rightarrow> Q (Inl e) s | Inr x \<Rightarrow> Q (Inr (concat (map hex_byte (digest x)))) s) w1"
    by (rule wp_random_data) (use Q t(2,3) order_trans in \<open>fastforce\<close>)
  then show ?thesis
    by (simp add: generate_random_hash_def wp_bind wp_def [of "clock env"] t(1) wp_return cong: sum.case_cong)
qed

lemma wp_generate_session_id:
  "(\<And>x w'. coll w' = coll w \<Longrightarrow> now w \<le> now w' \<Longrightarrow> Q (Inr x) w') \<Longrightarrow> wp (generate_session_id env uid) Q w"
  unfolding generate_session_id_def by (rule wp_random_hash)

lemma wp_generate_user_ref:
  "(\<And>x w'. coll w' = coll w \<Longrightarrow> now w \<le> now w' \<Longrightarrow> Q (Inr x) w') \<Longrightarrow> wp (generate_user_ref env uid) Q w"
  unfolding generate_user_ref_def by (rule wp_random_hash)

end

section \<open>Random identifiers\<close>

definition is_hex :: "char \<Rightarrow> bool" where
  "is_hex c \<longleftrightarrow> c \<in> set hex_numbers"

lemma hex_digit: "n < 16 \<Longrightarrow> is_hex (hex_numbers ! n)"
  unfolding is_hex_def by (rule nth_mem) (simp add: hex_numbers_def)

lemma hex_byte_props: "length (hex_byte b) = 2" "list_all is_hex (hex_byte b)"
proof -
  have "unat (x AND 0x0F) < 16" for x :: "8 word"
  proof -
    have "x AND 0x0F = take_bit 4 x" by (simp add: take_bit_eq_mask mask_eq_exp_minus_1)
    moreover have "unat (take_bit 4 x) = take_bit 4 (unat x)" by (rule unsigned_take_bit_eq)
    ultimately have "unat (x AND 0x0F) = unat x mod 2 ^ 4" by (simp only: take_bit_eq_mod)
    then show ?thesis by simp
  qed
  then show "list_all is_hex (hex_byte b)" by (simp add: hex_byte_def hex_digit)
qed (simp add: hex_byte_def)

text \<open>
  A session id, and a user reference, is the digest in lower case hexadecimal digits: never
  empty and never longer or shorter, so the loops that draw one only repeat when it is taken.
\<close>
theorem random_hash_hex:
  assumes "generate_random_hash env n digest str w = (Inr s, w')" "\<And>bs. length (digest bs) = n"
  shows "length s = 2 * n \<and> list_all is_hex s"
proof -
  have c: "length (concat (map hex_byte bs)) = 2 * length bs \<and> list_all is_hex (concat (map hex_byte bs))" for bs
    by (induction bs) (simp_all add: hex_byte_props)
  obtain hashed where "s = concat (map hex_byte (digest hashed))"
    using assms(1) by (auto simp: generate_random_hash_def sbind_Inr_iff)
  then show ?thesis using c [of "digest hashed"] assms(2) by simp
qed

section \<open>A database in memory\<close>

record memory =
  mem_colls :: "string \<Rightarrow> doc list"
  mem_clock :: "64 word"
  mem_counter :: nat

definition hex_value :: "char \<Rightarrow> nat" where
  "hex_value c = length (takeWhile (\<lambda>x. x \<noteq> c) hex_numbers)"

definition mem_oid_string :: "oid \<Rightarrow> string" where
  "mem_oid_string i = map (\<lambda>k. hex_numbers ! (unat i div 16 ^ k mod 16)) (rev [0..<24])"

definition mem_string_oid :: "string \<Rightarrow> exn + oid" where
  "mem_string_oid s = (if length s = 24 \<and> list_all is_hex s
     then Inr (of_nat (foldl (\<lambda>a c. 16 * a + hex_value c) 0 s)) else Inl (Std_exception ''verify s.size() == 24''))"

lemma hex_value_numbers: "n < 16 \<Longrightarrow> hex_value (hex_numbers ! n) = n"
proof -
  assume "n < 16"
  then have "n \<in> set [0..<16]" by simp
  then show ?thesis by (simp add: upt_conv_Cons hex_value_def hex_numbers_def) fastforce
qed

lemma mem_string_oid_string: "mem_string_oid (mem_oid_string i) = Inr i"
proof -
  have f: "foldl (\<lambda>a c. 16 * a + hex_value c) a (map (\<lambda>k. hex_numbers ! (x div 16 ^ k mod 16)) (rev [0..<n])) =
      a * 16 ^ n + x mod 16 ^ n" for a x n
  proof (induction n arbitrary: a)
    case (Suc n)
    have "x mod 16 ^ Suc n = 16 ^ n * (x div 16 ^ n mod 16) + x mod 16 ^ n"
      by (simp add: mod_mult2_eq mult.commute [of 16])
    then show ?case using Suc by (simp add: hex_value_numbers algebra_simps)
  qed simp
  have h: "list_all is_hex (mem_oid_string i)"
    unfolding mem_oid_string_def list_all_iff by (auto intro!: hex_digit)
  have "unat i < 16 ^ 24" using unsigned_less [of i] by simp
  then have "of_nat (foldl (\<lambda>a c. 16 * a + hex_value c) 0 (mem_oid_string i)) = i"
    unfolding mem_oid_string_def f by simp
  then show ?thesis using h by (simp add: mem_string_oid_def) (simp add: mem_oid_string_def)
qed

definition wrong_type :: exn where
  "wrong_type = Std_exception ''wrong type for field''"

definition mem_find :: "string \<Rightarrow> doc \<Rightarrow> doc \<Rightarrow> (memory, doc) lx" where
  "mem_find c q fs w = (Inr (found_doc q fs (mem_colls w c)), w)"

definition memory_env :: "memory logic_env" where
  "memory_env = \<lparr>collection_users = ''users'', collection_sessions = ''sessions'',
     session_lifetime = one_month, session_restart_after = one_month div 2,
     session_forget_after = one_month * 12, session_id_create_attempts = 3, user_ref_create_attempts = 5,
     find_one = mem_find,
     find_and_modify = (\<lambda>c q u fs w. (Inr (found_doc q fs (mem_colls w c)),
       w\<lparr>mem_colls := (mem_colls w)(c := update_first q u (mem_colls w c))\<rparr>)),
     insert_doc = (\<lambda>c d w. (Inr (), w\<lparr>mem_colls := (mem_colls w)(c := mem_colls w c @ [d])\<rparr>)),
     query_docs = (\<lambda>c q n fs w. (Inr (Some ((if n = 0 then id else take n)
       (map (project fs) (filter (doc_matches q) (mem_colls w c))))), w)),
     gen_oid = (\<lambda>w. (Inr (of_nat (mem_counter w)), w\<lparr>mem_counter := Suc (mem_counter w)\<rparr>)),
     oid_string = mem_oid_string, string_oid = mem_string_oid,
     el_str = (\<lambda>v. case v of Some (Bstr s) \<Rightarrow> s | _ \<Rightarrow> []),
     el_string = (\<lambda>v. case v of Some (Bstr s) \<Rightarrow> Inr s | _ \<Rightarrow> Inl wrong_type),
     el_oid = (\<lambda>v. case v of Some (Boid i) \<Rightarrow> Inr i | _ \<Rightarrow> Inl wrong_type),
     el_date = (\<lambda>v. case v of Some (Bdate t) \<Rightarrow> Inr t | _ \<Rightarrow> Inl wrong_type),
     el_array = (\<lambda>v. case v of Some (Barr xs) \<Rightarrow> Inr xs | _ \<Rightarrow> Inl wrong_type),
     iso_date = (\<lambda>t. to_string (unat t)),
     clock = (\<lambda>w. (Inr (mem_clock w), w)),
     random_value = (\<lambda>w. (Inr (of_nat (mem_counter w)), w\<lparr>mem_counter := Suc (mem_counter w)\<rparr>)),
     sha512 = (\<lambda>bs. take 64 (bs @ replicate 64 0)), sha256 = (\<lambda>bs. take 32 (bs @ replicate 32 0)),
     gmt_time = (\<lambda>t. to_string (unat t))\<rparr>"

definition mem_now :: "memory \<Rightarrow> millis" where
  "mem_now w = div_time (mem_clock w) 1000000"

interpretation memory_db: mongo_store memory_env mem_colls mem_now
  by unfold_locales (simp_all add: memory_env_def mem_find_def mem_string_oid_string mem_now_def)

lemma random_hash_hex_witness:
  "\<exists>s w'. generate_session_id memory_env ''u'' \<lparr>mem_colls = (\<lambda>c. []), mem_clock = 0, mem_counter = 0\<rparr> = (Inr s, w') \<and>
     length s = 128 \<and> list_all is_hex s"
proof -
  let ?w = "\<lparr>mem_colls = (\<lambda>c. []), mem_clock = 0, mem_counter = 0\<rparr>"
  obtain s w' where g: "generate_session_id memory_env ''u'' ?w = (Inr s, w')"
    using memory_db.wp_generate_session_id [where Q = "\<lambda>r w. \<exists>s. r = Inr s" and uid = "''u''" and w = ?w]
    by (cases "generate_session_id memory_env ''u'' ?w") (auto simp: wp_def)
  moreover have "length (sha512 memory_env bs) = 64" for bs by (simp add: memory_env_def)
  ultimately show ?thesis
    using random_hash_hex [of memory_env 64 "sha512 memory_env" "''u''" ?w s w']
    by (simp add: generate_session_id_def)
qed

end
