(* ===== verification/Logic_Session.thy ===== *)
theory Logic_Session
  imports Mongo
begin

text \<open>
  \<open>logic/base\<close>, \<open>logic/login\<close>, \<open>logic/logout\<close> and \<open>logic/registration\<close>: users and their sessions
  in the database. Every operation is a computation over the state of the database that may
  throw. What the clients of the sessions rely on is the locale \<open>session_service\<close>; the code
  provides it over every database that keeps its contract.
\<close>

section \<open>\<open>logic/base\<close>\<close>

definition fields_to_return :: "string list \<Rightarrow> doc" where
  "fields_to_return ks = map (\<lambda>k. (k, Bint 1)) ks"

text \<open>
  The loop that looks for a session id that is not taken; \<open>attempts_availible\<close> is the value
  before the decrement. The empty string says that every attempt failed.
\<close>

function unique_session_id :: "'w logic_env \<Rightarrow> string \<Rightarrow> int \<Rightarrow> ('w, string) lx" where
  "unique_session_id env user_id attempts_availible =
     (let attempts_availible = attempts_availible - 1 in
      sbind (generate_session_id env user_id) (\<lambda>session_id.
      sbind (find_one env (collection_sessions env) [(''session_id'', Bstr session_id)] []) (\<lambda>session_obj.
        (let session_id = (if session_obj \<noteq> [] then [] else session_id) in
         if session_id = [] \<and> attempts_availible > 0 then unique_session_id env user_id attempts_availible
         else sreturn session_id))))"
  by pat_completeness auto
termination by (relation "measure (\<lambda>(env, user_id, n). nat n)") auto

declare unique_session_id.simps [simp del]

definition session_cookie_text :: "'w logic_env \<Rightarrow> string \<Rightarrow> millis \<Rightarrow> string" where
  "session_cookie_text env session_id time_now =
     ''sid='' @ session_id @ ''; expires='' @ time_for_cookie env (time_now + session_lifetime env) @ '';''"

definition session_doc :: "'w logic_env \<Rightarrow> oid \<Rightarrow> string \<Rightarrow> oid \<Rightarrow> millis \<Rightarrow> doc" where
  "session_doc env session_oid session_id user_oid time_now =
     [(''_id'', Boid session_oid), (''session_id'', Bstr session_id), (''user_id'', Boid user_oid),
      (''valid_until'', Bdate (time_now + session_lifetime env)),
      (''restart_at'', Bdate (time_now + session_restart_after env)),
      (''forget_at'', Bdate (time_now + session_forget_after env)), (''started_at'', Bdate time_now)]"

definition start_session_for_obj_without_password_check :: "'w logic_env \<Rightarrow> doc \<Rightarrow> ('w, string \<times> string) lx" where
  "start_session_for_obj_without_password_check env user_obj =
     sbind (slift (el_oid env (field user_obj ''_id''))) (\<lambda>user_oid.
     sbind (unique_session_id env (oid_string env user_oid) (sint (session_id_create_attempts env))) (\<lambda>session_id.
     if session_id = [] then sthrow (Logic (Cant_start_session (oid_string env user_oid)))
     else
       sbind (utc_time env) (\<lambda>time_now.
       sbind (gen_oid env) (\<lambda>session_oid.
       sbind (insert_doc env (collection_sessions env) (session_doc env session_oid session_id user_oid time_now)) (\<lambda>_.
       sbind (find_and_modify env (collection_users env) [(''_id'', Boid user_oid)]
                [(''$push'', Bdoc [(''sessions'', Boid session_oid)]), (''$set'', Bdoc [(''last_visit_at'', Bdate time_now)])] []) (\<lambda>_.
         sreturn (el_str env (field user_obj ''ref''), session_cookie_text env session_id time_now)))))))"

definition start_session_for_obj :: "'w logic_env \<Rightarrow> doc \<Rightarrow> string \<Rightarrow> ('w, string \<times> string) lx" where
  "start_session_for_obj env user_obj user_password =
     (if el_str env (field user_obj ''password'') \<noteq> user_password
      then sbind (slift (el_oid env (field user_obj ''_id''))) (\<lambda>user_oid.
        sthrow (Logic (Password_not_match (oid_string env user_oid) user_password)))
      else start_session_for_obj_without_password_check env user_obj)"

definition start_session_for_email :: "'w logic_env \<Rightarrow> string \<Rightarrow> string \<Rightarrow> ('w, string \<times> string) lx" where
  "start_session_for_email env user_email user_password =
     sbind (find_one env (collection_users env) [(''email'', Bstr user_email)] (fields_to_return [''_id'', ''ref'', ''password''])) (\<lambda>user_obj.
     if user_obj = [] then sthrow (Logic (User_not_found
       (''For email: '' @ [DQUOTE] @ user_email @ ''and password: '' @ quoted user_password)))
     else start_session_for_obj env user_obj user_password)"

definition finish_session :: "'w logic_env \<Rightarrow> string \<Rightarrow> ('w, unit) lx" where
  "finish_session env session_id =
     sbind (utc_time env) (\<lambda>time_now.
     sbind (find_and_modify env (collection_sessions env) [(''session_id'', Bstr session_id)]
              [(''$min'', Bdoc [(''valid_until'', Bdate time_now)])] (fields_to_return [''_id'', ''user_id'', ''valid_until''])) (\<lambda>session_obj.
     if session_obj = [] then sthrow (Logic (Session_not_found session_id))
     else sbind (slift (el_date env (field session_obj ''valid_until''))) (\<lambda>valid_until.
       if valid_until < time_now then sthrow (Logic (Session_not_found session_id))
       else if field session_obj ''$err'' \<noteq> None then
         sbind (slift (el_string env (field session_obj ''$err''))) (\<lambda>err. sthrow (Logic (Session_error session_id err)))
       else
         sbind (slift (el_oid env (field session_obj ''user_id''))) (\<lambda>user_oid.
         sbind (slift (el_oid env (field session_obj ''_id''))) (\<lambda>session_oid.
         sbind (find_and_modify env (collection_users env) [(''_id'', Boid user_oid)]
                  [(''$pull'', Bdoc [(''sessions'', Boid session_oid)]), (''$set'', Bdoc [(''last_visit_at'', Bdate time_now)])] []) (\<lambda>_.
           sreturn ()))))))"

definition restart_session :: "'w logic_env \<Rightarrow> string \<Rightarrow> doc \<Rightarrow> ('w, string \<times> string) lx" where
  "restart_session env session_id session_obj =
     sbind (slift (el_oid env (field session_obj ''user_id''))) (\<lambda>user_oid.
     sbind (find_one env (collection_users env) [(''_id'', Boid user_oid)] []) (\<lambda>user_obj.
     if user_obj = [] then sthrow (Logic (User_not_found (''For id: '' @ quoted (oid_string env user_oid))))
     else sbind (finish_session env session_id) (\<lambda>_. start_session_for_obj_without_password_check env user_obj)))"

definition continue_session :: "'w logic_env \<Rightarrow> string \<Rightarrow> ('w, string \<times> string) lx" where
  "continue_session env session_id =
     sbind (find_one env (collection_sessions env) [(''session_id'', Bstr session_id)]
              (fields_to_return [''user_id'', ''valid_until'', ''restart_at''])) (\<lambda>session_obj.
     if session_obj \<noteq> [] then
       sbind (utc_time env) (\<lambda>time_now.
       sbind (slift (el_date env (field session_obj ''valid_until''))) (\<lambda>valid_until.
       if time_now < valid_until then
         sbind (slift (el_date env (field session_obj ''restart_at''))) (\<lambda>restart_at.
         if time_now < restart_at then
           sbind (slift (el_oid env (field session_obj ''user_id''))) (\<lambda>user_oid.
           sbind (find_and_modify env (collection_users env) [(''_id'', Boid user_oid)]
                    [(''$set'', Bdoc [(''last_visit_at'', Bdate time_now)])] []) (\<lambda>_.
             sreturn (oid_string env user_oid, [])))
         else restart_session env session_id session_obj)
       else sthrow (Logic (Session_not_found session_id))))
     else sthrow (Logic (Session_not_found session_id)))"

section \<open>\<open>login\<close>, \<open>logout\<close>, \<open>registration\<close>\<close>

type_synonym form = "(string \<times> string) list"

definition form_at :: "form \<Rightarrow> string \<Rightarrow> exn + string" where
  "form_at form key = (case map_of form key of None \<Rightarrow> Inl (Out_of_range ''_Map_base::at'') | Some v \<Rightarrow> Inr v)"

text \<open>The order in which the two arguments are evaluated is not specified; both throw the same error.\<close>

definition login_user :: "'w logic_env \<Rightarrow> form \<Rightarrow> ('w, string \<times> string) lx" where
  "login_user env form =
     sbind (slift (form_at form ''email'')) (\<lambda>email.
     sbind (slift (form_at form ''password'')) (\<lambda>password. start_session_for_email env email password))"

definition logout_user :: "'w logic_env \<Rightarrow> string \<Rightarrow> ('w, unit) lx" where
  "logout_user env session_id = finish_session env session_id"

text \<open>The loop of \<open>register_user\<close>; it uses the attempts for session ids, not those for references.\<close>

function unique_user_ref :: "'w logic_env \<Rightarrow> string \<Rightarrow> int \<Rightarrow> ('w, string) lx" where
  "unique_user_ref env user_id attempts_availible =
     (let attempts_availible = attempts_availible - 1 in
      sbind (generate_user_ref env user_id) (\<lambda>user_ref.
      sbind (query_docs env (collection_users env) [(''ref'', Bstr user_ref)] 1 []) (\<lambda>users_cursor_ptr.
        (case users_cursor_ptr of
           None \<Rightarrow> sthrow (Logic Incorrect_cursor)
         | Some users \<Rightarrow>
            (let user_ref = (if users \<noteq> [] then [] else user_ref) in
             if user_ref = [] \<and> attempts_availible > 0 then unique_user_ref env user_id attempts_availible
             else sreturn user_ref)))))"
  by pat_completeness auto
termination by (relation "measure (\<lambda>(env, user_id, n). nat n)") auto

declare unique_user_ref.simps [simp del]

fun form_fields :: "form \<Rightarrow> string list \<Rightarrow> exn + doc" where
  "form_fields form [] = Inr []"
| "form_fields form (key # keys) = rbind (form_at form key) (\<lambda>value.
     if value = [] then Inl (Logic (Incorrect_form (''Field empty: '' @ quoted key)))
     else rbind (form_fields form keys) (\<lambda>d. Inr ((key, Bstr value) # d)))"

definition user_doc :: "oid \<Rightarrow> string \<Rightarrow> doc \<Rightarrow> millis \<Rightarrow> doc" where
  "user_doc user_oid user_ref fields_of_form time_now =
     [(''_id'', Boid user_oid), (''ref'', Bstr user_ref)] @ fields_of_form @
     [(''sessions'', Barr []), (''last_visit_at'', Bdate time_now), (''registered_at'', Bdate time_now),
      (''birthday'', Bstr []), (''friends'', Barr []), (''friend_of'', Barr []), (''incoming_friends'', Barr [])]"

text \<open>The \<open>catch\<close> around the insertion.\<close>

definition insert_catch :: "('w, unit) lx \<Rightarrow> ('w, unit) lx" where
  "insert_catch m w = (case m w of
     (Inl (Mongo_operation s), w) \<Rightarrow> (Inl (Logic (Duplicate_user_found s)), w)
   | r \<Rightarrow> r)"

definition register_user :: "'w logic_env \<Rightarrow> form \<Rightarrow> ('w, string \<times> string) lx" where
  "register_user env form =
     sbind (gen_oid env) (\<lambda>user_oid.
     sbind (unique_user_ref env (oid_string env user_oid) (sint (session_id_create_attempts env))) (\<lambda>user_ref.
     if user_ref = [] then sthrow (Logic (Cant_create_user_ref (oid_string env user_oid)))
     else
       sbind (slift (form_fields form [''email'', ''password'', ''name'', ''surname''])) (\<lambda>d.
       sbind (utc_time env) (\<lambda>time_now.
       sbind (insert_catch (insert_doc env (collection_users env) (user_doc user_oid user_ref d time_now))) (\<lambda>_.
       sbind (slift (form_at form ''email'')) (\<lambda>email.
       sbind (slift (form_at form ''password'')) (\<lambda>password. start_session_for_email env email password)))))))"

section \<open>The table of sessions\<close>

text \<open>
  What the database says about a session id: the user it belongs to, the time until which it is
  valid, and the time at which it is to be restarted.
\<close>

type_synonym entry = "oid \<times> millis \<times> millis"

definition session_entry :: "doc \<Rightarrow> entry option" where
  "session_entry d = (case (map_of d ''user_id'', map_of d ''valid_until'', map_of d ''restart_at'') of
     (Some (Boid u), Some (Bdate v), Some (Bdate r)) \<Rightarrow> Some (u, v, r) | _ \<Rightarrow> None)"

definition sessions_of :: "doc list \<Rightarrow> string \<Rightarrow> entry option" where
  "sessions_of ds sid = Option.bind (first_match [(''session_id'', Bstr sid)] ds) session_entry"

definition session_ok :: "doc \<Rightarrow> bool" where
  "session_ok d \<longleftrightarrow> (\<exists>i. map_of d ''_id'' = Some (Boid i)) \<and> session_entry d \<noteq> None \<and> map_of d ''$err'' = None"

definition user_ok :: "doc \<Rightarrow> bool" where
  "user_ok d \<longleftrightarrow> (\<exists>i. map_of d ''_id'' = Some (Boid i))"

lemma session_entry_Some: "session_entry d = Some (u, v, r) \<longleftrightarrow>
    map_of d ''user_id'' = Some (Boid u) \<and> map_of d ''valid_until'' = Some (Bdate v) \<and> map_of d ''restart_at'' = Some (Bdate r)"
  by (auto simp: session_entry_def split: option.splits bval.splits)

lemma sessions_of_None:
  "list_all session_ok ds \<Longrightarrow> sessions_of ds sid = None \<longleftrightarrow> first_match [(''session_id'', Bstr sid)] ds = None"
  by (cases "first_match [(''session_id'', Bstr sid)] ds")
    (auto simp: sessions_of_def list_all_iff session_ok_def dest!: first_match_Some)

lemma found_whole_Nil: "found_doc [(k, v)] [] ds = [] \<longleftrightarrow> first_match [(k, v)] ds = None"
  by (auto simp: found_doc_def project_def dest: first_match_Some split: option.splits)

lemma first_match_Cons: "first_match q (d # ds) = (if doc_matches q d then Some d else first_match q ds)"
  "first_match q [] = None"
  by (simp_all add: first_match_def)

lemma sessions_of_insert:
  "list_all session_ok ds \<Longrightarrow> map_of d ''session_id'' = Some (Bstr sid) \<Longrightarrow> session_entry d = Some e \<Longrightarrow>
   sessions_of ds sid = None \<Longrightarrow> sessions_of (ds @ [d]) = (sessions_of ds)(sid := Some e)"
  by (rule ext) (auto simp: sessions_of_None, auto simp: sessions_of_def first_match_append first_match_Cons split: option.split)

definition end_session :: "millis \<Rightarrow> doc" where
  "end_session t = [(''$min'', Bdoc [(''valid_until'', Bdate t)])]"

lemma map_of_end_session: "session_entry d = Some (u, v, r) \<Longrightarrow>
    map_of (apply_update (end_session t) d) k = (if k = ''valid_until'' then Some (Bdate (min v t)) else map_of d k)"
  by (cases "v \<le> t") (auto simp: end_session_def apply_update_def map_of_set_field session_entry_Some min_def not_le)

lemma session_entry_end: "session_entry d = Some (u, v, r) \<Longrightarrow>
    session_entry (apply_update (end_session t) d) = Some (u, min v t, r)"
  by (simp add: session_entry_Some map_of_end_session)

lemma session_ok_end: "session_ok d \<Longrightarrow> session_ok (apply_update (end_session t) d)"
  by (auto simp: session_ok_def map_of_end_session session_entry_end)

lemma list_all_update_first:
  "list_all P ds \<Longrightarrow> (\<And>d. P d \<Longrightarrow> P (apply_update u d)) \<Longrightarrow> list_all P (update_first q u ds)"
  by (induction ds) auto

lemma sessions_of_end:
  "list_all session_ok ds \<Longrightarrow> sessions_of (update_first [(''session_id'', Bstr sid)] (end_session t) ds) sid' =
     (if sid' = sid then map_option (\<lambda>(u, v, r). (u, min v t, r)) (sessions_of ds sid) else sessions_of ds sid')"
proof (induction ds)
  case (Cons d ds)
  then obtain u v r where d: "session_entry d = Some (u, v, r)" by (auto simp: session_ok_def)
  then show ?case using Cons
    by (auto simp: sessions_of_def first_match_def map_of_end_session session_entry_end)
qed (simp add: sessions_of_def first_match_def)

text \<open>An update that leaves a field alone keeps the documents that are recognised by it.\<close>

definition update_keys :: "doc \<Rightarrow> string list" where
  "update_keys u = concat (map (\<lambda>(op, arg). case arg of Bdoc fs \<Rightarrow> map fst fs | _ \<Rightarrow> []) u)"

lemma map_of_update_field: "k \<noteq> fst kv \<Longrightarrow> map_of (update_field op kv d) k = map_of d k"
  by (cases kv) (auto simp: map_of_set_field split: option.splits bval.splits)

lemma map_of_update_fields: "k \<notin> fst ` set fs \<Longrightarrow> map_of (fold (update_field op) fs d) k = map_of d k"
  by (induction fs arbitrary: d) (auto simp: map_of_update_field simp del: update_field.simps)

lemma map_of_apply_update: "k \<notin> set (update_keys u) \<Longrightarrow> map_of (apply_update u d) k = map_of d k"
  by (induction u arbitrary: d)
    (auto simp: apply_update_def update_keys_def map_of_update_fields split: prod.splits bval.splits)

lemma user_ok_update: "''_id'' \<notin> set (update_keys u) \<Longrightarrow> user_ok d \<Longrightarrow> user_ok (apply_update u d)"
  by (simp add: user_ok_def map_of_apply_update)

section \<open>What every operation keeps\<close>

text \<open>The documents are those the code writes: every user and every session has its identifiers.\<close>

definition database_ok :: "'w logic_env \<Rightarrow> ('w \<Rightarrow> string \<Rightarrow> doc list) \<Rightarrow> 'w \<Rightarrow> bool" where
  "database_ok env coll w \<longleftrightarrow> list_all session_ok (coll w (collection_sessions env)) \<and>
     list_all user_ok (coll w (collection_users env))"

text \<open>What the database says about a session id.\<close>

definition session_at :: "'w logic_env \<Rightarrow> ('w \<Rightarrow> string \<Rightarrow> doc list) \<Rightarrow> 'w \<Rightarrow> string \<Rightarrow> entry option" where
  "session_at env coll w = sessions_of (coll w (collection_sessions env))"

text \<open>A session \<open>sid\<close> of the user \<open>u\<close> was started at the time \<open>t\<close>, and nothing else changed.\<close>

definition session_started :: "'w logic_env \<Rightarrow> ('w \<Rightarrow> string \<Rightarrow> doc list) \<Rightarrow> ('w \<Rightarrow> millis) \<Rightarrow> 'w \<Rightarrow>
    oid \<Rightarrow> string \<Rightarrow> millis \<Rightarrow> 'w \<Rightarrow> bool" where
  "session_started env coll now w u sid t w' \<longleftrightarrow> sid \<noteq> [] \<and> session_at env coll w sid = None \<and> now w \<le> t \<and> t \<le> now w' \<and>
     session_at env coll w' = (session_at env coll w)
       (sid := Some (u, t + session_lifetime env, t + session_restart_after env))"

text \<open>A session was entered in the document of the user, and the time of the visit.\<close>

definition visited :: "doc list \<Rightarrow> oid \<Rightarrow> doc list \<Rightarrow> bool" where
  "visited us u us' \<longleftrightarrow> (\<exists>i t. us' = update_first [(''_id'', Boid u)]
     [(''$push'', Bdoc [(''sessions'', Boid i)]), (''$set'', Bdoc [(''last_visit_at'', Bdate t)])] us)"

context mongo_store
begin

abbreviation users :: "'w \<Rightarrow> doc list" where
  "users w \<equiv> coll w (collection_users env)"

abbreviation sessions :: "'w \<Rightarrow> doc list" where
  "sessions w \<equiv> coll w (collection_sessions env)"

abbreviation db_ok :: "'w \<Rightarrow> bool" where
  "db_ok \<equiv> database_ok env coll"

abbreviation started :: "'w \<Rightarrow> oid \<Rightarrow> string \<Rightarrow> millis \<Rightarrow> 'w \<Rightarrow> bool" where
  "started \<equiv> session_started env coll now"

lemmas db_ok_def = database_ok_def [of env coll]
lemmas started_def = session_started_def [of env coll now, unfolded session_at_def]

text \<open>
  Time passes; a session stays with its user and is never prolonged.
\<close>

definition ages :: "'w \<Rightarrow> 'w \<Rightarrow> bool" where
  "ages w w' \<longleftrightarrow> now w \<le> now w' \<and> (\<forall>sid u v r. sessions_of (sessions w) sid = Some (u, v, r) \<longrightarrow>
     (\<exists>v'\<le>v. sessions_of (sessions w') sid = Some (u, v', r)))"

lemma ages_refl: "sessions w' = sessions w \<Longrightarrow> now w \<le> now w' \<Longrightarrow> ages w w'"
  by (auto simp: ages_def)

lemma ages_trans: "ages w w' \<Longrightarrow> ages w' w'' \<Longrightarrow> ages w w''"
  unfolding ages_def by (meson order_trans)

definition keeps :: "('w, 'a) lx \<Rightarrow> bool" where
  "keeps m \<longleftrightarrow> (\<forall>w. db_ok w \<longrightarrow> wp m (\<lambda>r w'. db_ok w' \<and> ages w w') w)"

lemma keepsI: "(\<And>w. db_ok w \<Longrightarrow> wp m (\<lambda>r w'. db_ok w' \<and> ages w w') w) \<Longrightarrow> keeps m"
  by (simp add: keeps_def)

lemma keeps_bind:
  assumes "keeps m" "\<And>x. keeps (f x)"
  shows "keeps (sbind m f)"
proof (rule keepsI)
  fix w assume "db_ok w"
  then have "wp m (\<lambda>r w'. db_ok w' \<and> ages w w') w" using assms(1) by (simp add: keeps_def)
  then show "wp (sbind m f) (\<lambda>r w'. db_ok w' \<and> ages w w') w"
    unfolding wp_bind
  proof (rule wp_mono)
    fix r s assume s: "db_ok s \<and> ages w s"
    show "case r of Inl e \<Rightarrow> db_ok s \<and> ages w s | Inr x \<Rightarrow> wp (f x) (\<lambda>r w'. db_ok w' \<and> ages w w') s"
    proof (cases r)
      case (Inr x)
      have "wp (f x) (\<lambda>r w'. db_ok w' \<and> ages s w') s" using assms(2) s by (simp add: keeps_def)
      then show ?thesis using s Inr by (auto elim: wp_mono dest: ages_trans)
    qed (simp add: s)
  qed
qed

lemma keeps_pure: "keeps (sreturn x)" "keeps (sthrow e)" "keeps (slift r)"
  by (simp_all add: keeps_def wp_simps ages_refl)

lemma keeps_if: "(b \<Longrightarrow> keeps m) \<Longrightarrow> (\<not> b \<Longrightarrow> keeps m') \<Longrightarrow> keeps (if b then m else m')"
  by simp

lemma keeps_quiet:
  assumes "\<And>Q w. (\<And>x w'. coll w' = coll w \<Longrightarrow> now w \<le> now w' \<Longrightarrow> Q (Inr x) w') \<Longrightarrow> wp m Q w"
  shows "keeps m"
  by (rule keepsI, rule assms) (auto simp: db_ok_def intro: ages_refl)

lemma keeps_reads:
  shows "keeps (find_one env c q fs)" and "keeps (query_docs env c q n fs)" and "keeps (gen_oid env)"
    and "keeps (utc_time env)" and "keeps (generate_session_id env uid)" and "keeps (generate_user_ref env uid)"
proof -
  show "keeps (find_one env c q fs)" by (rule keeps_quiet, rule wp_find_one)
  show "keeps (query_docs env c q n fs)" by (rule keeps_quiet, rule wp_query)
  show "keeps (gen_oid env)" by (rule keeps_quiet, rule wp_gen_oid)
  show "keeps (utc_time env)" by (rule keeps_quiet, rule wp_utc_time) (blast intro: order_trans)
  show "keeps (generate_session_id env uid)" by (rule keeps_quiet, rule wp_generate_session_id)
  show "keeps (generate_user_ref env uid)" by (rule keeps_quiet, rule wp_generate_user_ref)
qed

lemma keeps_modify_users:
  "''_id'' \<notin> set (update_keys u) \<Longrightarrow> keeps (find_and_modify env (collection_users env) q u fs)"
  using collections_distinct
  by (intro keepsI wp_find_and_modify)
    (auto simp: db_ok_def intro: ages_refl intro!: list_all_update_first user_ok_update)

lemma keeps_insert_user: "user_ok d \<Longrightarrow> keeps (insert_doc env (collection_users env) d)"
  using collections_distinct
  by (intro keepsI wp_insert) (auto simp: db_ok_def intro: ages_refl)

lemma keeps_end_session:
  "keeps (find_and_modify env (collection_sessions env) [(''session_id'', Bstr sid)] (end_session t) fs)"
  using collections_distinct
  by (intro keepsI wp_find_and_modify)
    (auto simp: db_ok_def ages_def sessions_of_end intro!: list_all_update_first session_ok_end)

lemmas keeps_rules = keeps_bind keeps_pure keeps_if keeps_reads keeps_modify_users keeps_insert_user keeps_end_session

end

section \<open>Starting a session\<close>

context mongo_store
begin

lemma wp_unique_session_id:
  "(\<And>x w'. coll w' = coll w \<Longrightarrow> now w \<le> now w' \<Longrightarrow>
      x \<noteq> [] \<longrightarrow> first_match [(''session_id'', Bstr x)] (sessions w) = None \<Longrightarrow> Q (Inr x) w') \<Longrightarrow>
   wp (unique_session_id env uid n) Q w"
proof (induction "nat n" arbitrary: n w rule: less_induct)
  case less
  show ?case
  proof (subst unique_session_id.simps, unfold Let_def wp_bind, rule wp_generate_session_id, unfold sum.case wp_bind,
      rule wp_find_one, unfold sum.case)
    fix x w1 w2 assume w: "coll w1 = coll w" "now w \<le> now w1" "coll w2 = coll w1" "now w1 \<le> now w2"
    define x' where "x' = (if found_doc [(''session_id'', Bstr x)] [] (sessions w1) \<noteq> [] then [] else x)"
    have w2: "coll w2 = coll w" "now w \<le> now w2" using w by (simp_all add: order_trans [OF w(2,4)])
    have "wp (if x' = [] \<and> n - 1 > 0 then unique_session_id env uid (n - 1) else sreturn x') Q w2"
    proof (cases "x' = [] \<and> n - 1 > 0")
      case True
      have "wp (unique_session_id env uid (n - 1)) Q w2"
      proof (rule less.hyps)
        show "nat (n - 1) < nat n" using True by simp
        fix y w' assume "coll w' = coll w2" "now w2 \<le> now w'"
          "y \<noteq> [] \<longrightarrow> first_match [(''session_id'', Bstr y)] (sessions w2) = None"
        then show "Q (Inr y) w'" using w2 by (intro less.prems) (auto intro: order_trans [OF w2(2)])
      qed
      then show ?thesis by (simp only: if_P [OF True])
    next
      case False
      have "x' \<noteq> [] \<longrightarrow> first_match [(''session_id'', Bstr x')] (sessions w) = None"
        using w by (simp add: x'_def found_whole_Nil)
      with less.prems [OF w2] have "Q (Inr x') w2" .
      then show ?thesis by (simp only: if_not_P [OF False] wp_return)
    qed
    then show "wp (if (if found_doc [(''session_id'', Bstr x)] [] (sessions w1) \<noteq> [] then [] else x) = [] \<and> 0 < n - 1
        then unique_session_id env uid (n - 1)
        else sreturn (if found_doc [(''session_id'', Bstr x)] [] (sessions w1) \<noteq> [] then [] else x)) Q w2"
      by (simp only: x'_def)
  qed
qed

lemma started_ages: "started w u sid t w' \<Longrightarrow> ages w w'"
  unfolding started_def ages_def by (auto intro: order_trans)

lemma session_doc_ok: "session_ok (session_doc env i sid u t)"
  "session_entry (session_doc env i sid u t) = Some (u, t + session_lifetime env, t + session_restart_after env)"
  by (simp_all add: session_doc_def session_ok_def session_entry_def)

lemma wp_start_session_visits:
  assumes ok: "db_ok w" and user: "el_oid env (field user_obj ''_id'') = Inr u"
    and fails: "\<And>e w'. sessions w' = sessions w \<Longrightarrow> db_ok w' \<Longrightarrow> now w \<le> now w' \<Longrightarrow>
      e = Logic (Cant_start_session (oid_string env u)) \<or> (\<exists>m. e = Mongo_operation m) \<Longrightarrow> Q (Inl e) w'"
    and starts: "\<And>sid t w'. started w u sid t w' \<Longrightarrow> db_ok w' \<Longrightarrow> visited (users w) u (users w') \<Longrightarrow>
      Q (Inr (el_str env (field user_obj ''ref''), session_cookie_text env sid t)) w'"
  shows "wp (start_session_for_obj_without_password_check env user_obj) Q w"
  unfolding start_session_for_obj_without_password_check_def wp_bind wp_lift user sum.case
proof (rule wp_unique_session_id, unfold sum.case)
  fix sid w1
  assume w1: "coll w1 = coll w" "now w \<le> now w1"
    and sid: "sid \<noteq> [] \<longrightarrow> first_match [(''session_id'', Bstr sid)] (sessions w) = None"
  show "wp (if sid = [] then sthrow (Logic (Cant_start_session (oid_string env u)))
      else sbind (utc_time env) (\<lambda>time_now. sbind (gen_oid env) (\<lambda>session_oid.
        sbind (insert_doc env (collection_sessions env) (session_doc env session_oid sid u time_now)) (\<lambda>_.
        sbind (find_and_modify env (collection_users env) [(''_id'', Boid u)]
          [(''$push'', Bdoc [(''sessions'', Boid session_oid)]), (''$set'', Bdoc [(''last_visit_at'', Bdate time_now)])] [])
        (\<lambda>_. sreturn (el_str env (field user_obj ''ref''), session_cookie_text env sid time_now)))))) Q w1"
  proof (cases "sid = []")
    case True
    then show ?thesis using fails w1 ok by (simp add: wp_throw db_ok_def)
  next
    case False
    show ?thesis unfolding if_not_P [OF False] wp_bind
    proof (rule wp_utc_time, unfold sum.case wp_bind, rule wp_gen_oid, unfold sum.case wp_bind, rule wp_insert, unfold sum.case wp_bind,
        rule wp_find_and_modify, unfold sum.case wp_return)
      fix t w2 i w3 w4 w5
      assume w: "coll w2 = coll w1" "now w1 \<le> t" "t \<le> now w2" "coll w3 = coll w2" "now w2 \<le> now w3"
          "coll w4 = (coll w3)(collection_sessions env := sessions w3 @ [session_doc env i sid u t])" "now w3 \<le> now w4"
          "coll w5 = (coll w4)(collection_users env := update_first [(''_id'', Boid u)]
             [(''$push'', Bdoc [(''sessions'', Boid i)]), (''$set'', Bdoc [(''last_visit_at'', Bdate t)])] (users w4))" "now w4 \<le> now w5"
      have s5: "sessions w5 = sessions w @ [session_doc env i sid u t]"
        using w w1 collections_distinct by simp
      have "now w \<le> t" "t \<le> now w5" using w w1 by (metis order_trans)+
      moreover have n: "sessions_of (sessions w) sid = None"
        using ok sid False sessions_of_None by (simp add: db_ok_def)
      moreover have "sessions_of (sessions w5) = (sessions_of (sessions w))
          (sid := Some (u, t + session_lifetime env, t + session_restart_after env))"
        unfolding s5 using ok n by (intro sessions_of_insert) (simp_all add: db_ok_def session_doc_ok, simp add: session_doc_def)
      ultimately have "started w u sid t w5" using False by (simp add: started_def)
      moreover have "db_ok w5"
        using ok w w1 s5 collections_distinct
        by (auto simp: db_ok_def session_doc_ok update_keys_def intro!: list_all_update_first user_ok_update)
      moreover have "visited (users w) u (users w5)"
        using w w1 collections_distinct by (auto simp: visited_def)
      ultimately show "Q (Inr (el_str env (field user_obj ''ref''), session_cookie_text env sid t)) w5" by (rule starts)
    next
      fix t w2 i w3 e w4
      assume w: "coll w2 = coll w1" "now w1 \<le> t" "t \<le> now w2" "coll w3 = coll w2" "now w2 \<le> now w3"
          "coll w4 = coll w3" "now w3 \<le> now w4"
      have "now w \<le> now w4" using w w1 by (metis order_trans)
      then show "Q (Inl (Mongo_operation e)) w4" using fails w w1 ok by (simp add: db_ok_def)
    qed
  qed
qed

lemma wp_start_session:
  assumes "db_ok w" "el_oid env (field user_obj ''_id'') = Inr u"
    and "\<And>e w'. sessions w' = sessions w \<Longrightarrow> db_ok w' \<Longrightarrow> now w \<le> now w' \<Longrightarrow>
      e = Logic (Cant_start_session (oid_string env u)) \<or> (\<exists>m. e = Mongo_operation m) \<Longrightarrow> Q (Inl e) w'"
    and "\<And>sid t w'. started w u sid t w' \<Longrightarrow> db_ok w' \<Longrightarrow>
      Q (Inr (el_str env (field user_obj ''ref''), session_cookie_text env sid t)) w'"
  shows "wp (start_session_for_obj_without_password_check env user_obj) Q w"
  using assms by (rule wp_start_session_visits)

end

section \<open>Finishing and continuing a session\<close>

lemma map_of_project_None: "map_of d k = None \<Longrightarrow> map_of (project fs d) k = None"
  by (auto simp: project_def map_of_eq_None_iff)

lemma map_of_fields_to_return: "map_of (fields_to_return ks) k = (if k \<in> set ks then Some (Bint 1) else None)"
  by (induction ks) (auto simp: fields_to_return_def)

lemma session_found:
  assumes "list_all session_ok ds" "sessions_of ds sid = Some (u, v, r)"
  obtains d i where "first_match [(''session_id'', Bstr sid)] ds = Some d" "map_of d ''_id'' = Some (Boid i)"
    "map_of d ''user_id'' = Some (Boid u)" "map_of d ''valid_until'' = Some (Bdate v)"
    "map_of d ''restart_at'' = Some (Bdate r)" "map_of d ''$err'' = None"
proof -
  obtain d where d: "first_match [(''session_id'', Bstr sid)] ds = Some d" "session_entry d = Some (u, v, r)"
    using assms(2) by (auto simp: sessions_of_def bind_eq_Some_conv)
  then have "session_ok d" using assms(1) by (auto simp: list_all_iff dest: first_match_Some)
  then show ?thesis using d that by (auto simp: session_ok_def session_entry_Some)
qed

lemma found_session_fields:
  assumes "first_match q ds = Some d" "map_of d k = Some x" "k \<in> set ks"
  shows "found_doc q (fields_to_return ks) ds \<noteq> []" "field (found_doc q (fields_to_return ks) ds) k = map_of d k"
  using assms project_eq_Nil [of d k x "fields_to_return ks"] field_project [of "fields_to_return ks" k d]
  by (simp_all add: found_doc_def map_of_fields_to_return field_def)

context mongo_store
begin

lemma wp_finish_session:
  assumes ok: "db_ok w"
    and none: "\<And>w'. sessions_of (sessions w) sid = None \<Longrightarrow> sessions_of (sessions w') = sessions_of (sessions w) \<Longrightarrow>
      coll w' (collection_users env) = users w \<Longrightarrow> db_ok w' \<Longrightarrow> now w \<le> now w' \<Longrightarrow> Q (Inl (Logic (Session_not_found sid))) w'"
    and expired: "\<And>u v r t w'. sessions_of (sessions w) sid = Some (u, v, r) \<Longrightarrow> v < t \<Longrightarrow> now w \<le> t \<Longrightarrow> t \<le> now w' \<Longrightarrow>
      sessions_of (sessions w') = sessions_of (sessions w) \<Longrightarrow> db_ok w' \<Longrightarrow> Q (Inl (Logic (Session_not_found sid))) w'"
    and finishes: "\<And>u v r t w'. sessions_of (sessions w) sid = Some (u, v, r) \<Longrightarrow> t \<le> v \<Longrightarrow> now w \<le> t \<Longrightarrow> t \<le> now w' \<Longrightarrow>
      sessions_of (sessions w') = (sessions_of (sessions w))(sid := Some (u, t, r)) \<Longrightarrow> db_ok w' \<Longrightarrow> Q (Inr ()) w'"
  shows "wp (finish_session env sid) Q w"
  unfolding finish_session_def wp_bind end_session_def [symmetric]
proof (rule wp_utc_time, unfold sum.case wp_bind, rule wp_find_and_modify, unfold sum.case)
  fix t w1 w2
  let ?q = "[(''session_id'', Bstr sid)]" and ?fs = "fields_to_return [''_id'', ''user_id'', ''valid_until'']"
  let ?rest = "\<lambda>session_obj. if session_obj = [] then sthrow (Logic (Session_not_found sid))
     else sbind (slift (el_date env (field session_obj ''valid_until''))) (\<lambda>valid_until.
       if valid_until < t then sthrow (Logic (Session_not_found sid))
       else if field session_obj ''$err'' \<noteq> None then
         sbind (slift (el_string env (field session_obj ''$err''))) (\<lambda>err. sthrow (Logic (Session_error sid err)))
       else
         sbind (slift (el_oid env (field session_obj ''user_id''))) (\<lambda>user_oid.
         sbind (slift (el_oid env (field session_obj ''_id''))) (\<lambda>session_oid.
         sbind (find_and_modify env (collection_users env) [(''_id'', Boid user_oid)]
           [(''$pull'', Bdoc [(''sessions'', Boid session_oid)]), (''$set'', Bdoc [(''last_visit_at'', Bdate t)])] []) (\<lambda>_.
           sreturn ()))))"
  assume w: "coll w1 = coll w" "now w \<le> t" "t \<le> now w1"
    "coll w2 = (coll w1)(collection_sessions env := update_first ?q (end_session t) (sessions w1))" "now w1 \<le> now w2"
  have t2: "t \<le> now w2" "now w \<le> now w2" using w by (metis order_trans)+
  have s2: "sessions w2 = update_first ?q (end_session t) (sessions w)" and u2: "users w2 = users w"
    using w collections_distinct by simp_all
  have ok2: "db_ok w2" using ok unfolding db_ok_def s2 u2 by (auto intro: list_all_update_first session_ok_end)
  have sess2: "sessions_of (sessions w2) sid' = (if sid' = sid then map_option (\<lambda>(u, v, r). (u, min v t, r)) (sessions_of (sessions w) sid)
      else sessions_of (sessions w) sid')" for sid'
    unfolding s2 using ok by (intro sessions_of_end) (simp add: db_ok_def)
  show "wp (?rest (found_doc ?q ?fs (sessions w1))) Q w2"
  proof (cases "sessions_of (sessions w) sid")
    case None
    then have "found_doc ?q ?fs (sessions w1) = []"
      using ok sessions_of_None w(1) by (simp add: db_ok_def found_doc_def)
    moreover have "sessions_of (sessions w2) = sessions_of (sessions w)" by (rule ext) (simp add: sess2 None)
    ultimately show ?thesis using none None u2 ok2 t2 by (simp add: wp_throw)
  next
    case (Some e)
    then obtain u v r where e: "sessions_of (sessions w) sid = Some (u, v, r)" by (cases e) auto
    have "list_all session_ok (sessions w)" using ok by (simp add: db_ok_def)
    from this e obtain d i where d: "first_match ?q (sessions w1) = Some d" "map_of d ''_id'' = Some (Boid i)"
        "map_of d ''user_id'' = Some (Boid u)" "map_of d ''valid_until'' = Some (Bdate v)" "map_of d ''$err'' = None"
      by (rule session_found) (simp add: w(1))
    note f = found_session_fields [OF d(1), where ks = "[''_id'', ''user_id'', ''valid_until'']"]
    have err: "field (found_doc ?q ?fs (sessions w1)) ''$err'' = None"
      using d(1,5) by (simp add: found_doc_def field_def map_of_project_None)
    show ?thesis
    proof (cases "v < t")
      case True
      have "sessions_of (sessions w2) = sessions_of (sessions w)"
        by (rule ext) (use True in \<open>simp add: sess2 e min_absorb1 less_imp_le\<close>)
      then show ?thesis using expired [OF e True w(2) t2(1)] ok2 f [OF d(4)] d(4) True
        by (simp add: wp_simps)
    next
      case False
      have upd: "sessions_of (sessions w2) = (sessions_of (sessions w))(sid := Some (u, t, r))"
        by (rule ext) (use False in \<open>auto simp: sess2 e min_absorb2\<close>)
      have "wp (find_and_modify env (collection_users env) [(''_id'', Boid u)]
           [(''$pull'', Bdoc [(''sessions'', Boid i)]), (''$set'', Bdoc [(''last_visit_at'', Bdate t)])] [])
          (\<lambda>x w'. case x of Inl e \<Rightarrow> Q (Inl e) w' | Inr _ \<Rightarrow> Q (Inr ()) w') w2"
      proof (rule wp_find_and_modify, unfold sum.case)
        fix w3
        assume w3: "coll w3 = (coll w2)(collection_users env := update_first [(''_id'', Boid u)]
          [(''$pull'', Bdoc [(''sessions'', Boid i)]), (''$set'', Bdoc [(''last_visit_at'', Bdate t)])] (users w2))" "now w2 \<le> now w3"
        have s3: "sessions w3 = sessions w2" using w3 collections_distinct by simp
        have "db_ok w3" using ok2 w3 s3
          by (auto simp: db_ok_def update_keys_def intro!: list_all_update_first user_ok_update)
        then show "Q (Inr ()) w3"
          using finishes [OF e _ w(2), of w3] False s3 upd w3(2) t2(1) by (auto simp: not_less intro: order_trans)
      qed
      then show ?thesis using f [OF d(2)] f [OF d(3)] f [OF d(4)] d err False by (simp add: wp_simps cong: sum.case_cong)
    qed
  qed
qed

end

lemma wp_bindI: "wp m (\<lambda>r s. case r of Inl e \<Rightarrow> Q (Inl e) s | Inr x \<Rightarrow> wp (f x) Q s) s \<Longrightarrow> wp (sbind m f) Q s"
  by (simp only: wp_bind)

context mongo_store
begin

lemma wp_continue_session_at:
  assumes ok: "db_ok w"
    and invalid: "\<And>w'. case sessions_of (sessions w) sid of None \<Rightarrow> True | Some (u, v, r) \<Rightarrow> v \<le> now w' \<Longrightarrow>
      sessions w' = sessions w \<Longrightarrow> db_ok w' \<Longrightarrow> now w \<le> now w' \<Longrightarrow> Q (Inl (Logic (Session_not_found sid))) w'"
    and valid: "\<And>u v r t w'. sessions_of (sessions w) sid = Some (u, v, r) \<Longrightarrow> now w \<le> t \<Longrightarrow> t < v \<Longrightarrow> t < r \<Longrightarrow> t \<le> now w' \<Longrightarrow>
      sessions w' = sessions w \<Longrightarrow>
      users w' = update_first [(''_id'', Boid u)] [(''$set'', Bdoc [(''last_visit_at'', Bdate t)])] (users w) \<Longrightarrow>
      db_ok w' \<Longrightarrow> Q (Inr (oid_string env u, [])) w'"
    and restart: "\<And>d u v r t w'. sessions_of (sessions w) sid = Some (u, v, r) \<Longrightarrow> now w \<le> t \<Longrightarrow> t < v \<Longrightarrow> r \<le> t \<Longrightarrow> t \<le> now w' \<Longrightarrow>
      field d ''user_id'' = Some (Boid u) \<Longrightarrow> sessions w' = sessions w \<Longrightarrow> users w' = users w \<Longrightarrow> db_ok w' \<Longrightarrow>
      now w \<le> now w' \<Longrightarrow> wp (restart_session env sid d) Q w'"
  shows "wp (continue_session env sid) Q w"
  unfolding continue_session_def
proof (rule wp_bindI, rule wp_find_one, unfold sum.case, goal_cases)
  case (1 w1)
  note w1 = this
  let ?q = "[(''session_id'', Bstr sid)]" and ?fs = "fields_to_return [''user_id'', ''valid_until'', ''restart_at'']"
  have lok: "list_all session_ok (sessions w)" using ok by (simp add: db_ok_def)
  have ok': "db_ok w'" if "coll w' = coll w" for w' using that ok by (simp add: db_ok_def)
  show ?case
  proof (cases "sessions_of (sessions w) sid")
    case None
    then have "found_doc ?q ?fs (sessions w) = []"
      using lok sessions_of_None w1(1) by (simp add: found_doc_def)
    then show ?thesis using invalid [of w1] None w1 ok' [OF w1(1)] by (simp add: wp_throw)
  next
    case (Some e)
    then obtain u v r where e: "sessions_of (sessions w) sid = Some (u, v, r)" by (cases e) auto
    from lok this obtain d where d: "first_match ?q (sessions w) = Some d" "map_of d ''user_id'' = Some (Boid u)"
        "map_of d ''valid_until'' = Some (Bdate v)" "map_of d ''restart_at'' = Some (Bdate r)"
      by (rule session_found) simp
    note f = found_session_fields [OF d(1), where ks = "[''user_id'', ''valid_until'', ''restart_at'']"]
    show ?thesis
      unfolding if_P [OF f(1) [OF d(2), simplified]]
    proof (rule wp_bindI, rule wp_utc_time, unfold sum.case, goal_cases)
      case (1 t w2)
      note w2 = this
      have c2: "coll w2 = coll w" "now w \<le> now w2" "now w \<le> t" using w1 w2 by (auto intro: order_trans)
      let ?d = "found_doc ?q ?fs (sessions w)"
      have fs: "field ?d ''user_id'' = Some (Boid u)" "field ?d ''valid_until'' = Some (Bdate v)" "field ?d ''restart_at'' = Some (Bdate r)"
        using f [OF d(2)] f [OF d(3)] f [OF d(4)] d by simp_all
      consider "\<not> t < v" | "t < v" "t < r" | "t < v" "\<not> t < r" by blast
      then show ?case
      proof cases
        case 1
        then have "v \<le> now w2" using w2(3) by (auto simp: not_less intro: order_trans)
        then show ?thesis using 1 invalid [of w2] e c2 ok' [OF c2(1)] by (simp add: fs wp_simps)
      next
        case 2
        have "wp (find_and_modify env (collection_users env) [(''_id'', Boid u)] [(''$set'', Bdoc [(''last_visit_at'', Bdate t)])] [])
            (\<lambda>x w'. case x of Inl e \<Rightarrow> Q (Inl e) w' | Inr _ \<Rightarrow> Q (Inr (oid_string env u, [])) w') w2"
        proof (rule wp_find_and_modify, unfold sum.case)
          fix w3 assume w3: "coll w3 = (coll w2)(collection_users env := update_first [(''_id'', Boid u)]
            [(''$set'', Bdoc [(''last_visit_at'', Bdate t)])] (users w2))" "now w2 \<le> now w3"
          have "db_ok w3" using ok w3 c2 collections_distinct
            by (auto simp: db_ok_def update_keys_def intro!: list_all_update_first user_ok_update)
          then show "Q (Inr (oid_string env u, [])) w3"
            using valid [OF e c2(3) 2, of w3] w3 w2(3) c2 collections_distinct by (auto intro: order_trans)
        qed
        then show ?thesis using 2 by (simp add: fs wp_simps cong: sum.case_cong)
      next
        case 3
        then have "r \<le> t" by (simp add: not_less)
        then show ?thesis using 3 restart [OF e c2(3) 3(1) _ w2(3) fs(1)] c2 ok' [OF c2(1)] by (simp add: fs wp_simps)
      qed
    qed
  qed
qed

lemma wp_continue_session:
  assumes ok: "db_ok w"
    and invalid: "\<And>w'. case sessions_of (sessions w) sid of None \<Rightarrow> True | Some (u, v, r) \<Rightarrow> v \<le> now w' \<Longrightarrow>
      sessions w' = sessions w \<Longrightarrow> db_ok w' \<Longrightarrow> now w \<le> now w' \<Longrightarrow> Q (Inl (Logic (Session_not_found sid))) w'"
    and valid: "\<And>u v r t w'. sessions_of (sessions w) sid = Some (u, v, r) \<Longrightarrow> now w \<le> t \<Longrightarrow> t < v \<Longrightarrow> t < r \<Longrightarrow> t \<le> now w' \<Longrightarrow>
      sessions w' = sessions w \<Longrightarrow>
      users w' = update_first [(''_id'', Boid u)] [(''$set'', Bdoc [(''last_visit_at'', Bdate t)])] (users w) \<Longrightarrow>
      db_ok w' \<Longrightarrow> Q (Inr (oid_string env u, [])) w'"
    and restart: "\<And>d u v r w'. sessions_of (sessions w) sid = Some (u, v, r) \<Longrightarrow> now w < v \<Longrightarrow> r \<le> now w' \<Longrightarrow>
      field d ''user_id'' = Some (Boid u) \<Longrightarrow> sessions w' = sessions w \<Longrightarrow> users w' = users w \<Longrightarrow> db_ok w' \<Longrightarrow>
      now w \<le> now w' \<Longrightarrow> wp (restart_session env sid d) Q w'"
  shows "wp (continue_session env sid) Q w"
proof (rule wp_continue_session_at [OF ok])
  show "wp (restart_session env sid d) Q w'"
    if "sessions_of (sessions w) sid = Some (u, v, r)" "now w \<le> t" "t < v" "r \<le> t" "t \<le> now w'" "field d ''user_id'' = Some (Boid u)"
      "sessions w' = sessions w" "users w' = users w" "db_ok w'" "now w \<le> now w'" for d u v r t w'
    using restart [OF that(1) le_less_trans [OF that(2,3)] order_trans [OF that(4,5)] that(6-10)] .
qed (fact invalid valid)+

end

section \<open>Sequences of operations\<close>

text \<open>What a worker does for its clients, one after the other.\<close>

datatype logic_op = Login form | Logout string | Continue string | Register form

definition run_op :: "'w logic_env \<Rightarrow> logic_op \<Rightarrow> 'w \<Rightarrow> 'w" where
  "run_op env oper w = (case oper of
     Login form \<Rightarrow> snd (login_user env form w)
   | Logout sid \<Rightarrow> snd (logout_user env sid w)
   | Continue sid \<Rightarrow> snd (continue_session env sid w)
   | Register form \<Rightarrow> snd (register_user env form w))"

definition run_ops :: "'w logic_env \<Rightarrow> logic_op list \<Rightarrow> 'w \<Rightarrow> 'w" where
  "run_ops env = fold (run_op env)"

context mongo_store
begin

lemma keeps_start_session: "keeps (start_session_for_obj_without_password_check env user_obj)"
proof (cases "el_oid env (field user_obj ''_id'')")
  case (Inl e)
  then show ?thesis
    by (intro keepsI) (simp only: start_session_for_obj_without_password_check_def wp_bind wp_lift sum.case ages_refl order_refl simp_thms)
next
  case (Inr u)
  show ?thesis
    by (rule keepsI, rule wp_start_session [OF _ Inr]) (auto intro: ages_refl started_ages)
qed

lemma keeps_finish_session: "keeps (finish_session env sid)"
  unfolding finish_session_def end_session_def [symmetric]
  by (intro keeps_rules) (simp_all add: update_keys_def)

lemma keeps_restart_session: "keeps (restart_session env sid d)"
  unfolding restart_session_def by (intro keeps_rules keeps_finish_session keeps_start_session)

lemma keeps_continue_session: "keeps (continue_session env sid)"
  unfolding continue_session_def by (intro keeps_rules keeps_restart_session) (simp add: update_keys_def)

lemma keeps_start_session_for_obj: "keeps (start_session_for_obj env d pw)"
  unfolding start_session_for_obj_def by (intro keeps_rules keeps_start_session)

lemma keeps_start_session_for_email: "keeps (start_session_for_email env email pw)"
  unfolding start_session_for_email_def by (intro keeps_rules keeps_start_session_for_obj)

lemma keeps_login_user: "keeps (login_user env form)"
  unfolding login_user_def by (intro keeps_rules keeps_start_session_for_email)

lemma keeps_unique_user_ref: "keeps (unique_user_ref env uid n)"
proof (induction "nat n" arbitrary: n rule: less_induct)
  case less
  show ?case
    by (subst unique_user_ref.simps, unfold Let_def, intro keeps_bind keeps_reads)
      (auto split: option.split intro!: keeps_pure less.hyps)
qed

lemma snd_insert_catch: "snd (insert_catch m w) = snd (m w)"
  by (cases "m w", cases "fst (m w)") (auto simp: insert_catch_def split: exn.split)

lemma keeps_insert_catch: "keeps m \<Longrightarrow> keeps (insert_catch m)"
  by (simp add: keeps_def wp_def snd_insert_catch)

lemma user_ok_user_doc: "user_ok (user_doc i ref d t)"
  by (simp add: user_ok_def user_doc_def)

lemma keeps_register_user: "keeps (register_user env form)"
  unfolding register_user_def
  by (intro keeps_rules keeps_unique_user_ref keeps_insert_catch keeps_start_session_for_email user_ok_user_doc)

lemma keepsD: "keeps m \<Longrightarrow> db_ok w \<Longrightarrow> db_ok (snd (m w)) \<and> ages w (snd (m w))"
  by (simp add: keeps_def wp_def)

lemma run_op_ages: "db_ok w \<Longrightarrow> db_ok (run_op env oper w) \<and> ages w (run_op env oper w)"
  by (cases oper) (simp_all add: run_op_def logout_user_def keepsD keeps_login_user keeps_continue_session
      keeps_register_user keeps_finish_session)

lemma run_ops_ages: "db_ok w \<Longrightarrow> db_ok (run_ops env ops w) \<and> ages w (run_ops env ops w)"
proof (induction ops arbitrary: w)
  case (Cons oper ops)
  then have "db_ok (run_op env oper w) \<and> ages w (run_op env oper w)" by (simp add: run_op_ages)
  moreover from this Cons.IH have "ages (run_op env oper w) (run_ops env ops (run_op env oper w))" by blast
  ultimately show ?case using Cons.IH by (auto simp: run_ops_def intro: ages_trans)
qed (simp add: run_ops_def ages_refl)

end

section \<open>The service of sessions\<close>

text \<open>
  What the hosts rely on: a session that is known and still valid continues as its user, one that
  is not is refused, finishing one ends it, and nothing that is done later prolongs it.
\<close>

locale session_service =
  fixes ok :: "'w \<Rightarrow> bool" and now :: "'w \<Rightarrow> millis" and entry :: "'w \<Rightarrow> string \<Rightarrow> entry option"
    and user_name :: "oid \<Rightarrow> string"
    and continue :: "string \<Rightarrow> ('w, string \<times> string) lx" and finish :: "string \<Rightarrow> ('w, unit) lx"
    and later :: "'w \<Rightarrow> 'w \<Rightarrow> bool"
  assumes continue_valid: "ok w \<Longrightarrow> entry w sid = Some (u, v, r) \<Longrightarrow> continue sid w = (res, w') \<Longrightarrow>
      now w' < v \<Longrightarrow> now w' < r \<Longrightarrow> res = Inr (user_name u, []) \<and> entry w' = entry w"
    and continue_invalid: "ok w \<Longrightarrow> (case entry w sid of None \<Rightarrow> True | Some (u, v, r) \<Rightarrow> v \<le> now w) \<Longrightarrow>
      fst (continue sid w) = Inl (Logic (Session_not_found sid))"
    and finish_ends: "ok w \<Longrightarrow> finish sid w = (Inr (), w') \<Longrightarrow>
      ok w' \<and> (\<exists>u v r. entry w sid = Some (u, v, r) \<and> now w \<le> v \<and> (\<exists>t\<le>now w'. entry w' = (entry w)(sid := Some (u, t, r))))"
    and later_ages: "ok w \<Longrightarrow> later w w' \<Longrightarrow> ok w' \<and> now w \<le> now w' \<and>
      (\<forall>u v r. entry w sid = Some (u, v, r) \<longrightarrow> (\<exists>v'\<le>v. entry w' sid = Some (u, v', r)))"
begin

text \<open>An invalid session stays invalid.\<close>

lemma invalid_for_ever:
  assumes "ok w" "entry w sid = Some (u, v, r)" "v \<le> now w" "later w w'"
  shows "fst (continue sid w') = Inl (Logic (Session_not_found sid))"
proof -
  from later_ages [OF assms(1,4)] assms(2) obtain v' where "ok w'" "now w \<le> now w'" "v' \<le> v" "entry w' sid = Some (u, v', r)"
    by blast
  moreover from this assms(3) have "v' \<le> now w'" by (meson order_trans)
  ultimately show ?thesis using continue_invalid [of w' sid] by simp
qed

lemma finished_for_ever:
  assumes "ok w" "finish sid w = (Inr (), w')" "later w' w''"
  shows "fst (continue sid w'') = Inl (Logic (Session_not_found sid))"
proof -
  obtain u t r where "ok w'" "t \<le> now w'" "entry w' sid = Some (u, t, r)"
    using finish_ends [OF assms(1,2)] by auto
  then show ?thesis using assms(3) by (blast intro: invalid_for_ever)
qed

end

context mongo_store
begin

definition later :: "'w \<Rightarrow> 'w \<Rightarrow> bool" where
  "later w w' \<longleftrightarrow> (\<exists>ops. w' = run_ops env ops w)"

lemma restart_now: "db_ok w \<Longrightarrow> wp (restart_session env sid d) (\<lambda>r w'. now w \<le> now w') w"
  using keepsD [OF keeps_restart_session] by (simp add: wp_def ages_def)

lemma continue_valid_session:
  assumes "db_ok w" "sessions_of (sessions w) sid = Some (u, v, r)" "continue_session env sid w = (res, w')"
    and "now w' < v" "now w' < r"
  shows "res = Inr (oid_string env u, []) \<and> sessions_of (sessions w') = sessions_of (sessions w)"
proof -
  have "wp (continue_session env sid) (\<lambda>res w'. now w' < v \<longrightarrow> now w' < r \<longrightarrow>
      res = Inr (oid_string env u, []) \<and> sessions_of (sessions w') = sessions_of (sessions w)) w"
  proof (rule wp_continue_session [OF assms(1)])
    fix d u' v' r' w1
    assume e: "sessions_of (sessions w) sid = Some (u', v', r')" and r: "r' \<le> now w1" and ok: "db_ok w1"
    show "wp (restart_session env sid d) (\<lambda>res w'. now w' < v \<longrightarrow> now w' < r \<longrightarrow>
        res = Inr (oid_string env u, []) \<and> sessions_of (sessions w') = sessions_of (sessions w)) w1"
      by (rule wp_mono [OF restart_now [OF ok]]) (use e r assms(2) in \<open>auto simp: not_less [symmetric]\<close>)
  qed (use assms(2) in auto)
  from wpD [OF this assms(3)] assms(4,5) show ?thesis by blast
qed

lemma continue_invalid_session:
  assumes "db_ok w" "case sessions_of (sessions w) sid of None \<Rightarrow> True | Some (u, v, r) \<Rightarrow> v \<le> now w"
  shows "fst (continue_session env sid w) = Inl (Logic (Session_not_found sid))"
proof -
  have "wp (continue_session env sid) (\<lambda>res w'. res = Inl (Logic (Session_not_found sid))) w"
  proof (rule wp_continue_session [OF assms(1)])
    fix d u v r w1
    assume "sessions_of (sessions w) sid = Some (u, v, r)" "now w < v"
    then show "wp (restart_session env sid d) (\<lambda>res w'. res = Inl (Logic (Session_not_found sid))) w1"
      using assms(2) by simp
  next
    fix u v r t w'
    assume "sessions_of (sessions w) sid = Some (u, v, r)" "now w \<le> t" "t < v"
    then show "(Inr (oid_string env u, []) :: exn + string \<times> string) = Inl (Logic (Session_not_found sid))"
      using assms(2) by (auto dest: le_less_trans)
  qed simp
  then show ?thesis by (simp add: wp_def)
qed

end

context mongo_store
begin

lemma finish_ends_session:
  assumes "db_ok w" "finish_session env sid w = (Inr (), w')"
  shows "db_ok w' \<and> (\<exists>u v r. session_at env coll w sid = Some (u, v, r) \<and> now w \<le> v \<and>
    (\<exists>t\<le>now w'. session_at env coll w' = (session_at env coll w)(sid := Some (u, t, r))))"
proof -
  have "wp (finish_session env sid) (\<lambda>res w'. res = Inr () \<longrightarrow> db_ok w' \<and>
      (\<exists>u v r. session_at env coll w sid = Some (u, v, r) \<and> now w \<le> v \<and>
        (\<exists>t\<le>now w'. session_at env coll w' = (session_at env coll w)(sid := Some (u, t, r))))) w"
    by (rule wp_finish_session [OF assms(1)]) (auto simp: session_at_def intro: order_trans)
  from wpD [OF this assms(2)] show ?thesis by simp
qed

end

sublocale mongo_store \<subseteq> session_service "database_ok env coll" now "session_at env coll" "oid_string env"
    "continue_session env" "finish_session env" later
proof unfold_locales
  show "res = Inr (oid_string env u, []) \<and> session_at env coll w' = session_at env coll w"
    if "db_ok w" "session_at env coll w sid = Some (u, v, r)" "continue_session env sid w = (res, w')"
      "now w' < v" "now w' < r" for w sid u v r res w'
    using continue_valid_session that by (simp add: session_at_def)
  show "fst (continue_session env sid w) = Inl (Logic (Session_not_found sid))"
    if "db_ok w" "case session_at env coll w sid of None \<Rightarrow> True | Some (u, v, r) \<Rightarrow> v \<le> now w" for w sid
    using continue_invalid_session that by (simp add: session_at_def)
  show "db_ok w' \<and> (\<exists>u v r. session_at env coll w sid = Some (u, v, r) \<and> now w \<le> v \<and>
      (\<exists>t\<le>now w'. session_at env coll w' = (session_at env coll w)(sid := Some (u, t, r))))"
    if "db_ok w" "finish_session env sid w = (Inr (), w')" for w sid w'
    using that by (rule finish_ends_session)
  show "db_ok w' \<and> now w \<le> now w' \<and> (\<forall>u v r. session_at env coll w sid = Some (u, v, r) \<longrightarrow>
      (\<exists>v'\<le>v. session_at env coll w' sid = Some (u, v', r)))"
    if "db_ok w" "later w w'" for w w' sid
    using that run_ops_ages [of w] by (auto simp: later_def ages_def session_at_def)
qed

interpretation memory_sessions: session_service "database_ok memory_env mem_colls" mem_now
    "session_at memory_env mem_colls" "oid_string memory_env" "continue_session memory_env" "finish_session memory_env"
    "mongo_store.later memory_env"
  by (rule memory_db.session_service_axioms)

section \<open>What users can rely on\<close>

context mongo_store
begin

lemma logged_out: "db_ok w \<Longrightarrow> logout_user env sid w = (Inr (), w') \<Longrightarrow>
    fst (continue_session env sid (run_ops env ops w')) = Inl (Logic (Session_not_found sid))"
  by (rule finished_for_ever) (auto simp: logout_user_def later_def)

lemma found_user:
  assumes "list_all user_ok ds" "first_match q ds = Some d"
  obtains i where "map_of d ''_id'' = Some (Boid i)"
  using assms by (auto simp: list_all_iff user_ok_def dest!: first_match_Some)

lemma wp_start_session_for_email_visits:
  assumes ok: "db_ok w"
    and no_user: "\<And>w'. first_match [(''email'', Bstr email)] (users w) = None \<Longrightarrow>
      sessions w' = sessions w \<Longrightarrow> Q (Inl (Logic (User_not_found (''For email: '' @ [DQUOTE] @ email @ ''and password: '' @ quoted pw)))) w'"
    and wrong: "\<And>d u w'. first_match [(''email'', Bstr email)] (users w) = Some d \<Longrightarrow> map_of d ''_id'' = Some (Boid u) \<Longrightarrow>
      el_str env (map_of d ''password'') \<noteq> pw \<Longrightarrow> sessions w' = sessions w \<Longrightarrow>
      Q (Inl (Logic (Password_not_match (oid_string env u) pw))) w'"
    and fails: "\<And>d u e w'. first_match [(''email'', Bstr email)] (users w) = Some d \<Longrightarrow> map_of d ''_id'' = Some (Boid u) \<Longrightarrow>
      el_str env (map_of d ''password'') = pw \<Longrightarrow> sessions w' = sessions w \<Longrightarrow>
      e = Logic (Cant_start_session (oid_string env u)) \<or> (\<exists>m. e = Mongo_operation m) \<Longrightarrow> Q (Inl e) w'"
    and starts: "\<And>d u sid t w'. first_match [(''email'', Bstr email)] (users w) = Some d \<Longrightarrow> map_of d ''_id'' = Some (Boid u) \<Longrightarrow>
      el_str env (map_of d ''password'') = pw \<Longrightarrow> started w u sid t w' \<Longrightarrow> db_ok w' \<Longrightarrow> visited (users w) u (users w') \<Longrightarrow>
      Q (Inr (el_str env (map_of d ''ref''), session_cookie_text env sid t)) w'"
  shows "wp (start_session_for_email env email pw) Q w"
  unfolding start_session_for_email_def
proof (rule wp_bindI, rule wp_find_one, unfold sum.case, goal_cases)
  case (1 w1)
  let ?q = "[(''email'', Bstr email)]" and ?fs = "fields_to_return [''_id'', ''ref'', ''password'']"
  have s1: "sessions w1 = sessions w" and ok1: "db_ok w1" using 1 ok by (simp_all add: db_ok_def)
  have uok: "list_all user_ok (users w)" using ok by (simp add: db_ok_def)
  show ?case
  proof (cases "first_match ?q (users w)")
    case None
    then show ?thesis using no_user [OF None s1] by (simp add: found_doc_def wp_throw)
  next
    case (Some d)
    from uok Some obtain u where u: "map_of d ''_id'' = Some (Boid u)" by (rule found_user)
    let ?d = "found_doc ?q ?fs (users w)"
    note f = found_session_fields [OF Some u, where ks = "[''_id'', ''ref'', ''password'']", simplified]
    have g: "field ?d ''ref'' = map_of d ''ref''" "field ?d ''password'' = map_of d ''password''"
      using Some by (simp_all add: found_doc_def field_project map_of_fields_to_return, simp_all add: field_def)
    have id: "el_oid env (field ?d ''_id'') = Inr u" using f(2) u by simp
    show ?thesis unfolding if_not_P [OF f(1)]
    proof (cases "el_str env (map_of d ''password'') = pw")
      case True
      have "wp (start_session_for_obj_without_password_check env ?d) Q w1"
        by (rule wp_start_session_visits [OF ok1 id])
          (use True Some u s1 1 fails starts g in \<open>auto simp: session_started_def session_at_def intro: order_trans\<close>)
      then show "wp (start_session_for_obj env ?d pw) Q w1"
        by (simp add: start_session_for_obj_def g True)
    next
      case False
      then show "wp (start_session_for_obj env ?d pw) Q w1"
        using wrong [OF Some u False s1] by (simp add: start_session_for_obj_def g wp_simps id)
    qed
  qed
qed

lemma wp_start_session_for_email:
  assumes "db_ok w"
    and "\<And>w'. first_match [(''email'', Bstr email)] (users w) = None \<Longrightarrow>
      sessions w' = sessions w \<Longrightarrow> Q (Inl (Logic (User_not_found (''For email: '' @ [DQUOTE] @ email @ ''and password: '' @ quoted pw)))) w'"
    and "\<And>d u w'. first_match [(''email'', Bstr email)] (users w) = Some d \<Longrightarrow> map_of d ''_id'' = Some (Boid u) \<Longrightarrow>
      el_str env (map_of d ''password'') \<noteq> pw \<Longrightarrow> sessions w' = sessions w \<Longrightarrow>
      Q (Inl (Logic (Password_not_match (oid_string env u) pw))) w'"
    and "\<And>d u e w'. first_match [(''email'', Bstr email)] (users w) = Some d \<Longrightarrow> map_of d ''_id'' = Some (Boid u) \<Longrightarrow>
      el_str env (map_of d ''password'') = pw \<Longrightarrow> sessions w' = sessions w \<Longrightarrow>
      e = Logic (Cant_start_session (oid_string env u)) \<or> (\<exists>m. e = Mongo_operation m) \<Longrightarrow> Q (Inl e) w'"
    and "\<And>d u sid t w'. first_match [(''email'', Bstr email)] (users w) = Some d \<Longrightarrow> map_of d ''_id'' = Some (Boid u) \<Longrightarrow>
      el_str env (map_of d ''password'') = pw \<Longrightarrow> started w u sid t w' \<Longrightarrow> db_ok w' \<Longrightarrow>
      Q (Inr (el_str env (map_of d ''ref''), session_cookie_text env sid t)) w'"
  shows "wp (start_session_for_email env email pw) Q w"
  using assms by (rule wp_start_session_for_email_visits)

lemma wp_login_user:
  assumes "db_ok w"
  shows "wp (login_user env form) (\<lambda>res w'. case res of
      Inl e \<Rightarrow> session_at env coll w' = session_at env coll w
    | Inr (ref, cookie) \<Rightarrow> \<exists>email d u sid t. map_of form ''email'' = Some email \<and>
        first_match [(''email'', Bstr email)] (users w) = Some d \<and>
        map_of form ''password'' = Some (el_str env (map_of d ''password'')) \<and> map_of d ''_id'' = Some (Boid u) \<and>
        ref = el_str env (map_of d ''ref'') \<and> cookie = session_cookie_text env sid t \<and> started w u sid t w') w"
proof (cases "map_of form ''email''")
  case (Some email)
  show ?thesis
  proof (cases "map_of form ''password''")
    case (Some pw)
    show ?thesis
      unfolding login_user_def form_at_def \<open>map_of form ''email'' = Some email\<close> Some option.case wp_bind wp_lift sum.case
      by (rule wp_start_session_for_email [OF assms], unfold sum.case prod.case session_at_def, simp, simp, simp, blast)
  qed (simp add: login_user_def form_at_def Some wp_simps)
qed (simp add: login_user_def form_at_def wp_simps)

end

text \<open>
  A restart: the session \<open>sid\<close> is over and a new one belongs to the same user. The first component of
  what is returned is the reference of the user, not the identifier.
\<close>

definition session_restarted :: "'w logic_env \<Rightarrow> ('w \<Rightarrow> string \<Rightarrow> doc list) \<Rightarrow> ('w \<Rightarrow> millis) \<Rightarrow> 'w \<Rightarrow> oid \<Rightarrow> millis \<Rightarrow>
    string \<Rightarrow> string \<Rightarrow> string \<Rightarrow> 'w \<Rightarrow> bool" where
  "session_restarted env coll now w u r sid x cookie w' \<longleftrightarrow> (\<exists>d sid' t.
     first_match [(''_id'', Boid u)] (coll w (collection_users env)) = Some d \<and>
     x = el_str env (map_of d ''ref'') \<and> cookie = session_cookie_text env sid' t \<and>
     session_at env coll w sid' = None \<and>
     session_at env coll w' sid' = Some (u, t + session_lifetime env, t + session_restart_after env) \<and>
     (\<exists>t'\<le>now w'. session_at env coll w' sid = Some (u, t', r) \<and>
        session_at env coll w' = (session_at env coll w)(sid := Some (u, t', r),
          sid' := Some (u, t + session_lifetime env, t + session_restart_after env))))"

text \<open>
  How a restart ends: in a new session; in the error that the user is gone, or that meanwhile the time of the
  session is over, and then nothing happens to the sessions; or in the error that no identifier was free or that
  the database refused the new session, and then the old one is over all the same.
\<close>

definition restart_fails :: "'w logic_env \<Rightarrow> ('w \<Rightarrow> string \<Rightarrow> doc list) \<Rightarrow> ('w \<Rightarrow> millis) \<Rightarrow> 'w \<Rightarrow> oid \<Rightarrow> millis \<Rightarrow> millis \<Rightarrow>
    string \<Rightarrow> exn \<Rightarrow> 'w \<Rightarrow> bool" where
  "restart_fails env coll now w u v r sid e w' \<longleftrightarrow>
     (if first_match [(''_id'', Boid u)] (coll w (collection_users env)) = None
      then e = Logic (User_not_found (''For id: '' @ quoted (oid_string env u))) \<and> session_at env coll w' = session_at env coll w
      else e = Logic (Session_not_found sid) \<and> v < now w' \<and> session_at env coll w' = session_at env coll w \<or>
        (e = Logic (Cant_start_session (oid_string env u)) \<or> (\<exists>m. e = Mongo_operation m)) \<and>
          (\<exists>t'\<le>now w'. session_at env coll w' = (session_at env coll w)(sid := Some (u, t', r))))"

definition restart_outcome :: "'w logic_env \<Rightarrow> ('w \<Rightarrow> string \<Rightarrow> doc list) \<Rightarrow> ('w \<Rightarrow> millis) \<Rightarrow> 'w \<Rightarrow> oid \<Rightarrow> millis \<Rightarrow> millis \<Rightarrow>
    string \<Rightarrow> exn + string \<times> string \<Rightarrow> 'w \<Rightarrow> bool" where
  "restart_outcome env coll now w u v r sid res w' \<longleftrightarrow> (case res of
     Inr (x, cookie) \<Rightarrow> session_restarted env coll now w u r sid x cookie w'
   | Inl e \<Rightarrow> restart_fails env coll now w u v r sid e w')"

context mongo_store
begin

abbreviation restarted :: "'w \<Rightarrow> oid \<Rightarrow> millis \<Rightarrow> string \<Rightarrow> string \<Rightarrow> string \<Rightarrow> 'w \<Rightarrow> bool" where
  "restarted \<equiv> session_restarted env coll now"

lemmas restarted_def = session_restarted_def [of env coll now]

lemma wp_restart_outcome:
  assumes ok: "db_ok w" and d0: "field d0 ''user_id'' = Some (Boid u)"
    and e: "sessions_of (sessions w) sid = Some (u, v, r)"
  shows "wp (restart_session env sid d0) (restart_outcome env coll now w u v r sid) w"
  unfolding restart_session_def d0 el_oid_spec
proof (rule wp_bindI, unfold wp_lift sum.case, rule wp_bindI, rule wp_find_one, unfold sum.case, goal_cases)
  case (1 w1)
  have c1: "sessions w1 = sessions w" "db_ok w1" using 1 ok by (simp_all add: db_ok_def)
  show ?case
  proof (cases "first_match [(''_id'', Boid u)] (users w)")
    case None
    then show ?thesis using 1 by (simp add: found_doc_def wp_throw restart_outcome_def restart_fails_def session_at_def)
  next
    case (Some d)
    then have id: "map_of d ''_id'' = Some (Boid u)" by (auto dest: first_match_Some)
    then have f: "found_doc [(''_id'', Boid u)] [] (users w) = d" "d \<noteq> []" using Some by (auto simp: found_doc_def project_def)
    have "wp (sbind (finish_session env sid) (\<lambda>_. start_session_for_obj_without_password_check env d))
      (restart_outcome env coll now w u v r sid) w1"
    proof (rule wp_bindI, rule wp_finish_session [OF c1(2)], unfold sum.case, goal_cases)
      case (1 w2)
      then show ?case using e c1 by simp
    next
      case (2 u' v' r' t w2)
      then show ?case using e c1 Some by (auto simp: restart_outcome_def restart_fails_def session_at_def)
    next
      case (3 u' v' r' t w2)
      have tw: "t \<le> now w2" by (rule 3(4))
      have s2: "session_at env coll w2 = (session_at env coll w)(sid := Some (u, t, r))" using 3 e c1 by (simp add: session_at_def)
      have oid: "el_oid env (field d ''_id'') = Inr u" by (simp add: field_def id)
      show ?case
      proof (rule wp_start_session [OF 3(6) oid], goal_cases)
        case (1 e w3)
        moreover from this have "session_at env coll w3 = session_at env coll w2" "t \<le> now w3"
          using tw by (auto simp: session_at_def intro: order_trans)
        ultimately show ?case using s2 by (auto simp: restart_outcome_def restart_fails_def Some)
      next
        case (2 sid' t' w3)
        then have st: "session_at env coll w3 = (session_at env coll w2)
            (sid' := Some (u, t' + session_lifetime env, t' + session_restart_after env))" "session_at env coll w2 sid' = None"
          and "t \<le> now w3" using tw by (auto simp: session_started_def intro: order_trans)
        moreover from this s2 have "sid' \<noteq> sid" "session_at env coll w sid' = None" by (auto split: if_splits)
        ultimately show ?case
          using Some s2 unfolding restart_outcome_def restarted_def sum.case prod.case field_def
          by (intro exI [of _ d] exI [of _ sid'] exI [of _ t'] conjI exI [of _ t]) simp_all
      qed
    qed
    then show ?thesis using f by simp
  qed
qed

lemma wp_continue_exact:
  assumes ok: "db_ok w"
  shows "wp (continue_session env sid) (\<lambda>res w'. case session_at env coll w sid of
      None \<Rightarrow> res = Inl (Logic (Session_not_found sid)) \<and> session_at env coll w' = session_at env coll w
    | Some (u, v, r) \<Rightarrow> \<exists>t. now w \<le> t \<and> t \<le> now w' \<and>
        (if v \<le> t then res = Inl (Logic (Session_not_found sid)) \<and> session_at env coll w' = session_at env coll w
         else if t < r then res = Inr (oid_string env u, []) \<and> session_at env coll w' = session_at env coll w
         else restart_outcome env coll now w u v r sid res w')) w"
proof (rule wp_continue_session_at [OF ok], goal_cases)
  case (1 w')
  then show ?case by (auto simp: session_at_def split: option.splits intro!: exI [of _ "now w'"])
next
  case (2 u v r t w')
  then show ?case by (auto simp: session_at_def not_le intro!: exI [of _ t])
next
  case (3 d u v r t w1)
  have "wp (restart_session env sid d) (\<lambda>res w'. now w1 \<le> now w' \<and> restart_outcome env coll now w1 u v r sid res w') w1"
    using restart_now [OF 3(9), of sid d] wp_restart_outcome [OF 3(9,6), of sid v r] 3(1,7) by (simp add: wp_def)
  then show ?case
  proof (rule wp_mono)
    fix res w' assume a: "now w1 \<le> now w' \<and> restart_outcome env coll now w1 u v r sid res w'"
    have "restart_outcome env coll now w u v r sid res w'"
      using a by (simp only: restart_outcome_def restart_fails_def session_restarted_def session_at_def 3(7,8))
    moreover have "t \<le> now w'" using a 3(5) by (auto intro: order_trans)
    ultimately show "case session_at env coll w sid of
      None \<Rightarrow> res = Inl (Logic (Session_not_found sid)) \<and> session_at env coll w' = session_at env coll w
    | Some (u, v, r) \<Rightarrow> \<exists>t. now w \<le> t \<and> t \<le> now w' \<and>
        (if v \<le> t then res = Inl (Logic (Session_not_found sid)) \<and> session_at env coll w' = session_at env coll w
         else if t < r then res = Inr (oid_string env u, []) \<and> session_at env coll w' = session_at env coll w
         else restart_outcome env coll now w u v r sid res w')"
      using 3(1-4) by (auto simp: session_at_def not_le not_less intro!: exI [of _ t])
  qed
qed

lemma wp_continue_outcome:
  assumes ok: "db_ok w"
  shows "wp (continue_session env sid) (\<lambda>res w'. \<forall>x cookie. res = Inr (x, cookie) \<longrightarrow>
    (\<exists>u v r. session_at env coll w sid = Some (u, v, r) \<and> now w < v \<and>
      (cookie = [] \<and> x = oid_string env u \<and> session_at env coll w' = session_at env coll w \<or>
       r \<le> now w' \<and> restarted w u r sid x cookie w'))) w"
  by (rule wp_mono [OF wp_continue_exact [OF ok]])
    (auto simp: restart_outcome_def split: option.splits if_splits intro: order_trans le_less_trans)

end

section \<open>Registration\<close>

definition form_keys :: "string list" where
  "form_keys = [''email'', ''password'', ''name'', ''surname'']"

definition form_complete :: "form \<Rightarrow> bool" where
  "form_complete form \<longleftrightarrow> (\<forall>k\<in>set form_keys. map_of form k \<noteq> None \<and> map_of form k \<noteq> Some [])"

definition form_doc :: "form \<Rightarrow> doc" where
  "form_doc form = map (\<lambda>k. (k, Bstr (the (map_of form k)))) form_keys"

text \<open>A user with the identifier \<open>u\<close>, a reference nobody had and the data of the form was added.\<close>

definition user_added :: "'w logic_env \<Rightarrow> ('w \<Rightarrow> string \<Rightarrow> doc list) \<Rightarrow> 'w \<Rightarrow> form \<Rightarrow> oid \<Rightarrow> string \<Rightarrow> millis \<Rightarrow> 'w \<Rightarrow> bool" where
  "user_added env coll w form u ref t w' \<longleftrightarrow> form_complete form \<and> ref \<noteq> [] \<and>
     first_match [(''ref'', Bstr ref)] (coll w (collection_users env)) = None \<and>
     coll w' = (coll w)(collection_users env := coll w (collection_users env) @ [user_doc u ref (form_doc form) t])"

lemma form_fields_Inr: "form_fields form ks = Inr d \<Longrightarrow>
    d = map (\<lambda>k. (k, Bstr (the (map_of form k)))) ks \<and> (\<forall>k\<in>set ks. map_of form k \<noteq> None \<and> map_of form k \<noteq> Some [])"
proof (induction ks arbitrary: d)
  case (Cons k ks)
  then show ?case
    by (cases "map_of form k"; cases "form_fields form ks") (auto simp: form_at_def split: if_splits)
qed simp

lemma wp_insert_catch: "wp m (\<lambda>r s. case r of Inl e \<Rightarrow> P s | Inr x \<Rightarrow> Q s) w \<Longrightarrow>
    wp (insert_catch m) (\<lambda>r s. case r of Inl e \<Rightarrow> P s | Inr x \<Rightarrow> Q s) w"
  by (cases "m w", cases "fst (m w)") (auto simp: wp_def insert_catch_def split: exn.split)

lemma first_match_filter: "filter (doc_matches q) ds = [] \<longleftrightarrow> first_match q ds = None"
  by (auto simp: first_match_None filter_empty_conv)

context mongo_store
begin

lemma wp_unique_user_ref:
  "(\<And>x w'. coll w' = coll w \<Longrightarrow> now w \<le> now w' \<Longrightarrow>
      x \<noteq> [] \<longrightarrow> first_match [(''ref'', Bstr x)] (users w) = None \<Longrightarrow> Q (Inr x) w') \<Longrightarrow>
   wp (unique_user_ref env uid n) Q w"
proof (induction "nat n" arbitrary: n w rule: less_induct)
  case less
  show ?case
  proof (subst unique_user_ref.simps, unfold Let_def wp_bind, rule wp_generate_user_ref, unfold sum.case wp_bind,
      rule wp_query, unfold sum.case option.case, goal_cases)
    case (1 x w1 w2)
    define x' where "x' = (if (if 1 = (0 :: nat) then id else take 1)
      (map (project []) (filter (doc_matches [(''ref'', Bstr x)]) (users w1))) \<noteq> [] then [] else x)"
    have w2: "coll w2 = coll w" "now w \<le> now w2" using 1 by (simp_all add: order_trans [OF 1(2,4)])
    have "wp (if x' = [] \<and> n - 1 > 0 then unique_user_ref env uid (n - 1) else sreturn x') Q w2"
    proof (cases "x' = [] \<and> n - 1 > 0")
      case True
      have "wp (unique_user_ref env uid (n - 1)) Q w2"
      proof (rule less.hyps)
        show "nat (n - 1) < nat n" using True by simp
        fix y w' assume "coll w' = coll w2" "now w2 \<le> now w'"
          "y \<noteq> [] \<longrightarrow> first_match [(''ref'', Bstr y)] (users w2) = None"
        then show "Q (Inr y) w'" using w2 by (intro less.prems) (auto intro: order_trans [OF w2(2)])
      qed
      then show ?thesis by (simp only: if_P [OF True])
    next
      case False
      have "x' \<noteq> [] \<longrightarrow> first_match [(''ref'', Bstr x')] (users w) = None"
        using 1 by (simp add: x'_def first_match_filter)
      with less.prems [OF w2] have "Q (Inr x') w2" .
      then show ?thesis by (simp only: if_not_P [OF False] wp_return)
    qed
    then show ?case by (simp only: x'_def)
  qed
qed

lemma wp_register_user:
  assumes ok: "db_ok w"
    and fails: "\<And>e w'. coll w' = coll w \<Longrightarrow> Q (Inl e) w'"
    and added: "\<And>u ref t w1. user_added env coll w form u ref t w1 \<Longrightarrow> now w \<le> now w1 \<Longrightarrow> db_ok w1 \<Longrightarrow>
      wp (start_session_for_email env (the (map_of form ''email'')) (the (map_of form ''password''))) Q w1"
  shows "wp (register_user env form) Q w"
  unfolding register_user_def
proof (rule wp_bindI, rule wp_gen_oid, unfold sum.case, rule wp_bindI, rule wp_unique_user_ref, unfold sum.case, goal_cases)
  case (1 u w1 ref w2)
  have c2: "coll w2 = coll w" "now w \<le> now w2" using 1 by (simp_all add: order_trans [OF 1(2,4)])
  show ?case
  proof (cases "ref = []")
    case True
    then show ?thesis using fails c2 by (simp add: wp_throw)
  next
    case False
    show ?thesis unfolding if_not_P [OF False]
    proof (cases "form_fields form [''email'', ''password'', ''name'', ''surname'']")
      case (Inl e)
      then show "wp (sbind (slift (form_fields form [''email'', ''password'', ''name'', ''surname''])) (\<lambda>d.
       sbind (utc_time env) (\<lambda>time_now.
       sbind (insert_catch (insert_doc env (collection_users env) (user_doc u ref d time_now))) (\<lambda>_.
       sbind (slift (form_at form ''email'')) (\<lambda>email.
       sbind (slift (form_at form ''password'')) (\<lambda>password. start_session_for_email env email password)))))) Q w2"
        using fails c2 by (simp add: wp_bind wp_lift)
    next
      case (Inr d)
      have d: "d = form_doc form" "form_complete form"
        using form_fields_Inr [OF Inr] by (simp_all add: form_doc_def form_complete_def form_keys_def)
      then have at: "form_at form ''email'' = Inr (the (map_of form ''email''))"
          "form_at form ''password'' = Inr (the (map_of form ''password''))"
        by (auto simp: form_at_def form_complete_def form_keys_def)
      show "wp (sbind (slift (form_fields form [''email'', ''password'', ''name'', ''surname''])) (\<lambda>d.
       sbind (utc_time env) (\<lambda>time_now.
       sbind (insert_catch (insert_doc env (collection_users env) (user_doc u ref d time_now))) (\<lambda>_.
       sbind (slift (form_at form ''email'')) (\<lambda>email.
       sbind (slift (form_at form ''password'')) (\<lambda>password. start_session_for_email env email password)))))) Q w2"
        unfolding Inr at
      proof (rule wp_bindI, unfold wp_lift sum.case, rule wp_bindI, rule wp_utc_time, unfold sum.case, goal_cases)
        case (1 t w3)
        have c3: "coll w3 = coll w" "now w \<le> now w3" using 1 c2 by (auto intro: order_trans)
        have "wp (insert_doc env (collection_users env) (user_doc u ref d t)) (\<lambda>r s. case r of
            Inl e \<Rightarrow> coll s = coll w | Inr _ \<Rightarrow> user_added env coll w form u ref t s \<and> now w \<le> now s \<and> db_ok s) w3"
        proof (rule wp_insert, unfold sum.case)
          fix s assume s: "coll s = (coll w3)(collection_users env := users w3 @ [user_doc u ref d t])" "now w3 \<le> now s"
          then have "user_added env coll w form u ref t s"
            using c3 \<open>coll w2 = coll w\<close> 1 d False \<open>ref \<noteq> [] \<longrightarrow> first_match [(''ref'', Bstr ref)] (users w1) = None\<close> \<open>coll w1 = coll w\<close>
            by (simp add: user_added_def)
          moreover have "db_ok s" using ok s c3 collections_distinct by (auto simp: db_ok_def user_ok_user_doc)
          ultimately show "user_added env coll w form u ref t s \<and> now w \<le> now s \<and> db_ok s"
            using s(2) c3 by (auto intro: order_trans)
        qed (use c3 in simp)
        then have "wp (insert_catch (insert_doc env (collection_users env) (user_doc u ref d t))) (\<lambda>r s. case r of
            Inl e \<Rightarrow> coll s = coll w | Inr _ \<Rightarrow> user_added env coll w form u ref t s \<and> now w \<le> now s \<and> db_ok s) w3"
          by (rule wp_insert_catch)
        then show ?case
          unfolding wp_bind wp_lift sum.case
          by (rule wp_mono) (use fails added in \<open>auto split: sum.splits\<close>)
      qed
    qed
  qed
qed

end

text \<open>A database in memory with one user, who is not logged in.\<close>

definition sample_user :: doc where
  "sample_user = [(''_id'', Boid 7), (''ref'', Bstr ''a0''), (''email'', Bstr ''bob''), (''password'', Bstr ''pw''),
     (''name'', Bstr ''Bob''), (''surname'', Bstr ''B''), (''sessions'', Barr []), (''last_visit_at'', Bdate 0),
     (''birthday'', Bstr []), (''friends'', Barr []), (''friend_of'', Barr []), (''incoming_friends'', Barr [])]"

definition sample_memory :: memory where
  "sample_memory = \<lparr>mem_colls = (\<lambda>c. if c = ''users'' then [sample_user] else []), mem_clock = 0, mem_counter = 0\<rparr>"

definition sample_form :: form where
  "sample_form = [(''email'', ''bob''), (''password'', ''pw'')]"

lemma sample_memory_ok: "database_ok memory_env mem_colls sample_memory"
  by (simp add: database_ok_def sample_memory_def memory_env_def user_ok_def sample_user_def)

lemma memory_env_simps [simp]:
  "collection_users memory_env = ''users''" "collection_sessions memory_env = ''sessions''"
  "find_one memory_env = mem_find"
  "find_and_modify memory_env c q u fs w = (Inr (found_doc q fs (mem_colls w c)),
     w\<lparr>mem_colls := (mem_colls w)(c := update_first q u (mem_colls w c))\<rparr>)"
  "insert_doc memory_env c d w = (Inr (), w\<lparr>mem_colls := (mem_colls w)(c := mem_colls w c @ [d])\<rparr>)"
  "query_docs memory_env c q n fs w = (Inr (Some ((if n = 0 then id else take n)
     (map (project fs) (filter (doc_matches q) (mem_colls w c))))), w)"
  "gen_oid memory_env w = (Inr (of_nat (mem_counter w)), w\<lparr>mem_counter := Suc (mem_counter w)\<rparr>)"
  "clock memory_env w = (Inr (mem_clock w), w)"
  "el_str memory_env (Some (Bstr s)) = s" "el_oid memory_env (Some (Boid i)) = Inr i"
  "el_date memory_env (Some (Bdate t)) = Inr t" "oid_string memory_env = mem_oid_string" "session_id_create_attempts memory_env = 3"
  "session_lifetime memory_env = one_month"
  by (simp_all add: memory_env_def)

lemma random_data_clock: "mem_clock (snd (random_data memory_env n l h w)) = mem_clock w"
proof (induction "Suc n - l" arbitrary: l h w rule: less_induct)
  case less
  have r: "random_value memory_env w = (Inr (of_nat (mem_counter w)), w\<lparr>mem_counter := Suc (mem_counter w)\<rparr>)"
    by (simp add: memory_env_def)
  show ?case
    by (subst random_data.simps) (use less [of "l + 4"] in \<open>simp add: sbind_def r Let_def\<close>)
qed

lemma memory_random_hash:
  assumes "\<And>bs. digest bs \<noteq> []"
  obtains x w' where "generate_random_hash memory_env n digest str w = (Inr x, w')" "x \<noteq> []"
    "mem_colls w' = mem_colls w" "mem_clock w' = mem_clock w"
proof -
  obtain x w' where g: "generate_random_hash memory_env n digest str w = (Inr x, w')" "mem_colls w' = mem_colls w"
    using memory_db.wp_random_hash [where Q = "\<lambda>r w'. \<exists>s. r = Inr s \<and> mem_colls w' = mem_colls w" and w = w
        and n = n and digest = digest and str = str]
    by (cases "generate_random_hash memory_env n digest str w") (auto simp: wp_def)
  then obtain bs where bs: "random_data memory_env n (length str) (bytes_of str @ word_bytes 8 (mem_clock w)) w = (Inr bs, w')"
      "x = concat (map hex_byte (digest bs))"
    by (auto simp: generate_random_hash_def sbind_Inr_iff)
  then have "x \<noteq> []" using assms [of bs] by (cases "digest bs") (simp_all add: hex_byte_def)
  then show ?thesis
    using that [OF g(1) _ g(2)] random_data_clock [of n "length str" "bytes_of str @ word_bytes 8 (mem_clock w)" w] bs(1) by auto
qed

lemma sha_not_empty: "sha512 memory_env bs \<noteq> []" "sha256 memory_env bs \<noteq> []"
  by (simp_all add: memory_env_def)

lemma sample_login:
  "\<exists>x i w. login_user memory_env sample_form sample_memory = (Inr (''a0'', session_cookie_text memory_env x 0), w) \<and> x \<noteq> [] \<and>
     mem_colls w ''sessions'' = [session_doc memory_env i x 7 0] \<and> mem_clock w = 0 \<and> length (mem_colls w ''users'') = 1"
proof -
  obtain x w where g: "generate_session_id memory_env (mem_oid_string 7) sample_memory = (Inr x, w)" "x \<noteq> []"
      "mem_colls w = mem_colls sample_memory" "mem_clock w = mem_clock sample_memory"
    unfolding generate_session_id_def by (rule memory_random_hash [OF sha_not_empty(1)])
  have u: "unique_session_id memory_env (mem_oid_string 7) 3 sample_memory = (Inr x, w)"
    using g by (subst unique_session_id.simps)
      (simp add: sbind_def mem_find_def found_doc_def first_match_def, simp add: sample_memory_def)
  have f: "mem_find ''users'' [(''email'', Bstr ''bob'')] (fields_to_return [''_id'', ''ref'', ''password'']) sample_memory =
      (Inr [(''_id'', Boid 7), (''ref'', Bstr ''a0''), (''password'', Bstr ''pw'')], sample_memory)"
    by (simp add: mem_find_def sample_memory_def found_doc_def first_match_Cons sample_user_def project_def fields_to_return_def)
  have d: "div_time 0 1000000 = 0" by (simp add: div_time_def)
  have m: "mem_clock sample_memory = 0" "mem_colls sample_memory ''sessions'' = []"
      "length (update_first q v (mem_colls sample_memory ''users'')) = 1" for q v
    by (simp_all add: sample_memory_def)
  show ?thesis
    unfolding login_user_def start_session_for_email_def start_session_for_obj_def
      start_session_for_obj_without_password_check_def sample_form_def form_at_def
    by (rule exI [of _ x], rule exI [of _ "of_nat (mem_counter w)"])
      (use g in \<open>simp add: sbind_def f u field_def utc_time_def m d\<close>)
qed

lemma session_doc_fields: "map_of (session_doc env i sid u t) ''session_id'' = Some (Bstr sid)"
  by (simp add: session_doc_def)

text \<open>The session that the login has started: it belongs to user 7 and continues.\<close>

lemma sample_session:
  obtains x w where "login_user memory_env sample_form sample_memory = (Inr (''a0'', session_cookie_text memory_env x 0), w)"
    "session_started memory_env mem_colls mem_now sample_memory 7 x 0 w" "database_ok memory_env mem_colls w"
    "fst (continue_session memory_env x w) = Inr (mem_oid_string 7, [])"
    "fst (logout_user memory_env x w) = Inr ()"
proof -
  obtain x i w where l: "login_user memory_env sample_form sample_memory = (Inr (''a0'', session_cookie_text memory_env x 0), w)" "x \<noteq> []"
      "mem_colls w ''sessions'' = [session_doc memory_env i x 7 0]" "mem_clock w = 0"
    using sample_login by blast
  have ok: "database_ok memory_env mem_colls w"
    using memory_db.keepsD [OF memory_db.keeps_login_user sample_memory_ok, of sample_form] l(1) by simp
  have d: "div_time 0 1000000 = 0" by (simp add: div_time_def)
  have p: "session_restart_after memory_env = 1296000000"
    by (simp add: memory_env_def one_month_def)
  have st: "session_started memory_env mem_colls mem_now sample_memory 7 x 0 w"
    using l by (auto simp: session_started_def session_at_def sessions_of_def first_match_Cons session_doc_fields
        memory_db.session_doc_ok sample_memory_def mem_now_def d fun_eq_iff)
  show ?thesis
  proof (rule that [OF l(1) st ok])
    show "fst (continue_session memory_env x w) = Inr (mem_oid_string 7, [])"
      by (simp add: continue_session_def sbind_def mem_find_def found_doc_def l(3,4) first_match_Cons session_doc_def project_def
          fields_to_return_def utc_time_def d field_def p one_month_def)
    show "fst (logout_user memory_env x w) = Inr ()"
      by (simp add: logout_user_def finish_session_def sbind_def found_doc_def l(3,4) first_match_Cons session_doc_def project_def
          fields_to_return_def utc_time_def d field_def p one_month_def)
  qed
qed

section \<open>The properties\<close>

text \<open>
  Somebody is logged in only with the email and the password of a user. Then there is exactly
  one new session, with an identifier that was not in use, it belongs to that user, and it is the
  one the cookie names; in every other case the sessions are what they were.
\<close>
theorem login_sound:
  assumes "mongo_store env coll now" "database_ok env coll w" "login_user env form w = (res, w')"
  shows "case res of
      Inl e \<Rightarrow> session_at env coll w' = session_at env coll w
    | Inr (ref, cookie) \<Rightarrow> \<exists>email d u sid t. map_of form ''email'' = Some email \<and>
        first_match [(''email'', Bstr email)] (coll w (collection_users env)) = Some d \<and>
        map_of form ''password'' = Some (el_str env (map_of d ''password'')) \<and> map_of d ''_id'' = Some (Boid u) \<and>
        ref = el_str env (map_of d ''ref'') \<and> cookie = session_cookie_text env sid t \<and>
        session_started env coll now w u sid t w'"
  using wpD [OF mongo_store.wp_login_user [OF assms(1,2)] assms(3)] .

lemma login_sound_witness:
  "\<exists>cookie w' sid u t. login_user memory_env sample_form sample_memory = (Inr (''a0'', cookie), w') \<and>
     session_started memory_env mem_colls mem_now sample_memory u sid t w'"
proof -
  obtain x w where l: "login_user memory_env sample_form sample_memory = (Inr (''a0'', session_cookie_text memory_env x 0), w)"
    by (rule sample_session)
  from login_sound [OF memory_db.mongo_store_axioms sample_memory_ok l] l show ?thesis by auto
qed

text \<open>
  A session that was started for a user is that user's as long as it lives: whatever anybody does
  afterwards, in whatever order, if \<open>continue_session\<close> accepts it without a restart, it names this
  user.
\<close>
theorem session_stays_with_user:
  assumes "mongo_store env coll now" "database_ok env coll w1" "session_started env coll now w u sid t w1"
    and "continue_session env sid (run_ops env ops w1) = (Inr (x, []), w2)"
  shows "x = oid_string env u \<and> now (run_ops env ops w1) < t + session_lifetime env"
proof -
  let ?w = "run_ops env ops w1"
  have r: "database_ok env coll ?w" "mongo_store.ages env coll now w1 ?w"
    using mongo_store.run_ops_ages [OF assms(1,2)] by simp_all
  moreover have "sessions_of (coll w1 (collection_sessions env)) sid =
      Some (u, t + session_lifetime env, t + session_restart_after env)"
    using assms(3) by (simp add: session_started_def session_at_def)
  ultimately obtain v where v: "session_at env coll ?w sid = Some (u, v, t + session_restart_after env)" "v \<le> t + session_lifetime env"
    unfolding mongo_store.ages_def [OF assms(1)] session_at_def by blast
  show ?thesis
    using wpD [OF mongo_store.wp_continue_outcome [OF assms(1) r(1)] assms(4)] v
    by (auto simp: session_restarted_def session_cookie_text_def intro: less_le_trans)
qed

lemma session_stays_with_user_witness:
  "\<exists>x w w2. session_started memory_env mem_colls mem_now sample_memory 7 x 0 w \<and>
     continue_session memory_env x (run_ops memory_env [] w) = (Inr (mem_oid_string 7, []), w2) \<and>
     mem_now w < one_month"
proof -
  obtain x w where s: "session_started memory_env mem_colls mem_now sample_memory 7 x 0 w" "database_ok memory_env mem_colls w"
      "fst (continue_session memory_env x w) = Inr (mem_oid_string 7, [])"
    by (rule sample_session)
  then have c: "continue_session memory_env x (run_ops memory_env [] w) =
      (Inr (mem_oid_string 7, []), snd (continue_session memory_env x w))"
    by (simp add: run_ops_def prod_eq_iff)
  from session_stays_with_user [OF memory_db.mongo_store_axioms s(2,1) c] c s(1) show ?thesis
    by (auto simp: run_ops_def)
qed

text \<open>
  After a successful logout the session is over for ever: whatever is done afterwards, by whomever
  and in whatever order, \<open>continue_session\<close> answers that there is no such session.
\<close>
theorem logged_out_for_ever:
  assumes "mongo_store env coll now" "database_ok env coll w" "logout_user env sid w = (Inr (), w')"
  shows "fst (continue_session env sid (run_ops env ops w')) = Inl (Logic (Session_not_found sid))"
  by (rule mongo_store.logged_out [OF assms])

lemma logged_out_for_ever_witness:
  "\<exists>x w w'. logout_user memory_env x w = (Inr (), w') \<and>
     fst (continue_session memory_env x (run_ops memory_env [Login sample_form, Continue x] w')) =
       Inl (Logic (Session_not_found x))"
proof -
  obtain x w where s: "database_ok memory_env mem_colls w" "fst (logout_user memory_env x w) = Inr ()"
    by (rule sample_session)
  then have "logout_user memory_env x w = (Inr (), snd (logout_user memory_env x w))" by (simp add: prod_eq_iff)
  from logged_out_for_ever [OF memory_db.mongo_store_axioms s(1) this] this show ?thesis by blast
qed

text \<open>
  C19: What \<open>continue_session\<close> does is decided by the entry of the session and one moment between the question
  and the answer. A session that is not known, or is over at that moment, is not found; one that is valid
  and not due for a restart is accepted with the identifier of its user, without a cookie; in both cases
  the sessions stay as they are. One that is due is restarted: the old session is over and the user has a
  new one, but what is returned with its cookie is the reference of the user, not the identifier that is
  promised. If the restart fails, \<open>restart_fails\<close> says with which errors, and that the old session is over even so
  when the new one could not be stored.
\<close>
theorem continue_session_outcome:
  assumes "mongo_store env coll now" "database_ok env coll w" "continue_session env sid w = (res, w')"
  shows "case session_at env coll w sid of
      None \<Rightarrow> res = Inl (Logic (Session_not_found sid)) \<and> session_at env coll w' = session_at env coll w
    | Some (u, v, r) \<Rightarrow> \<exists>t. now w \<le> t \<and> t \<le> now w' \<and>
        (if v \<le> t then res = Inl (Logic (Session_not_found sid)) \<and> session_at env coll w' = session_at env coll w
         else if t < r then res = Inr (oid_string env u, []) \<and> session_at env coll w' = session_at env coll w
         else restart_outcome env coll now w u v r sid res w')"
  by (rule wpD [OF mongo_store.wp_continue_exact [OF assms(1,2)] assms(3)])

lemma continue_session_outcome_witness:
  "\<exists>x w w' u v r. continue_session memory_env x w = (Inr (mem_oid_string 7, []), w') \<and>
     session_at memory_env mem_colls w x = Some (u, v, r) \<and> mem_now w < v"
proof -
  obtain x w where s: "database_ok memory_env mem_colls w" "fst (continue_session memory_env x w) = Inr (mem_oid_string 7, [])"
    by (rule sample_session)
  then have c: "continue_session memory_env x w = (Inr (mem_oid_string 7, []), snd (continue_session memory_env x w))"
    by (simp add: prod_eq_iff)
  have "session_at memory_env mem_colls w x \<noteq> None"
    using continue_session_outcome [OF memory_db.mongo_store_axioms s(1) c] by (auto split: option.splits)
  then obtain u v r where e: "session_at memory_env mem_colls w x = Some (u, v, r)" by (metis not_None_eq prod_cases3)
  obtain t where "mem_now w \<le> t" "\<not> v \<le> t"
    using continue_session_outcome [OF memory_db.mongo_store_axioms s(1) c] e by (auto split: if_splits)
  then have "mem_now w < v" by (meson le_less_trans not_less)
  then show ?thesis using c e by blast
qed

text \<open>
  C18: If nobody has the email of the form, a successful registration has added exactly one user, with the
  data of the form and a reference that nobody had, and started a session for this user. A form that
  lacks one of the four fields, or leaves one empty, is refused and the database is as it was.
\<close>
theorem register_sound:
  assumes "mongo_store env coll now" "database_ok env coll w" "register_user env form w = (res, w')"
    and "\<And>email. map_of form ''email'' = Some email \<Longrightarrow> first_match [(''email'', Bstr email)] (coll w (collection_users env)) = None"
  shows "(case res of
      Inl e \<Rightarrow> session_at env coll w' = session_at env coll w
    | Inr (ref, cookie) \<Rightarrow> \<exists>u t0 w1 sid t. user_added env coll w form u ref t0 w1 \<and>
        session_started env coll now w1 u sid t w' \<and> cookie = session_cookie_text env sid t) \<and>
    (form_complete form \<or> (\<exists>e. res = Inl e) \<and> coll w' = coll w)"
proof -
  note store = assms(1)
  have "wp (register_user env form) (\<lambda>res w'. (case res of
      Inl e \<Rightarrow> session_at env coll w' = session_at env coll w
    | Inr (ref, cookie) \<Rightarrow> \<exists>u t0 w1 sid t. user_added env coll w form u ref t0 w1 \<and>
        session_started env coll now w1 u sid t w' \<and> cookie = session_cookie_text env sid t) \<and>
    (form_complete form \<or> (\<exists>e. res = Inl e) \<and> coll w' = coll w)) w"
  proof (rule mongo_store.wp_register_user [OF store assms(2)], simp add: session_at_def, goal_cases)
    case (1 u ref t0 w1)
    then obtain email where c: "form_complete form" "map_of form ''email'' = Some email"
      by (auto simp: user_added_def form_complete_def form_keys_def)
    let ?new = "user_doc u ref (form_doc form) t0"
    have new: "map_of ?new ''_id'' = Some (Boid u)" "map_of ?new ''ref'' = Some (Bstr ref)" "map_of ?new ''email'' = Some (Bstr email)"
      using c(2) by (simp_all add: user_doc_def form_doc_def form_keys_def)
    have u1: "coll w1 (collection_users env) = coll w (collection_users env) @ [?new]"
        "coll w1 (collection_sessions env) = coll w (collection_sessions env)"
      using 1 mongo_store.collections_distinct [OF store] by (auto simp: user_added_def)
    have f: "first_match [(''email'', Bstr email)] (coll w1 (collection_users env)) = Some ?new"
      unfolding u1 first_match_append first_match_Cons using assms(4) [OF c(2)] new by simp
    show ?case
      unfolding c(2) option.sel
      by (rule mongo_store.wp_start_session_for_email [OF store 1(3)])
        (use 1 c f new u1 mongo_store.el_str_spec [OF store] in \<open>auto simp: session_at_def\<close>, blast)
  qed
  from wpD [OF this assms(3)] show ?thesis .
qed


lemma register_sound_witness:
  "\<exists>ref cookie w' u t. register_user memory_env (sample_form @ [(''name'', ''B''), (''surname'', ''C'')])
      (sample_memory\<lparr>mem_colls := (\<lambda>c. [])\<rparr>) = (Inr (ref, cookie), w') \<and>
    (\<exists>w1 sid. session_started memory_env mem_colls mem_now w1 u sid t w')"
proof -
  let ?w = "sample_memory\<lparr>mem_colls := (\<lambda>c. [])\<rparr>" and ?form = "sample_form @ [(''name'', ''B''), (''surname'', ''C'')]"
  define w0 where "w0 = ?w\<lparr>mem_counter := Suc 0\<rparr>"
  have c0: "mem_counter sample_memory = 0" by (simp add: sample_memory_def)
  have w0: "mem_colls w0 c = []" for c by (simp add: w0_def)
  obtain ref w1 where g: "generate_user_ref memory_env (mem_oid_string 0) w0 = (Inr ref, w1)" "ref \<noteq> []" "mem_colls w1 = mem_colls w0"
    unfolding generate_user_ref_def by (rule memory_random_hash [OF sha_not_empty(2)])
  have r: "unique_user_ref memory_env (mem_oid_string 0) 3 w0 = (Inr ref, w1)"
    using g w0 by (subst unique_user_ref.simps) (simp add: sbind_def Let_def)
  have c: "\<exists>y w'. unique_session_id memory_env uid 3 w = (Inr y, w') \<and> y \<noteq> [] \<and> mem_colls w' = mem_colls w"
    if "mem_colls w ''sessions'' = []" for uid w
  proof -
    obtain y w' where "generate_session_id memory_env uid w = (Inr y, w')" "y \<noteq> []" "mem_colls w' = mem_colls w"
      unfolding generate_session_id_def by (rule memory_random_hash [OF sha_not_empty(1)])
    then show ?thesis using that
      by (subst unique_session_id.simps) (simp add: sbind_def mem_find_def found_doc_def first_match_def)
  qed
  have "\<exists>p w'. register_user memory_env ?form ?w = (Inr p, w')"
  proof -
    define t where "t = div_time (mem_clock w1) 1000000"
    define w2 where "w2 = w1\<lparr>mem_colls := (mem_colls w1)(''users'' := [user_doc 0 ref (form_doc ?form) t])\<rparr>"
    have f: "form_fields ?form [''email'', ''password'', ''name'', ''surname''] = Inr (form_doc ?form)"
      by (simp add: form_at_def sample_form_def form_doc_def form_keys_def)
    have m: "mem_find ''users'' [(''email'', Bstr ''bob'')] (fields_to_return [''_id'', ''ref'', ''password'']) w2 =
        (Inr [(''_id'', Boid 0), (''ref'', Bstr ref), (''password'', Bstr ''pw'')], w2)"
      by (simp add: mem_find_def w2_def found_doc_def first_match_Cons user_doc_def form_doc_def form_keys_def sample_form_def
          project_def fields_to_return_def)
    obtain y w3 where y: "unique_session_id memory_env (mem_oid_string 0) 3 w2 = (Inr y, w3)" "y \<noteq> []"
      using c [of w2 "mem_oid_string 0"] g(3) w0 by (auto simp: w2_def)
    have e: "form_at ?form ''email'' = Inr ''bob''" "form_at ?form ''password'' = Inr ''pw''"
      by (simp_all add: form_at_def sample_form_def)
    have "\<exists>p w'. start_session_for_email memory_env ''bob'' ''pw'' w2 = (Inr p, w')"
      by (simp add: start_session_for_email_def start_session_for_obj_def start_session_for_obj_without_password_check_def
          sbind_def m y field_def utc_time_def)
    moreover have "register_user memory_env ?form ?w = start_session_for_email memory_env ''bob'' ''pw'' w2"
      by (simp add: register_user_def sbind_def utc_time_def insert_catch_def t_def w2_def c0 w0_def [symmetric] r g(2,3) w0 f e
          del: form_fields.simps)
    ultimately show ?thesis by simp
  qed
  then obtain p w' where p: "register_user memory_env ?form ?w = (Inr (fst p, snd p), w')" by auto
  have ok: "database_ok memory_env mem_colls ?w" by (simp add: database_ok_def)
  from register_sound [OF memory_db.mongo_store_axioms ok p] p show ?thesis
    by (fastforce simp: first_match_def)
qed
end
