(* ===== verification/Logic_Users.thy ===== *)
theory Logic_Users
  imports Logic_Session
begin

text \<open>
  \<open>logic/user\<close>, \<open>logic/users\<close>, \<open>logic/add_friend\<close> and \<open>logic/remove_friend\<close>: what a user with a
  session can ask for. The texts are JSON that the code puts together itself, without escaping.
\<close>

section \<open>\<open>add_info\<close>\<close>

definition add_info :: "char \<Rightarrow> string \<Rightarrow> string \<Rightarrow> string" where
  "add_info separator key value = [separator] @ [DQUOTE] @ key @ [DQUOTE, CHR '':'', DQUOTE] @ value @ [DQUOTE]"

definition add_info_by_key :: "'w logic_env \<Rightarrow> char \<Rightarrow> string \<Rightarrow> doc \<Rightarrow> string" where
  "add_info_by_key env separator key obj = add_info separator key (el_str env (field obj key))"

definition last_visit_info :: "'w logic_env \<Rightarrow> doc \<Rightarrow> exn + string" where
  "last_visit_info env obj = rbind (el_date env (field obj ''last_visit_at'')) (\<lambda>t.
     Inr (add_info CHR '','' ''last_visit_at'' (iso_date env t)))"

text \<open>The birthday, if it is set.\<close>

definition birthday_info :: "'w logic_env \<Rightarrow> doc \<Rightarrow> string" where
  "birthday_info env obj = (let birthday = el_str env (field obj ''birthday'') in
     if birthday \<noteq> [] then add_info CHR '','' ''birthday'' birthday else [])"

definition status_ok_text :: string where
  "status_ok_text = ''{'' @ quoted ''status'' @ '':'' @ quoted ''ok''"

section \<open>\<open>list_users\<close>\<close>

definition list_fields :: doc where
  "list_fields = (''_id'', Bint 0) # fields_to_return [''ref'', ''name'', ''surname'', ''last_visit_at'', ''birthday'']"

definition info_for_user :: "'w logic_env \<Rightarrow> char \<Rightarrow> doc \<Rightarrow> exn + string" where
  "info_for_user env separator obj =
     (let s = [separator] @ add_info_by_key env CHR ''{'' ''ref'' obj @ add_info_by_key env CHR '','' ''name'' obj @
        add_info_by_key env CHR '','' ''surname'' obj
      in rbind (last_visit_info env obj) (\<lambda>v. Inr (s @ v @ birthday_info env obj @ ''}'')))"

text \<open>The \<open>while\<close> loop over the cursor.\<close>

fun info_for_users :: "'w logic_env \<Rightarrow> doc list \<Rightarrow> string \<Rightarrow> exn + string" where
  "info_for_users env [] text = Inr text"
| "info_for_users env (obj # objs) text =
     rbind (info_for_user env CHR '','' obj) (\<lambda>s. info_for_users env objs (text @ s))"

definition users_json :: "'w logic_env \<Rightarrow> doc list \<Rightarrow> exn + string" where
  "users_json env users_found = (case users_found of
     [] \<Rightarrow> Inr (status_ok_text @ ''}'')
   | obj # objs \<Rightarrow> rbind (info_for_user env CHR ''['' obj) (\<lambda>s.
       rbind (info_for_users env objs (status_ok_text @ '','' @ quoted ''users'' @ '':'' @ s)) (\<lambda>text.
         Inr (text @ '']'' @ ''}''))))"

definition list_users :: "'w logic_env \<Rightarrow> string \<Rightarrow> ('w, string \<times> string) lx" where
  "list_users env session_id =
     sbind (continue_session env session_id) (\<lambda>(_, session_cookie).
     sbind (query_docs env (collection_users env) [] 0 list_fields) (\<lambda>user_cursor_ptr.
       (case user_cursor_ptr of
          None \<Rightarrow> sthrow (Logic Incorrect_cursor)
        | Some found \<Rightarrow> sbind (slift (users_json env found)) (\<lambda>text. sreturn (text, session_cookie)))))"

section \<open>\<open>add_friend\<close> and \<open>remove_friend\<close>\<close>

definition change_friends :: "'w logic_env \<Rightarrow> string \<Rightarrow> string \<Rightarrow> string \<Rightarrow> ('w, string) lx" where
  "change_friends env oper friend_ref session_id =
     sbind (continue_session env session_id) (\<lambda>(current_user_id, session_cookie).
     sbind (slift (string_oid env current_user_id)) (\<lambda>current_user_oid.
     sbind (find_and_modify env (collection_users env) [(''ref'', Bstr friend_ref)]
              [(oper, Bdoc [(''friend_of'', Boid current_user_oid)]), (oper, Bdoc [(''incoming_friends'', Boid current_user_oid)])]
              (fields_to_return [''_id''])) (\<lambda>friend_obj.
     if friend_obj = [] then sthrow (Logic (User_not_found (''For ref: '' @ quoted friend_ref)))
     else
       sbind (utc_time env) (\<lambda>time_now.
       sbind (slift (el_oid env (field friend_obj ''_id''))) (\<lambda>friend_oid.
       sbind (find_and_modify env (collection_users env) [(''_id'', Boid current_user_oid)]
                [(oper, Bdoc [(''friends'', Boid friend_oid)]), (''$set'', Bdoc [(''last_visit_at'', Bdate time_now)])] []) (\<lambda>_.
         sreturn session_cookie))))))"

definition add_friend_op :: "'w logic_env \<Rightarrow> string \<Rightarrow> string \<Rightarrow> ('w, string) lx" where
  "add_friend_op env = change_friends env ''$push''"

definition remove_friend_op :: "'w logic_env \<Rightarrow> string \<Rightarrow> string \<Rightarrow> ('w, string) lx" where
  "remove_friend_op env = change_friends env ''$pop''"

section \<open>\<open>user_info\<close>\<close>

definition user_fields :: doc where
  "user_fields = fields_to_return [''_id'', ''ref'', ''name'', ''surname'', ''last_visit_at'', ''birthday'', ''friends'', ''friend_of'']"

definition friend_fields :: doc where
  "friend_fields = (''_id'', Bint 0) # fields_to_return [''ref'', ''name'', ''surname'', ''last_visit_at'']"

definition find_user :: "'w logic_env \<Rightarrow> string \<Rightarrow> string \<Rightarrow> ('w, doc) lx" where
  "find_user env user_ref current_user_id =
     sbind (if user_ref = []
        then sbind (slift (string_oid env current_user_id)) (\<lambda>i. find_one env (collection_users env) [(''_id'', Boid i)] user_fields)
        else find_one env (collection_users env) [(''ref'', Bstr user_ref)] user_fields) (\<lambda>user_obj.
     if user_obj = [] then sthrow (Logic (User_not_found (''For id: '' @ quoted current_user_id)))
     else sreturn user_obj)"

text \<open>Status, reference, names, last visit, birthday.\<close>

definition user_head :: "'w logic_env \<Rightarrow> doc \<Rightarrow> exn + string" where
  "user_head env user_obj = rbind (last_visit_info env user_obj) (\<lambda>v.
     Inr (status_ok_text @ add_info_by_key env CHR '','' ''ref'' user_obj @ add_info_by_key env CHR '','' ''name'' user_obj @
       add_info_by_key env CHR '','' ''surname'' user_obj @ v @ birthday_info env user_obj))"

text \<open>\<open>std::find_if\<close> over the elements; an element of another type throws.\<close>

fun find_oid :: "'w logic_env \<Rightarrow> bval list \<Rightarrow> oid \<Rightarrow> exn + bool" where
  "find_oid env [] i = Inr False"
| "find_oid env (x # xs) i = rbind (el_oid env (Some x)) (\<lambda>j. if j = i then Inr True else find_oid env xs i)"

text \<open>The key is \<open>type:\<close> for anybody but the user.\<close>

definition user_kind :: "'w logic_env \<Rightarrow> string \<Rightarrow> doc \<Rightarrow> exn + string" where
  "user_kind env current_user_id user_obj =
     rbind (string_oid env current_user_id) (\<lambda>current_user_oid.
     rbind (el_oid env (field user_obj ''_id'')) (\<lambda>user_oid.
     if user_oid = current_user_oid then Inr ('','' @ quoted ''type'' @ '':'' @ quoted ''self'')
     else rbind (el_array env (field user_obj ''friend_of'')) (\<lambda>friend_of.
       rbind (find_oid env friend_of current_user_oid) (\<lambda>found.
         Inr ('','' @ quoted ''type:'' @ '':'' @ quoted (if found then ''friend'' else ''not_friend''))))))"

text \<open>
  \<open>draw n\<close> is \<open>std::uniform_int_distribution\<close> over \<open>0\<close> to \<open>n\<close> with the generator of the host: the
  values and their order are those of the standard library. The loop draws until the index is new;
  it may run for ever.
\<close>

partial_function (option) draw_unique :: "('w \<Rightarrow> nat \<times> 'w) \<Rightarrow> nat list \<Rightarrow> 'w \<Rightarrow> (nat \<times> 'w) option" where
  "draw_unique draw seen w = (case draw w of (i, w) \<Rightarrow>
     if i \<in> set seen then draw_unique draw seen w else Some (i, w))"

fun random_indexes :: "('w \<Rightarrow> nat \<times> 'w) \<Rightarrow> nat \<Rightarrow> nat list \<Rightarrow> 'w \<Rightarrow> (nat list \<times> 'w) option" where
  "random_indexes draw 0 indexes w = Some (indexes, w)"
| "random_indexes draw (Suc k) indexes w = (case draw_unique draw indexes w of
     None \<Rightarrow> None
   | Some (i, w) \<Rightarrow> random_indexes draw k (indexes @ [i]) w)"

definition info_for_friend :: "'w logic_env \<Rightarrow> char \<Rightarrow> bval \<Rightarrow> ('w, string) lx" where
  "info_for_friend env separator el =
     sbind (slift (el_oid env (Some el))) (\<lambda>friend_oid.
     sbind (find_one env (collection_users env) [(''_id'', Boid friend_oid)] friend_fields) (\<lambda>friend_obj.
     if friend_obj = [] then sthrow (Logic (User_not_found (''For id: '' @ quoted (oid_string env friend_oid))))
     else sbind (slift (last_visit_info env friend_obj)) (\<lambda>v.
       sreturn ([separator] @ add_info_by_key env CHR ''{'' ''ref'' friend_obj @ add_info_by_key env CHR '','' ''name'' friend_obj @
         add_info_by_key env CHR '','' ''surname'' friend_obj @ v @ ''}''))))"

fun info_for_friends :: "'w logic_env \<Rightarrow> bval list \<Rightarrow> ('w, string) lx" where
  "info_for_friends env [] = sreturn []"
| "info_for_friends env (el # els) = sbind (info_for_friend env CHR '','' el) (\<lambda>s.
     sbind (info_for_friends env els) (\<lambda>t. sreturn (s @ t)))"

definition max_friends :: nat where
  "max_friends = 6"

text \<open>
  The number of friends is cast to \<open>unsigned int\<close>. \<open>None\<close>: the loop does not end, or (for a
  multiple of 2^32 friends) an index is read that was never written.
\<close>

definition friends_info ::
  "'w logic_env \<Rightarrow> (32 word \<Rightarrow> 'w \<Rightarrow> nat \<times> 'w) \<Rightarrow> bval list \<Rightarrow> 'w \<Rightarrow> ((exn + string) \<times> 'w) option" where
  "friends_info env draw friends w =
     (if friends = [] then Some (Inr [], w)
      else
        (let friends_size = of_nat (length friends) :: 32 word;
             sample_size = min (unat friends_size) max_friends in
         (case random_indexes (draw (friends_size - 1)) sample_size [] w of
            None \<Rightarrow> None
          | Some ([], w) \<Rightarrow> None
          | Some (i # indexes, w) \<Rightarrow>
              Some ((sbind (info_for_friend env CHR ''['' (friends ! i)) (\<lambda>s.
                sbind (info_for_friends env (map (\<lambda>i. friends ! i) indexes)) (\<lambda>t.
                  sreturn ('','' @ quoted ''friends'' @ '':'' @ s @ t @ '']'')))) w))))"

definition user_info ::
  "'w logic_env \<Rightarrow> (32 word \<Rightarrow> 'w \<Rightarrow> nat \<times> 'w) \<Rightarrow> string \<Rightarrow> string \<Rightarrow> 'w \<Rightarrow> ((exn + string \<times> string) \<times> 'w) option" where
  "user_info env draw user_ref session_id w =
     (case sbind (continue_session env session_id) (\<lambda>(current_user_id, session_cookie).
           sbind (find_user env user_ref current_user_id) (\<lambda>user_obj.
           sbind (slift (user_head env user_obj)) (\<lambda>head.
           sbind (slift (user_kind env current_user_id user_obj)) (\<lambda>kind.
           sbind (slift (el_array env (field user_obj ''friends''))) (\<lambda>friends.
             sreturn (head @ kind, friends, session_cookie)))))) w of
        (Inl e, w) \<Rightarrow> Some (Inl e, w)
      | (Inr (text, friends, session_cookie), w) \<Rightarrow>
         (case friends_info env draw friends w of
            None \<Rightarrow> None
          | Some (Inl e, w) \<Rightarrow> Some (Inl e, w)
          | Some (Inr s, w) \<Rightarrow> Some (Inr (text @ s @ ''}'', session_cookie), w)))"

section \<open>The sample of friends\<close>

lemma draw_unique_props:
  assumes "draw_unique draw seen w = Some y"
  shows "fst y \<notin> set seen \<and> (\<exists>w0. fst y = fst (draw w0))"
proof (rule draw_unique.raw_induct [where P = "\<lambda>draw seen w y. fst y \<notin> set seen \<and> (\<exists>w0. fst y = fst (draw w0))", OF _ assms])
  fix f draw' seen' w' y'
  assume IH: "\<And>a b (c :: 'a) y. f a b c = Some y \<Longrightarrow> fst y \<notin> set b \<and> (\<exists>w0. fst y = fst (a w0))"
    and eq: "(case draw' w' of (i, w) \<Rightarrow> if i \<in> set seen' then f draw' seen' w else Some (i, w)) = Some y'"
  show "fst y' \<notin> set seen' \<and> (\<exists>w0. fst y' = fst (draw' w0))"
  proof (cases "draw' w'")
    case (Pair i w)
    then show ?thesis using eq IH [of draw' seen' w y'] by (auto split: if_splits) (metis fst_conv)
  qed
qed

text \<open>A generator that, from any state, draws every index at some time.\<close>

definition fair :: "('w \<Rightarrow> nat \<times> 'w) \<Rightarrow> nat \<Rightarrow> bool" where
  "fair draw n \<longleftrightarrow> (\<forall>w. fst (draw w) < n) \<and> (\<forall>w. \<forall>i<n. \<exists>m. fst (draw (((snd \<circ> draw) ^^ m) w)) = i)"

lemma draw_unique_ends:
  "fst (draw (((snd \<circ> draw) ^^ m) w)) \<notin> set seen \<Longrightarrow> \<exists>y. draw_unique draw seen w = Some y"
proof (induction m arbitrary: w)
  case 0
  then show ?case by (subst draw_unique.simps) (simp add: case_prod_beta)
next
  case (Suc m)
  then have "\<exists>y. draw_unique draw seen (snd (draw w)) = Some y"
    by (simp only: funpow_Suc_right o_apply)
  then show ?case by (subst draw_unique.simps) (simp add: case_prod_beta)
qed

lemma random_indexes_fair:
  assumes "fair draw n" "distinct seen" "set seen \<subseteq> {..<n}" "length seen + k \<le> n"
  shows "\<exists>ids w'. random_indexes draw k seen w = Some (seen @ ids, w') \<and> length ids = k \<and>
    distinct (seen @ ids) \<and> set ids \<subseteq> {..<n}"
  using assms(2-4)
proof (induction k arbitrary: seen w)
  case (Suc k)
  have "card (set seen) < card {..<n}" using Suc.prems by (simp add: distinct_card)
  then have "\<not> {..<n} \<subseteq> set seen" using card_mono [of "set seen" "{..<n}"] by auto
  then obtain i where "i < n" "i \<notin> set seen" by auto
  then obtain y where y: "draw_unique draw seen w = Some y"
    using assms(1) draw_unique_ends unfolding fair_def by metis
  have "fst y \<notin> set seen" "fst y < n" using draw_unique_props [OF y] assms(1) by (auto simp: fair_def)
  with Suc.IH [of "seen @ [fst y]" "snd y"] Suc.prems y show ?case by (auto simp: case_prod_beta)
qed simp

section \<open>The texts\<close>

text \<open>The JSON text that \<open>list_users\<close> is to build: an object of members, lists with commas.\<close>

fun comma_list :: "string list \<Rightarrow> string" where
  "comma_list [] = []"
| "comma_list [x] = x"
| "comma_list (x # xs) = x @ '','' @ comma_list xs"

definition json_members :: "(string \<times> string) list \<Rightarrow> string" where
  "json_members ms = ''{'' @ comma_list (map (\<lambda>(k, v). k @ '':'' @ v) ms) @ ''}''"

definition user_members :: "'w logic_env \<Rightarrow> millis \<Rightarrow> doc \<Rightarrow> (string \<times> string) list" where
  "user_members env t d =
     map (\<lambda>k. (quoted k, quoted (el_str env (map_of d k)))) [''ref'', ''name'', ''surname''] @
     [(quoted ''last_visit_at'', quoted (iso_date env t))] @
     (if el_str env (map_of d ''birthday'') = [] then [] else [(quoted ''birthday'', quoted (el_str env (map_of d ''birthday'')))])"

definition listed_users :: "string list \<Rightarrow> string" where
  "listed_users us = json_members ((quoted ''status'', quoted ''ok'') #
     (if us = [] then [] else [(quoted ''users'', ''['' @ comma_list us @ '']'')]))"

lemma comma_list_Cons: "xs \<noteq> [] \<Longrightarrow> comma_list (x # xs) = x @ '','' @ comma_list xs"
  by (cases xs) simp_all

lemma info_for_user_text:
  assumes "el_date env (map_of d ''last_visit_at'') = Inr t"
  shows "info_for_user env separator (project list_fields d) = Inr (separator # json_members (user_members env t d))"
proof -
  have f: "field (project list_fields d) k = map_of d k" if "k \<in> {''ref'', ''name'', ''surname'', ''last_visit_at'', ''birthday''}" for k
    using that field_project [of list_fields k d] by (auto simp: list_fields_def fields_to_return_def field_def)
  show ?thesis
    using assms by (simp add: info_for_user_def last_visit_info_def birthday_info_def f add_info_by_key_def add_info_def
        json_members_def user_members_def quoted_def)
qed

lemma comma_list_concat: "comma_list (x # xs) = x @ concat (map (\<lambda>y. '','' @ y) xs)"
  by (induction xs arbitrary: x) simp_all

lemma json_members_Cons: "json_members ((k, v) # ms) =
    ''{'' @ k @ '':'' @ v @ concat (map (\<lambda>(k, v). '','' @ k @ '':'' @ v) ms) @ ''}''"
  by (simp add: json_members_def comma_list_concat comp_def split_def del: comma_list.simps)

lemma info_for_users_text:
  "(\<forall>d\<in>set ds. el_date env (map_of d ''last_visit_at'') = Inr (visit d)) \<Longrightarrow>
   info_for_users env (map (project list_fields) ds) s0 =
     Inr (s0 @ concat (map (\<lambda>d. '','' @ json_members (user_members env (visit d) d)) ds))"
proof (induction ds arbitrary: s0)
  case (Cons d ds)
  then have "info_for_user env CHR '','' (project list_fields d) = Inr (CHR '','' # json_members (user_members env (visit d) d))"
    by (intro info_for_user_text) simp
  moreover have "\<forall>d\<in>set ds. el_date env (map_of d ''last_visit_at'') = Inr (visit d)" using Cons.prems by simp
  ultimately show ?case using Cons.IH by simp
qed simp

lemma users_json_text:
  assumes "\<And>d. d \<in> set ds \<Longrightarrow> el_date env (map_of d ''last_visit_at'') = Inr (visit d)"
  shows "users_json env (map (project list_fields) ds) =
    Inr (listed_users (map (\<lambda>d. json_members (user_members env (visit d) d)) ds))"
proof (cases ds)
  case (Cons d ds')
  let ?u = "\<lambda>d. json_members (user_members env (visit d) d)"
  have "info_for_user env CHR ''['' (project list_fields d) = Inr (CHR ''['' # ?u d)"
    by (rule info_for_user_text) (simp add: assms Cons)
  moreover have "info_for_users env (map (project list_fields) ds') s0 = Inr (s0 @ concat (map (\<lambda>d. '','' @ ?u d) ds'))" for s0
    by (rule info_for_users_text) (simp add: assms Cons)
  ultimately show ?thesis
    by (simp add: users_json_def Cons listed_users_def json_members_Cons status_ok_text_def comma_list_concat comp_def
        del: comma_list.simps)
qed (simp add: users_json_def listed_users_def json_members_def status_ok_text_def)

text \<open>
  C30: Who has a session gets the list of all users, in the order of the collection: one JSON object with
  the status and, when there are users, the array of one object per user with reference, name, surname,
  last visit, and birthday where it is set. The cookie is that of a restarted session.
\<close>
theorem list_users_lists_all:
  assumes "mongo_store env coll now" "continue_session env sid w = (Inr (x, cookie), w1)"
    and "\<And>d. d \<in> set (coll w1 (collection_users env)) \<Longrightarrow> el_date env (map_of d ''last_visit_at'') = Inr (visit d)"
  shows "\<exists>w'. list_users env sid w =
    (Inr (listed_users (map (\<lambda>d. json_members (user_members env (visit d) d)) (coll w1 (collection_users env))), cookie), w')"
proof -
  obtain w' where "query_docs env (collection_users env) [] 0 list_fields w1 =
      (Inr (Some (map (project list_fields) (filter (doc_matches []) (coll w1 (collection_users env))))), w')"
    using mongo_store.query_spec [OF assms(1), of "collection_users env" "[]" 0 list_fields w1] by auto
  moreover have "filter (doc_matches []) ds = ds" for ds by (simp add: doc_matches_def)
  ultimately show ?thesis
    using users_json_text [OF assms(3)] by (simp add: list_users_def sbind_def assms(2))
qed

section \<open>Friends\<close>

abbreviation ids :: "doc list \<Rightarrow> bval option list" where
  "ids ds \<equiv> map (\<lambda>d. map_of d ''_id'') ds"

lemma ids_update: "''_id'' \<notin> set (update_keys u) \<Longrightarrow> ids (update_first q u ds) = ids ds"
  by (induction ds) (auto simp: map_of_apply_update)

lemma first_match_id: "distinct (ids ds) \<Longrightarrow> d \<in> set ds \<Longrightarrow> map_of d ''_id'' = Some (Boid i) \<Longrightarrow>
    first_match [(''_id'', Boid i)] ds = Some d"
proof (induction ds)
  case (Cons x ds)
  then show ?case
  proof (cases "d = x")
    case False
    then have "d \<in> set ds" using Cons.prems(2) by simp
    then have "map_of d ''_id'' \<in> set (ids ds)" by (simp only: set_map image_eqI)
    then have "map_of x ''_id'' \<noteq> Some (Boid i)" using Cons.prems(1,3) by auto
    then show ?thesis using Cons \<open>d \<in> set ds\<close> by (simp add: first_match_Cons)
  qed (simp add: first_match_Cons)
qed simp

text \<open>With unique identifiers, an update acts on the one document it finds and on no other.\<close>

lemma first_match_update_one:
  assumes "distinct (ids ds)" "first_match q ds = Some d" "map_of d ''_id'' = Some (Boid f)" "''_id'' \<notin> set (update_keys u)"
  shows "first_match [(''_id'', Boid j)] (update_first q u ds) =
    (if j = f then Some (apply_update u d) else first_match [(''_id'', Boid j)] ds)"
  using assms(1,2)
proof (induction ds)
  case (Cons x ds)
  show ?case
  proof (cases "doc_matches q x")
    case True
    then have "x = d" using Cons.prems(2) by (simp add: first_match_Cons)
    then show ?thesis using True assms(3,4) by (simp add: first_match_Cons map_of_apply_update)
  next
    case False
    then have m: "first_match q ds = Some d" using Cons.prems by (simp add: first_match_Cons)
    then have "d \<in> set ds" by (auto dest: first_match_Some)
    then have "map_of d ''_id'' \<in> set (ids ds)" by (simp only: set_map image_eqI)
    then have "map_of x ''_id'' \<noteq> Some (Boid f)" using Cons.prems(1) assms(3) by auto
    moreover have "distinct (ids ds)" using Cons.prems(1) by simp
    ultimately show ?thesis using Cons.IH m False by (cases "j = f") (simp_all add: first_match_Cons)
  qed
qed (simp add: first_match_def)

lemma first_match_kept:
  assumes "first_match q ds = Some d" "fst ` set q \<inter> set (update_keys u) = {}"
  obtains d' where "first_match q (update_first q' u ds) = Some d'"
    "\<And>k. k \<notin> set (update_keys u) \<Longrightarrow> map_of d' k = map_of d k"
proof -
  have "map_of (apply_update u x) (fst p) = map_of x (fst p)" if "p \<in> set q" for p x
    using that assms(2) by (intro map_of_apply_update) auto
  then have m: "doc_matches q (apply_update u x) \<longleftrightarrow> doc_matches q x" for x
    by (auto simp: doc_matches_def list_all_iff case_prod_beta)
  have "\<exists>d'. first_match q (update_first q' u ds) = Some d' \<and> (\<forall>k. k \<notin> set (update_keys u) \<longrightarrow> map_of d' k = map_of d k)"
    using assms(1)
  proof (induction ds)
    case (Cons x ds)
    then show ?case
      by (cases "doc_matches q x"; cases "doc_matches q' x") (simp_all add: first_match_Cons m map_of_apply_update)
  qed (simp add: first_match_def)
  then show ?thesis using that by blast
qed

definition visit_update :: "millis \<Rightarrow> doc" where
  "visit_update t = [(''$set'', Bdoc [(''last_visit_at'', Bdate t)])]"

definition friend_update :: "oid \<Rightarrow> doc" where
  "friend_update u = [(''$push'', Bdoc [(''friend_of'', Boid u)]), (''$push'', Bdoc [(''incoming_friends'', Boid u)])]"

definition own_update :: "oid \<Rightarrow> millis \<Rightarrow> doc" where
  "own_update f t = [(''$push'', Bdoc [(''friends'', Boid f)]), (''$set'', Bdoc [(''last_visit_at'', Bdate t)])]"

lemma update_keys_friends [simp]:
  "update_keys (visit_update t) = [''last_visit_at'']" "update_keys (friend_update u) = [''friend_of'', ''incoming_friends'']"
  "update_keys (own_update f t) = [''friends'', ''last_visit_at'']"
  by (simp_all add: update_keys_def visit_update_def friend_update_def own_update_def)

lemma update_friends:
  "map_of d ''friends'' = Some (Barr ys) \<Longrightarrow> map_of (apply_update (own_update f t) d) ''friends'' = Some (Barr (ys @ [Boid f]))"
  "map_of d ''friend_of'' = Some (Barr xs) \<Longrightarrow> map_of (apply_update (friend_update u) d) ''friend_of'' = Some (Barr (xs @ [Boid u]))"
  "map_of d ''incoming_friends'' = Some (Barr zs) \<Longrightarrow>
     map_of (apply_update (friend_update u) d) ''incoming_friends'' = Some (Barr (zs @ [Boid u]))"
  by (auto simp: apply_update_def own_update_def friend_update_def map_of_set_field split: option.split bval.split)

context mongo_store
begin

lemma keeps_now: "keeps m \<Longrightarrow> db_ok w \<Longrightarrow> wp m (\<lambda>r w'. now w \<le> now w') w"
  using keepsD by (fastforce simp: wp_def ages_def)

lemma keeps_change_friends_rest:
  "oper \<noteq> [] \<Longrightarrow> keeps (case p of (current_user_id, session_cookie) \<Rightarrow>
     sbind (slift (string_oid env current_user_id)) (\<lambda>current_user_oid.
     sbind (find_and_modify env (collection_users env) [(''ref'', Bstr friend_ref)]
              [(oper, Bdoc [(''friend_of'', Boid current_user_oid)]), (oper, Bdoc [(''incoming_friends'', Boid current_user_oid)])]
              (fields_to_return [''_id''])) (\<lambda>friend_obj.
     if friend_obj = [] then sthrow (Logic (User_not_found (''For ref: '' @ quoted friend_ref)))
     else
       sbind (utc_time env) (\<lambda>time_now.
       sbind (slift (el_oid env (field friend_obj ''_id''))) (\<lambda>friend_oid.
       sbind (find_and_modify env (collection_users env) [(''_id'', Boid current_user_oid)]
                [(oper, Bdoc [(''friends'', Boid friend_oid)]), (''$set'', Bdoc [(''last_visit_at'', Bdate time_now)])] []) (\<lambda>_.
         sreturn session_cookie))))))"
  by (cases p) (simp only: prod.case, intro keeps_rules, simp_all add: update_keys_def)

lemma keeps_change_friends: "oper \<noteq> [] \<Longrightarrow> keeps (change_friends env oper friend_ref sid)"
  unfolding change_friends_def by (intro keeps_bind keeps_continue_session) (rule keeps_change_friends_rest)

lemma wp_add_friend:
  assumes ok: "db_ok w" and e: "sessions_of (sessions w) sid = Some (u, v, r)"
    and d: "\<And>t. \<exists>d. first_match [(''ref'', Bstr fref)] (update_first [(''_id'', Boid u)] (visit_update t) (users w)) = Some d \<and>
      map_of d ''_id'' = Some (Boid f)"
  shows "wp (add_friend_op env fref sid) (\<lambda>res w'. now w' < v \<longrightarrow> now w' < r \<longrightarrow> res = Inr [] \<and>
    (\<exists>t t'. users w' = update_first [(''_id'', Boid u)] (own_update f t')
      (update_first [(''ref'', Bstr fref)] (friend_update u)
        (update_first [(''_id'', Boid u)] (visit_update t) (users w))))) w"
    (is "wp _ ?Q w")
proof -
  let ?rest = "\<lambda>(current_user_id, session_cookie).
     sbind (slift (string_oid env current_user_id)) (\<lambda>current_user_oid.
     sbind (find_and_modify env (collection_users env) [(''ref'', Bstr fref)]
              [(''$push'', Bdoc [(''friend_of'', Boid current_user_oid)]), (''$push'', Bdoc [(''incoming_friends'', Boid current_user_oid)])]
              (fields_to_return [''_id''])) (\<lambda>friend_obj.
     if friend_obj = [] then sthrow (Logic (User_not_found (''For ref: '' @ quoted fref)))
     else
       sbind (utc_time env) (\<lambda>time_now.
       sbind (slift (el_oid env (field friend_obj ''_id''))) (\<lambda>friend_oid.
       sbind (find_and_modify env (collection_users env) [(''_id'', Boid current_user_oid)]
                [(''$push'', Bdoc [(''friends'', Boid friend_oid)]), (''$set'', Bdoc [(''last_visit_at'', Bdate time_now)])] []) (\<lambda>_.
         sreturn session_cookie)))))"
  show ?thesis
    unfolding add_friend_op_def change_friends_def
  proof (rule wp_bindI, rule wp_continue_session [OF ok], unfold sum.case, goal_cases)
    case (1 w')
    then show ?case using e by (auto simp: not_less)
  next
    case (2 u' v' r' t w1)
    then have u: "u' = u" using e by simp
    have u1: "users w1 = update_first [(''_id'', Boid u)] (visit_update t) (users w)"
      using 2(7) by (simp add: u visit_update_def)
    obtain d' where d': "first_match [(''ref'', Bstr fref)] (users w1) = Some d'" "map_of d' ''_id'' = Some (Boid f)"
      using d [of t] u1 by auto
    note f = found_session_fields [OF d'(1,2), of "[''_id'']", simplified]
    show ?case
      unfolding prod.case u wp_bind wp_lift string_oid_spec sum.case
    proof (rule wp_find_and_modify, unfold sum.case if_not_P [OF f(1)], goal_cases)
      case (1 w2)
      have "wp (sbind (utc_time env) (\<lambda>time_now.
        sbind (find_and_modify env (collection_users env) [(''_id'', Boid u)] (own_update f time_now) []) (\<lambda>_. sreturn []))) ?Q w2"
      proof (rule wp_bindI, rule wp_utc_time, unfold sum.case, rule wp_bindI, rule wp_find_and_modify, unfold sum.case wp_return, goal_cases)
        case (1 t' w3 w4)
        then show ?case
          using \<open>coll w2 = _\<close> u1 collections_distinct by (auto simp: friend_update_def)
      qed
      then show ?case by (simp add: f(2) d'(2) wp_lift wp_bind own_update_def cong: sum.case_cong)
    qed
  next
    case (3 d0 u' v' r' w1)
    have "keeps (sbind (restart_session env sid d0) ?rest)"
      by (intro keeps_bind keeps_restart_session) (rule keeps_change_friends_rest, simp)
    from keeps_now [OF this 3(7)] have "wp (sbind (restart_session env sid d0) ?rest) ?Q w1"
      by (rule wp_mono) (use 3(1,3) e in \<open>auto simp: not_less [symmetric]\<close>)
    then show ?case by (simp only: wp_bind)
  qed
qed

end

text \<open>
  C20: With a session that is not about to be restarted, befriending a user that exists succeeds and is
  recorded on both sides: the other user becomes the last of the friends of the one who asks, and the
  one who asks becomes the last of those whose friend the other is, and of the new ones.
\<close>
theorem add_friend_both_sides:
  assumes store: "mongo_store env coll now" and ok: "database_ok env coll w"
    and session: "session_at env coll w sid = Some (u, v, r)"
    and run: "add_friend_op env fref sid w = (res, w')" "now w' < v" "now w' < r"
    and unique: "distinct (ids (coll w (collection_users env)))"
    and friend: "first_match [(''ref'', Bstr fref)] (coll w (collection_users env)) = Some d" "map_of d ''_id'' = Some (Boid f)"
      "map_of d ''friend_of'' = Some (Barr xs)" "map_of d ''incoming_friends'' = Some (Barr zs)"
    and own: "first_match [(''_id'', Boid u)] (coll w (collection_users env)) = Some c" "map_of c ''friends'' = Some (Barr ys)"
    and other: "f \<noteq> u"
  shows "res = Inr [] \<and> (\<exists>d' c'.
    first_match [(''_id'', Boid f)] (coll w' (collection_users env)) = Some d' \<and>
    map_of d' ''friend_of'' = Some (Barr (xs @ [Boid u])) \<and> map_of d' ''incoming_friends'' = Some (Barr (zs @ [Boid u])) \<and>
    first_match [(''_id'', Boid u)] (coll w' (collection_users env)) = Some c' \<and>
    map_of c' ''friends'' = Some (Barr (ys @ [Boid f])))"
proof -
  let ?users = "coll w (collection_users env)"
  let ?u1 = "\<lambda>t. update_first [(''_id'', Boid u)] (visit_update t) ?users"
  let ?u2 = "\<lambda>t. update_first [(''ref'', Bstr fref)] (friend_update u) (?u1 t)"
  have cid: "map_of c ''_id'' = Some (Boid u)" using own(1) by (auto dest: first_match_Some)
  have "d \<in> set ?users" using friend(1) by (auto dest: first_match_Some)
  then have fd: "first_match [(''_id'', Boid f)] ?users = Some d" by (rule first_match_id [OF unique _ friend(2)])
  have v: "first_match [(''_id'', Boid j)] (?u1 t) =
      (if j = u then Some (apply_update (visit_update t) c) else first_match [(''_id'', Boid j)] ?users)" for j t
    by (rule first_match_update_one [OF unique own(1) cid]) simp
  have dist1: "distinct (ids (?u1 t))" and dist2: "distinct (ids (?u2 t))" for t using unique by (simp_all add: ids_update)
  have ref: "first_match [(''ref'', Bstr fref)] (?u1 t) = Some d" for t
  proof -
    obtain d1 where d1: "first_match [(''ref'', Bstr fref)] (?u1 t) = Some d1" "\<And>k. k \<notin> set (update_keys (visit_update t)) \<Longrightarrow> map_of d1 k = map_of d k"
      by (rule first_match_kept [OF friend(1), where u = "visit_update t" and q' = "[(''_id'', Boid u)]"]) simp_all
    then have "d1 \<in> set (?u1 t)" "map_of d1 ''_id'' = Some (Boid f)" using friend(2) by (auto dest: first_match_Some)
    then have "first_match [(''_id'', Boid f)] (?u1 t) = Some d1" by (intro first_match_id dist1)
    then show ?thesis using v [of f t] other fd d1(1) by simp
  qed
  have "wp (add_friend_op env fref sid) (\<lambda>res w'. now w' < v \<longrightarrow> now w' < r \<longrightarrow> res = Inr [] \<and>
    (\<exists>t t'. coll w' (collection_users env) = update_first [(''_id'', Boid u)] (own_update f t') (?u2 t))) w"
    by (rule mongo_store.wp_add_friend [OF store ok]) (use session ref friend(2) in \<open>auto simp: session_at_def\<close>)
  from wpD [OF this run(1)] run(2,3) obtain t t' where res: "res = Inr []"
      and u3: "coll w' (collection_users env) = update_first [(''_id'', Boid u)] (own_update f t') (?u2 t)" by blast
  have w2: "first_match [(''_id'', Boid j)] (?u2 t) =
      (if j = f then Some (apply_update (friend_update u) d) else first_match [(''_id'', Boid j)] (?u1 t))" for j
    by (rule first_match_update_one [OF dist1 ref friend(2)]) simp
  let ?c = "apply_update (visit_update t) c"
  have c2: "first_match [(''_id'', Boid u)] (?u2 t) = Some ?c" "map_of ?c ''_id'' = Some (Boid u)" "map_of ?c ''friends'' = Some (Barr ys)"
    using w2 [of u] v [of u t] other cid own(2) by (simp_all add: map_of_apply_update)
  have w3: "first_match [(''_id'', Boid j)] (coll w' (collection_users env)) =
      (if j = u then Some (apply_update (own_update f t') ?c) else first_match [(''_id'', Boid j)] (?u2 t))" for j
    unfolding u3 by (rule first_match_update_one [OF dist2 c2(1,2)]) simp
  show ?thesis
    using res w3 [of u] w3 [of f] w2 [of f] other c2(3) friend(3,4) by (simp add: update_friends)
qed

text \<open>Two users; the first one has a session.\<close>

definition sample_users :: memory where
  "sample_users = \<lparr>mem_colls = (\<lambda>c. if c = ''users''
       then [sample_user, [(''_id'', Boid 8), (''ref'', Bstr ''b1''), (''friend_of'', Barr []), (''incoming_friends'', Barr [])]]
       else if c = ''sessions'' then [session_doc memory_env 1 ''s'' 7 0] else []), mem_clock = 0, mem_counter = 0\<rparr>"

lemma sample_users_ok: "database_ok memory_env mem_colls sample_users"
  "session_at memory_env mem_colls sample_users ''s'' = Some (7, one_month, one_month div 2)"
  by (simp_all add: database_ok_def sample_users_def user_ok_def sample_user_def memory_db.session_doc_ok
      session_at_def sessions_of_def first_match_Cons session_doc_fields, simp_all add: memory_env_def)

lemma sample_friends: "\<exists>w'. add_friend_op memory_env ''b1'' ''s'' sample_users = (Inr [], w') \<and> mem_clock w' = 0"
proof -
  have d: "div_time 0 1000000 = 0" by (simp add: div_time_def)
  have p: "session_restart_after memory_env = 1296000000" by (simp add: memory_env_def one_month_def)
  have s: "string_oid memory_env (mem_oid_string i) = Inr i" for i by (simp add: memory_env_def mem_string_oid_string)
  show ?thesis
    by (simp add: add_friend_op_def change_friends_def continue_session_def sbind_def mem_find_def found_doc_def first_match_Cons
        sample_users_def session_doc_def project_def fields_to_return_def utc_time_def d field_def one_month_def p s
        sample_user_def apply_update_def)
qed

lemma add_friend_both_sides_witness:
  "\<exists>w' d'. add_friend_op memory_env ''b1'' ''s'' sample_users = (Inr [], w') \<and>
     first_match [(''_id'', Boid 8)] (mem_colls w' ''users'') = Some d' \<and> map_of d' ''friend_of'' = Some (Barr [Boid 7])"
proof -
  obtain w' where r: "add_friend_op memory_env ''b1'' ''s'' sample_users = (Inr [], w')" "mem_clock w' = 0"
    using sample_friends by blast
  have n: "mem_now w' < one_month" "mem_now w' < one_month div 2"
    by (simp_all add: mem_now_def r(2) div_time_def one_month_def)
  let ?b = "[(''_id'', Boid 8), (''ref'', Bstr ''b1''), (''friend_of'', Barr []), (''incoming_friends'', Barr [])]"
  have users: "mem_colls sample_users ''users'' = [sample_user, ?b]" by (simp add: sample_users_def)
  show ?thesis
    using add_friend_both_sides [OF memory_db.mongo_store_axioms sample_users_ok r(1) n, of ?b 8 "[]" "[]" sample_user "[]"] r(1)
    by (simp add: users first_match_Cons sample_user_def) blast
qed

definition sample_listing :: memory where
  "sample_listing = sample_users\<lparr>mem_colls := (mem_colls sample_users)(''users'' := [sample_user])\<rparr>"

lemma sample_continued: "\<exists>w1. continue_session memory_env ''s'' sample_listing = (Inr (mem_oid_string 7, []), w1) \<and>
    mem_colls w1 ''users'' = [sample_user]"
proof -
  have d: "div_time 0 1000000 = 0" by (simp add: div_time_def)
  have p: "session_restart_after memory_env = 1296000000" by (simp add: memory_env_def one_month_def)
  have o: "oid_string memory_env = mem_oid_string" by (simp add: memory_env_def)
  show ?thesis
    by (simp add: continue_session_def sbind_def mem_find_def found_doc_def first_match_Cons
        sample_listing_def sample_users_def session_doc_def project_def fields_to_return_def utc_time_def d field_def one_month_def p o
        sample_user_def apply_update_def)
qed

lemma list_users_lists_all_witness:
  "\<exists>w'. list_users memory_env ''s'' sample_listing =
     (Inr (listed_users [json_members (user_members memory_env 0 sample_user)], []), w')"
proof -
  obtain w1 where c: "continue_session memory_env ''s'' sample_listing = (Inr (mem_oid_string 7, []), w1)"
    "mem_colls w1 ''users'' = [sample_user]" using sample_continued by blast
  have "el_date memory_env (map_of d ''last_visit_at'') = Inr 0" if "d \<in> set (mem_colls w1 (collection_users memory_env))" for d
    using that by (simp add: c(2)) (simp add: sample_user_def memory_env_def)
  from list_users_lists_all [OF memory_db.mongo_store_axioms c(1), of "\<lambda>d. 0", OF this] show ?thesis by (simp add: c(2))
qed
section \<open>A restart\<close>

context mongo_store
begin

lemma wp_restart_over:
  assumes ok: "db_ok w" and d0: "field d0 ''user_id'' = Some (Boid u)"
    and e: "sessions_of (sessions w) sid = Some (u, v, r)" and d: "first_match [(''_id'', Boid u)] (users w) = Some d"
  shows "wp (restart_session env sid d0) (\<lambda>res w'. db_ok w' \<and> (\<exists>v'\<le>now w'. sessions_of (sessions w') sid = Some (u, v', r)) \<and>
    (\<forall>x cookie. res = Inr (x, cookie) \<longrightarrow> x = el_str env (map_of d ''ref''))) w"
  unfolding restart_session_def d0 el_oid_spec
proof (rule wp_bindI, unfold wp_lift sum.case, rule wp_bindI, rule wp_find_one, unfold sum.case, goal_cases)
  case (1 w1)
  have s1: "sessions w1 = sessions w" and ok1: "db_ok w1" using 1 ok by (simp_all add: db_ok_def)
  have id: "map_of d ''_id'' = Some (Boid u)" using d by (auto dest: first_match_Some)
  then have f: "found_doc [(''_id'', Boid u)] [] (users w) = d" "d \<noteq> []" using d by (auto simp: found_doc_def project_def)
  show ?case
    unfolding f(1) if_not_P [OF f(2)]
  proof (rule wp_bindI, rule wp_finish_session [OF ok1], unfold sum.case, goal_cases)
    case (1 w2)
    then show ?case using e s1 by simp
  next
    case (2 u' v' r' t w2)
    then show ?case using e s1 by (auto intro: order_trans less_imp_le)
  next
    case (3 u' v' r' t w2)
    have s2: "sessions_of (sessions w2) sid = Some (u, t, r)" using 3 e s1 by simp
    show ?case
    proof (rule wp_start_session [OF 3(6)])
      show "el_oid env (field d ''_id'') = Inr u" by (simp add: field_def id)
      show "db_ok w' \<and> (\<exists>v'\<le>now w'. sessions_of (sessions w') sid = Some (u, v', r)) \<and>
          (\<forall>x cookie. Inl e = Inr (x, cookie) \<longrightarrow> x = el_str env (map_of d ''ref''))"
        if "sessions w' = sessions w2" "db_ok w'" "now w2 \<le> now w'" for e :: exn and w'
        using that s2 3(4) by (auto intro: order_trans)
      show "db_ok w' \<and> (\<exists>v'\<le>now w'. sessions_of (sessions w') sid = Some (u, v', r)) \<and>
          (\<forall>x cookie. Inr (el_str env (field d ''ref''), session_cookie_text env sid' t') = Inr (x, cookie) \<longrightarrow> x = el_str env (map_of d ''ref''))"
        if st: "started w2 u sid' t' w'" "db_ok w'" for sid' t' w'
      proof -
        have "sid' \<noteq> sid" using st s2 by (auto simp: started_def)
        then have "sessions_of (sessions w') sid = Some (u, t, r)" using st s2 by (simp add: started_def)
        moreover have "t \<le> now w'" using st 3(4) by (auto simp: started_def intro: order_trans)
        ultimately show ?thesis using st(2) by (auto simp: field_def)
      qed
    qed
  qed
qed

lemma wp_restart_loses_session:
  assumes ok: "db_ok w" and e: "session_at env coll w sid = Some (u, v, r)" and restart: "r \<le> now w"
    and d: "first_match [(''_id'', Boid u)] (users w) = Some d" and ref: "string_oid env (el_str env (map_of d ''ref'')) = Inl err"
  shows "wp (change_friends env oper fref sid) (\<lambda>res w'. (\<exists>e. res = Inl e) \<and> db_ok w' \<and>
    (\<exists>v'\<le>now w'. session_at env coll w' sid = Some (u, v', r))) w"
  unfolding change_friends_def
proof (rule wp_bindI, rule wp_continue_session [OF ok], unfold sum.case, goal_cases)
  case (1 w')
  then show ?case using e by (auto simp: session_at_def)
next
  case (2 u' v' r' t w')
  then show ?case using e restart by (auto simp: session_at_def dest: le_less_trans)
next
  case (3 d0 u' v' r' w')
  then have u: "u' = u" "v' = v" "r' = r" using e by (simp_all add: session_at_def)
  have "wp (restart_session env sid d0) (\<lambda>res w'. db_ok w' \<and> (\<exists>v'\<le>now w'. sessions_of (sessions w') sid = Some (u, v', r)) \<and>
    (\<forall>x cookie. res = Inr (x, cookie) \<longrightarrow> x = el_str env (map_of d ''ref''))) w'"
    by (rule wp_restart_over) (use 3 u d in simp_all)
  then show ?case
    by (rule wp_mono) (auto simp: wp_bind wp_lift ref session_at_def split: sum.split)
qed

lemma over_for_ever: "db_ok w \<Longrightarrow> session_at env coll w sid = Some (u, v, r) \<Longrightarrow> v \<le> now w \<Longrightarrow>
    fst (continue_session env sid (run_ops env ops w)) = Inl (Logic (Session_not_found sid))"
  by (rule invalid_for_ever) (auto simp: later_def)

end

text \<open>
  C35: When the time for a restart has come, the next request to befriend (or unfriend) somebody does not
  get through: the reference that \<open>restart_session\<close> returns is not an identifier, so \<open>mongo::OID\<close> throws,
  the cookie of the new session is lost with the exception, and the old session is over for ever. The
  user is logged out.
\<close>
theorem restart_loses_session:
  assumes "mongo_store env coll now" "database_ok env coll w" "session_at env coll w sid = Some (u, v, r)" "r \<le> now w"
    and "first_match [(''_id'', Boid u)] (coll w (collection_users env)) = Some d"
    and "string_oid env (el_str env (map_of d ''ref'')) = Inl err"
    and "change_friends env oper fref sid w = (res, w')"
  shows "(\<exists>e. res = Inl e) \<and> fst (continue_session env sid (run_ops env ops w')) = Inl (Logic (Session_not_found sid))"
  using wpD [OF mongo_store.wp_restart_loses_session [OF assms(1-6)] assms(7)] mongo_store.over_for_ever [OF assms(1)] by blast

lemma restart_loses_session_witness:
  "\<exists>e w'. add_friend_op memory_env ''b1'' ''s'' (sample_users\<lparr>mem_clock := 1296000000000000\<rparr>) = (Inl e, w') \<and>
     fst (continue_session memory_env ''s'' (run_ops memory_env [Login sample_form] w')) = Inl (Logic (Session_not_found ''s''))"
proof -
  let ?w = "sample_users\<lparr>mem_clock := 1296000000000000\<rparr>"
  have ok: "database_ok memory_env mem_colls ?w" "session_at memory_env mem_colls ?w ''s'' = Some (7, one_month, one_month div 2)"
    using sample_users_ok by (simp_all add: database_ok_def session_at_def)
  have n: "one_month div 2 \<le> mem_now ?w" by (simp add: mem_now_def div_time_def one_month_def)
  have d: "first_match [(''_id'', Boid 7)] (mem_colls ?w (collection_users memory_env)) = Some sample_user"
    by (simp add: sample_users_def first_match_Cons sample_user_def)
  have r: "string_oid memory_env (el_str memory_env (map_of sample_user ''ref'')) = Inl (Std_exception ''verify s.size() == 24'')"
    by (simp add: sample_user_def) (simp add: memory_env_def mem_string_oid_def)
  obtain res w' where run: "change_friends memory_env ''$push'' ''b1'' ''s'' ?w = (res, w')" by fastforce
  from restart_loses_session [OF memory_db.mongo_store_axioms ok n d r run] run show ?thesis
    by (auto simp: add_friend_op_def)
qed

end
