(* ===== verification/Host_Logic.thy ===== *)
theory Host_Logic
  imports Logic_Users Hierarchy
begin

text \<open>
  \<open>host/modules/logic\<close>: the hosts between HTTP and the users. Each answers in JSON with status 200,
  redirects, or sends the request round again for another host. All keep the contract \<open>responder\<close>.
\<close>

section \<open>What the handlers share\<close>

definition sid_cookie :: "request \<Rightarrow> string option" where
  "sid_cookie rq = map_of (rq_cookies rq) ''sid''"

definition has_json_arg :: "request \<Rightarrow> bool" where
  "has_json_arg rq \<longleftrightarrow> ''json'' \<in> set (rq_args_set rq)"

definition status_json :: "string \<Rightarrow> string" where
  "status_json st = ''{'' @ quoted ''status'' @ '':'' @ quoted st @ ''}''"

definition json_reply :: "string \<Rightarrow> request \<Rightarrow> string \<Rightarrow> response" where
  "json_reply server_name rq st = response_with_json_body server_name rq status_ok (status_json st) False"

text \<open>A body built for the response, and the cookie of a session that was started or restarted.\<close>

definition json_with_cookie :: "string \<Rightarrow> request \<Rightarrow> string \<Rightarrow> string \<Rightarrow> response" where
  "json_with_cookie server_name rq body session_cookie =
     (let r = response_with_json_body server_name rq status_ok body True in
      if session_cookie \<noteq> [] then add_header header_set_cookie session_cookie r else r)"

definition ref_json :: "string \<Rightarrow> string" where
  "ref_json user_ref = ''{'' @ quoted ''status'' @ '':'' @ quoted ''ok'' @ '','' @ quoted ''ref'' @ '':'' @ quoted user_ref @ ''}''"

text \<open>The first value of a key counts; keys without a value are ignored.\<close>

definition form_action :: "uri_item \<Rightarrow> form \<Rightarrow> form" where
  "form_action item f = (case item of KV k v \<Rightarrow> emplace k v f | K k \<Rightarrow> f)"

definition parse_form :: "string \<Rightarrow> bool \<times> form" where
  "parse_form body = (case decode_uri_args body of (ok, items) \<Rightarrow> (ok, fold form_action items []))"

section \<open>\<open>login\<close>\<close>

fun login_error :: "exn \<Rightarrow> string" where
  "login_error (Logic (Password_not_match _ _)) = ''incorrect_logpass''"
| "login_error (Logic (User_not_found _)) = ''incorrect_logpass''"
| "login_error e = ''unknown_error''"

definition login_response :: "'w logic_env \<Rightarrow> 'w respond" where
  "login_response env server_name rq w =
     (if rq_method rq \<noteq> POST then (Inr None, rq, w)
      else if sid_cookie rq \<noteq> None then (Inr (Some (json_reply server_name rq ''already_logged_in'')), rq, w)
      else
        (let data = rq_body rq; (parsed, form) = parse_form data in
         if length data \<noteq> length (rq_body rq) \<or> \<not> parsed
         then (Inr (Some (json_reply server_name rq ''bad_request'')), rq, w)
         else (case login_user env form w of
             (Inr (user_ref, session_cookie), w) \<Rightarrow>
               (Inr (Some (add_header header_set_cookie session_cookie
                  (response_with_json_body server_name rq status_ok (ref_json user_ref) True))), rq, w)
           | (Inl e, w) \<Rightarrow>
               if is_std_exception e then (Inr (Some (json_reply server_name rq (login_error e))), rq, w)
               else (Inl e, rq, w))))"

section \<open>\<open>logout\<close>\<close>

definition logout_error :: "exn \<Rightarrow> string" where
  "logout_error e = (case e of
     Logic l \<Rightarrow> if is_session_error l then ''bad_request'' else ''unknown_error''
   | _ \<Rightarrow> ''unknown_error'')"

definition logout_response :: "'w logic_env \<Rightarrow> 'w respond" where
  "logout_response env server_name rq w =
     (if rq_method rq \<noteq> POST then (Inr None, rq, w)
      else (case sid_cookie rq of
         None \<Rightarrow> (Inr (Some (json_reply server_name rq ''not_logged_in'')), rq, w)
       | Some sid \<Rightarrow> (case logout_user env sid w of
            (Inr _, w) \<Rightarrow> (Inr (Some (reset_cookie ''sid'' (json_reply server_name rq ''ok''))), rq, w)
          | (Inl e, w) \<Rightarrow>
              if is_std_exception e
              then (Inr (Some (reset_cookie ''sid'' (json_reply server_name rq (logout_error e)))), rq, w)
              else (Inl e, rq, w))))"

section \<open>\<open>registration\<close>\<close>

fun registration_error :: "exn \<Rightarrow> string" where
  "registration_error (Logic (Duplicate_user_found _)) = ''duplicate_user_found''"
| "registration_error e = ''unknown_error''"

definition redirect_home :: "string \<Rightarrow> request \<Rightarrow> response" where
  "redirect_home server_name rq = redirect_response server_name rq ''/'' status_see_other"

definition registration_response :: "'w logic_env \<Rightarrow> 'w respond" where
  "registration_response env server_name rq w =
     (if rq_method rq \<noteq> POST \<or> sid_cookie rq \<noteq> None then (Inr (Some (redirect_home server_name rq)), rq, w)
      else
        (let data = rq_body rq; (parsed, form) = parse_form data in
         if length data \<noteq> length (rq_body rq) \<or> \<not> parsed
         then (Inr (Some (json_reply server_name rq ''bad_request'')), rq, w)
         else (case register_user env form w of
             (Inr (user_ref, session_cookie), w) \<Rightarrow>
               (Inr (Some (add_header header_set_cookie session_cookie
                  (response_with_json_body server_name rq status_ok (ref_json user_ref) True))), rq, w)
           | (Inl e, w) \<Rightarrow>
               if is_std_exception e then (Inr (Some (json_reply server_name rq (registration_error e))), rq, w)
               else (Inl e, rq, w))))"

section \<open>\<open>users\<close>\<close>

definition users_response :: "'w logic_env \<Rightarrow> 'w respond" where
  "users_response env server_name rq w =
     (if (rq_method rq \<noteq> GET \<and> rq_method rq \<noteq> HEAD) \<or> \<not> has_json_arg rq then
        (if \<not> has_json_arg rq then (Inr None, rq, w)
         else (Inr (Some (json_reply server_name rq ''bad_request'')), rq, w))
      else (case sid_cookie rq of
         None \<Rightarrow> (Inr (Some (json_reply server_name rq ''not_logged_in'')), rq, w)
       | Some sid \<Rightarrow> (case list_users env sid w of
            (Inr (body, session_cookie), w) \<Rightarrow> (Inr (Some (json_with_cookie server_name rq body session_cookie)), rq, w)
          | (Inl e, w) \<Rightarrow>
              if is_std_exception e then (Inr (Some (json_reply server_name rq ''unknown_error'')), rq, w)
              else (Inl e, rq, w))))"

section \<open>\<open>add_friend\<close>, \<open>remove_friend\<close>\<close>

text \<open>The two handlers differ only in the operation.\<close>

definition friend_response :: "(string \<Rightarrow> string \<Rightarrow> ('w, string) lx) \<Rightarrow> 'w respond" where
  "friend_response oper server_name rq w =
     (if rq_method rq \<noteq> POST then (Inr (Some (json_reply server_name rq ''bad_request'')), rq, w)
      else (case sid_cookie rq of
         None \<Rightarrow> (Inr (Some (json_reply server_name rq ''not_logged_in'')), rq, w)
       | Some sid \<Rightarrow> (case split_first_section (rq_path rq) of
            Inl e \<Rightarrow> (Inr (Some (json_reply server_name rq ''bad_request'')), rq, w)
          | Inr (friend_ref, trailing_path) \<Rightarrow>
              if trailing_path \<noteq> [] \<and> trailing_path \<noteq> ''/''
              then (Inr (Some (json_reply server_name rq ''bad_request'')), rq, w)
              else (case oper friend_ref sid w of
                (Inr session_cookie, w) \<Rightarrow>
                  (Inr (Some (let r = json_reply server_name rq ''ok'' in
                     if session_cookie \<noteq> [] then add_header header_set_cookie session_cookie r else r)), rq, w)
              | (Inl e, w) \<Rightarrow>
                  if is_std_exception e then (Inr (Some (json_reply server_name rq ''unknown_error'')), rq, w)
                  else (Inl e, rq, w)))))"

definition add_friend_response :: "'w logic_env \<Rightarrow> 'w respond" where
  "add_friend_response env = friend_response (add_friend_op env)"

definition remove_friend_response :: "'w logic_env \<Rightarrow> 'w respond" where
  "remove_friend_response env = friend_response (remove_friend_op env)"

section \<open>\<open>user\<close>\<close>

definition user_ref_regex :: regex where
  "user_ref_regex = Sq Bol (Sq (Star (Cls is_xdigit)) Eol)"

text \<open>The reference and the section in the path; the path of the request is shortened on the way.\<close>

definition user_path :: "request \<Rightarrow> (exn + string \<times> string) \<times> request" where
  "user_path rq = (case split_first_section (rq_path rq) of
     Inl e \<Rightarrow> (Inl e, rq)
   | Inr (user_ref, trailing_path) \<Rightarrow>
       if regex_match user_ref_regex user_ref \<noteq> None then
         (let rq = rq\<lparr>rq_path := section_path trailing_path\<rparr> in
          case split_first_section (rq_path rq) of
            Inl e \<Rightarrow> (Inl e, rq)
          | Inr (section, trailing_path) \<Rightarrow> (Inr (user_ref, section), rq\<lparr>rq_path := section_path trailing_path\<rparr>))
       else (Inr (user_ref, []), rq))"

text \<open>\<open>None\<close>: \<open>user_info\<close> does not return.\<close>

definition section_root ::
  "'w logic_env \<Rightarrow> (32 word \<Rightarrow> 'w \<Rightarrow> nat \<times> 'w) \<Rightarrow> string \<Rightarrow> string \<Rightarrow> string \<Rightarrow> request \<Rightarrow> 'w \<Rightarrow>
     ((exn + response option) \<times> request \<times> 'w) option" where
  "section_root env draw user_ref sid server_name rq w = (case user_info env draw user_ref sid w of
     None \<Rightarrow> None
   | Some (Inr (body, session_cookie), w) \<Rightarrow> Some (Inr (Some (json_with_cookie server_name rq body session_cookie)), rq, w)
   | Some (Inl (Logic (Session_not_found _)), w) \<Rightarrow>
       Some (Inr (Some (reset_cookie ''sid'' (redirect_home server_name rq))), rq, w)
   | Some (Inl e, w) \<Rightarrow>
       if is_std_exception e then Some (Inr (Some (json_reply server_name rq ''unknown_error'')), rq, w)
       else Some (Inl e, rq, w))"

definition user_response ::
  "'w logic_env \<Rightarrow> (32 word \<Rightarrow> 'w \<Rightarrow> nat \<times> 'w) \<Rightarrow> string \<Rightarrow> request \<Rightarrow> 'w \<Rightarrow> ((exn + response option) \<times> request \<times> 'w) option" where
  "user_response env draw server_name rq w = (case user_path rq of
     (Inl e, rq) \<Rightarrow>
       Some (Inr (Some (if \<not> has_json_arg rq then redirect_home server_name rq else json_reply server_name rq ''bad_request'')), rq, w)
   | (Inr (user_ref, section), rq) \<Rightarrow>
       if \<not> has_json_arg rq then Some (Inr None, rq, w)
       else if rq_method rq \<noteq> GET \<and> rq_method rq \<noteq> HEAD then Some (Inr (Some (json_reply server_name rq ''bad_request'')), rq, w)
       else (case sid_cookie rq of
          None \<Rightarrow> Some (Inr (Some (json_reply server_name rq ''not_logged_in'')), rq, w)
        | Some sid \<Rightarrow>
            if section \<noteq> [] then Some (Inr (Some (redirect_home server_name rq)), rq, w)
            else section_root env draw user_ref sid server_name rq w))"

section \<open>The modules\<close>

text \<open>The constructors read the name and the ports of the host; there is nothing to clear.\<close>

definition logic_module :: "('j, 'm) json_edit_scheme \<Rightarrow> 'w respond \<Rightarrow> ('j, 'w) host_generator" where
  "logic_module lib respond config = (case mk_host_base (json_lib.truncate lib) config of
     Inl e \<Rightarrow> Some (Inl e)
   | Inr b \<Rightarrow> Some (Inr \<lparr>vh_base = b, vh_response = respond, vh_clear_cache = Some\<rparr>))"

text \<open>A host has to return: \<open>user_respond\<close> is \<open>user_response\<close> where it is defined.\<close>

definition user_respond :: "'w logic_env \<Rightarrow> (32 word \<Rightarrow> 'w \<Rightarrow> nat \<times> 'w) \<Rightarrow> 'w respond" where
  "user_respond env draw server_name rq w = the (user_response env draw server_name rq w)"

definition register_host :: "string \<Rightarrow> ('j, 'w) host_generator \<Rightarrow> ('j, 'w) host_modules \<Rightarrow> ('j, 'w) host_modules" where
  "register_host t gen r = snd (mk_module t gen r)"

definition login_module where
  "login_module lib env = register_host ''logic/login'' (logic_module lib (login_response env))"

definition logout_module where
  "logout_module lib env = register_host ''logic/logout'' (logic_module lib (logout_response env))"

definition registration_module where
  "registration_module lib env = register_host ''logic/registration'' (logic_module lib (registration_response env))"

definition users_module where
  "users_module lib env = register_host ''logic/users'' (logic_module lib (users_response env))"

definition add_friend_module where
  "add_friend_module lib env = register_host ''logic/add_friend'' (logic_module lib (add_friend_response env))"

definition remove_friend_module where
  "remove_friend_module lib env = register_host ''logic/remove_friend'' (logic_module lib (remove_friend_response env))"

definition user_module where
  "user_module lib env draw = register_host ''logic/user'' (logic_module lib (user_respond env draw))"

definition logic_hosts ::
  "('j, 'm) json_edit_scheme \<Rightarrow> 'w logic_env \<Rightarrow> (32 word \<Rightarrow> 'w \<Rightarrow> nat \<times> 'w) \<Rightarrow> ('j, 'w) host_modules \<Rightarrow> ('j, 'w) host_modules" where
  "logic_hosts lib env draw others =
     users_module lib env (user_module lib env draw (remove_friend_module lib env (registration_module lib env
       (logout_module lib env (login_module lib env (add_friend_module lib env others))))))"

section \<open>The contract of the hosts\<close>

lemma framed_json_cookie [intro, simp]:
  "framed rq (add_header header_set_cookie c (response_with_json_body sn rq st body nc))"
  unfolding response_with_json_body_def
  by (rule framedI [OF repr_add_header [OF repr_response_with_body], where n = "length body"]) (simp_all add: body_headers_def)

lemma framed_logic [intro, simp]:
  "framed rq (json_reply sn rq st)" "framed rq (redirect_home sn rq)" "framed rq (json_with_cookie sn rq body c)"
  "framed rq (reset_cookie k (json_reply sn rq st))"
  "framed rq (add_header header_set_cookie c (json_reply sn rq st))"
  by (simp_all add: json_reply_def redirect_home_def json_with_cookie_def reset_cookie_def Let_def)

lemma framed_redirect_reset [intro, simp]: "framed rq (reset_cookie k (redirect_home sn rq))"
  unfolding redirect_home_def
  by (rule framedI [OF repr_reset_cookie [OF repr_redirect], where n = 0]) (simp_all add: to_string.simps)

interpretation login_host: responder "login_response env"
  by unfold_locales (auto simp: login_response_def Let_def split: if_splits prod.splits sum.splits)

interpretation logout_host: responder "logout_response env"
  by unfold_locales (auto simp: logout_response_def split: if_splits prod.splits sum.splits option.splits)

interpretation registration_host: final_responder "registration_response env"
  by unfold_locales (auto simp: registration_response_def Let_def split: if_splits prod.splits sum.splits)

interpretation users_host: responder "users_response env"
  by unfold_locales (auto simp: users_response_def split: if_splits prod.splits sum.splits option.splits)

lemma friend_final: "final_responder (friend_response oper)"
  by unfold_locales (auto simp: friend_response_def Let_def split: if_splits prod.splits sum.splits option.splits)

interpretation add_friend_host: final_responder "add_friend_response env"
  unfolding add_friend_response_def by (rule friend_final)

interpretation remove_friend_host: final_responder "remove_friend_response env"
  unfolding remove_friend_response_def by (rule friend_final)

lemma section_root_framed: "section_root env draw user_ref sid sn rq w = Some (Inr (Some r), rq', w') \<Longrightarrow> framed rq' r"
  by (auto simp: section_root_def split: option.splits prod.splits sum.splits exn.splits logic_error.splits if_splits)

lemma user_response_framed: "user_response env draw sn rq w = Some (Inr (Some r), rq', w') \<Longrightarrow> framed rq' r"
  by (auto simp: user_response_def split: option.splits prod.splits sum.splits if_splits intro: section_root_framed)

text \<open>Where it is defined: with a fair generator, and friends that an \<open>unsigned int\<close> can count.\<close>

definition countable_arrays :: "'w logic_env \<Rightarrow> bool" where
  "countable_arrays env \<longleftrightarrow> (\<forall>v xs. el_array env v = Inr xs \<longrightarrow> length xs < 2 ^ 32)"

lemma friends_info_defined:
  assumes "\<And>n. fair (draw n) (unat n + 1)" "length friends < 2 ^ 32"
  shows "friends_info env draw friends w \<noteq> None"
proof (cases "friends = []")
  case False
  let ?n = "of_nat (length friends) :: 32 word" and ?k = "min (length friends) max_friends"
  have n: "unat ?n = length friends" using assms(2) by (simp add: unsigned_of_nat take_bit_nat_eq_self)
  then have "?n \<noteq> 0" using False by (metis length_0_conv unsigned_0)
  then have "unat (?n - 1) + 1 = length friends" using False n by (simp add: unat_minus_one)
  then have "fair (draw (?n - 1)) (length friends)" using assms(1) [of "?n - 1"] by simp
  from random_indexes_fair [OF this, of "[]" ?k w] obtain ids w' where
    "random_indexes (draw (?n - 1)) ?k [] w = Some (ids, w')" "length ids = ?k" by auto
  moreover have "?k \<noteq> 0" using False by (simp add: max_friends_def)
  ultimately obtain i rest where "random_indexes (draw (?n - 1)) ?k [] w = Some (i # rest, w')"
    by (metis length_0_conv neq_Nil_conv)
  then show ?thesis using False by (simp add: friends_info_def n Let_def)
qed (simp add: friends_info_def)

lemma user_info_defined:
  assumes "\<And>n. fair (draw n) (unat n + 1)" "countable_arrays env"
  shows "user_info env draw user_ref sid w \<noteq> None"
proof -
  let ?first = "sbind (continue_session env sid) (\<lambda>(current_user_id, session_cookie).
     sbind (find_user env user_ref current_user_id) (\<lambda>user_obj.
     sbind (slift (user_head env user_obj)) (\<lambda>head.
     sbind (slift (user_kind env current_user_id user_obj)) (\<lambda>kind.
     sbind (slift (el_array env (field user_obj ''friends''))) (\<lambda>friends.
       sreturn (head @ kind, friends, session_cookie))))))"
  show ?thesis
  proof (cases "?first w")
    case (Pair res w1)
    show ?thesis
    proof (cases res)
      case (Inl e)
      then show ?thesis using Pair by (simp add: user_info_def)
    next
      case (Inr p)
      obtain s friends c where p: "p = (s, friends, c)" by (cases p) auto
      then have "\<exists>v. el_array env v = Inr friends"
        using Pair Inr by (auto simp: sbind_Inr_iff split: prod.splits)
      then have "length friends < 2 ^ 32" using assms(2) by (auto simp: countable_arrays_def)
      then have "friends_info env draw friends w1 \<noteq> None" by (rule friends_info_defined [OF assms(1)])
      then show ?thesis using Pair Inr p by (auto simp: user_info_def split: sum.split)
    qed
  qed
qed

text \<open>
  C31: With a generator that draws every index sooner or later, the host of the users returns for every
  request, and what it answers is framed for the request as it leaves it.
\<close>
theorem user_host_total:
  assumes "\<And>n. fair (draw n) (unat n + 1)" "countable_arrays env"
  shows "\<exists>res rq' w'. user_response env draw sn rq w = Some (res, rq', w') \<and> (\<forall>r. res = Inr (Some r) \<longrightarrow> framed rq' r)"
proof -
  have "section_root env draw user_ref sid sn rq' w \<noteq> None" for user_ref sid rq'
    using user_info_defined [OF assms, of user_ref sid w]
    by (auto simp: section_root_def split: option.splits sum.splits exn.splits logic_error.splits)
  then have "user_response env draw sn rq w \<noteq> None"
    by (auto simp: user_response_def split: prod.splits sum.splits option.splits)
  then show ?thesis using user_response_framed by (cases "user_response env draw sn rq w") fastforce+
qed

definition short_arrays_env :: "memory logic_env" where
  "short_arrays_env = memory_env\<lparr>el_array := (\<lambda>v. case v of
     Some (Barr xs) \<Rightarrow> if length xs < 2 ^ 32 then Inr xs else Inl wrong_type | _ \<Rightarrow> Inl wrong_type)\<rparr>"

lemma short_arrays: "countable_arrays short_arrays_env"
  by (auto simp: countable_arrays_def short_arrays_env_def split: option.splits bval.splits if_splits)

definition counting_draw :: "32 word \<Rightarrow> memory \<Rightarrow> nat \<times> memory" where
  "counting_draw n w = (mem_counter w mod (unat n + 1), w\<lparr>mem_counter := Suc (mem_counter w)\<rparr>)"

lemma counting_draw_fair: "fair (counting_draw n) (unat n + 1)"
proof -
  have step: "mem_counter (((snd \<circ> counting_draw n) ^^ m) w) = m + mem_counter w" for m w
    by (induction m) (simp_all add: counting_draw_def)
  have "\<exists>m. (m + k) mod (unat n + 1) = i" if "i < unat n + 1" for i k
  proof (rule exI [of _ "unat n * k + i"])
    have "unat n * k + i + k = (unat n + 1) * k + i" by (simp add: algebra_simps)
    then show "(unat n * k + i + k) mod (unat n + 1) = i" using that by (simp only: mod_mult_self4 mod_less)
  qed
  then show ?thesis unfolding fair_def by (auto simp: counting_draw_def [of n] step)
qed

lemma user_host_total_witness:
  "\<exists>res rq' w'. user_response short_arrays_env counting_draw [] ((new_request [])\<lparr>rq_path := ''/''\<rparr>) sample_users = Some (res, rq', w')"
proof -
  from user_host_total [of counting_draw, OF counting_draw_fair short_arrays] show ?thesis by blast
qed

text \<open>
  C10: The login host starts a session for nobody but the user whose email and password the body holds,
  and only for a \<open>POST\<close> that carries no session; then the response sets the cookie of this session. In
  every other case the sessions stay as they are and no cookie is set.
\<close>
theorem login_host_sound:
  assumes "mongo_store env coll now" "database_ok env coll w" "login_response env sn rq w = (res, rq', w')"
  shows "rq' = rq \<and>
    (session_at env coll w' = session_at env coll w \<and>
       (res = Inr None \<or> (\<exists>e. res = Inl e) \<or> (\<exists>st. res = Inr (Some (json_reply sn rq st)))) \<or>
     rq_method rq = POST \<and> sid_cookie rq = None \<and>
       (\<exists>email d u sid t. map_of (snd (parse_form (rq_body rq))) ''email'' = Some email \<and>
          first_match [(''email'', Bstr email)] (coll w (collection_users env)) = Some d \<and>
          map_of (snd (parse_form (rq_body rq))) ''password'' = Some (el_str env (map_of d ''password'')) \<and>
          map_of d ''_id'' = Some (Boid u) \<and> session_started env coll now w u sid t w' \<and>
          res = Inr (Some (add_header header_set_cookie (session_cookie_text env sid t)
            (response_with_json_body sn rq status_ok (ref_json (el_str env (map_of d ''ref''))) True)))))"
proof -
  obtain r w1 where l: "login_user env (snd (parse_form (rq_body rq))) w = (r, w1)" by fastforce
  note out = wpD [OF mongo_store.wp_login_user [OF assms(1,2)] l]
  show ?thesis
  proof (cases "rq_method rq = POST \<and> sid_cookie rq = None \<and> fst (parse_form (rq_body rq))")
    case True
    then have resp: "(case r of
        Inr (user_ref, session_cookie) \<Rightarrow> (Inr (Some (add_header header_set_cookie session_cookie
          (response_with_json_body sn rq status_ok (ref_json user_ref) True))), rq, w1)
      | Inl e \<Rightarrow> if is_std_exception e then (Inr (Some (json_reply sn rq (login_error e))), rq, w1) else (Inl e, rq, w1)) =
        (res, rq', w')"
      using assms(3) l by (simp add: login_response_def Let_def case_prod_beta split: sum.splits prod.splits)
    show ?thesis
    proof (cases r)
      case (Inl e)
      then show ?thesis using resp out by (auto split: if_splits)
    next
      case (Inr p)
      obtain ref cookie where p: "p = (ref, cookie)" by (cases p)
      show ?thesis using resp out True unfolding Inr p by simp blast
    qed
  next
    case False
    then show ?thesis using assms(3) by (auto simp: login_response_def Let_def case_prod_beta split: if_splits)
  qed
qed

text \<open>
  A \<open>POST\<close> to the logout host with a session cookie has the cookie reset, whatever the database says;
  if it is answered with \<open>ok\<close>, the session is over for ever; the other answers are \<open>bad_request\<close>, when there
  is no such session, and \<open>unknown_error\<close>.
\<close>
theorem logout_host_ends:
  assumes "mongo_store env coll now" "database_ok env coll w"
    and "rq_method rq = POST" "sid_cookie rq = Some sid" "logout_response env sn rq w = (Inr r, rq', w')"
  shows "\<exists>st. r = Some (reset_cookie ''sid'' (json_reply sn rq st)) \<and>
    (st = ''ok'' \<and> fst (continue_session env sid (run_ops env ops w')) = Inl (Logic (Session_not_found sid)) \<or>
     st = ''bad_request'' \<and> (\<exists>e. logout_user env sid w = (Inl (Logic e), w') \<and> is_session_error e) \<or>
     st = ''unknown_error'' \<and> (\<exists>e. logout_user env sid w = (Inl e, w')))"
proof (cases "logout_user env sid w")
  case (Pair res w1)
  show ?thesis
  proof (cases res)
    case (Inr x)
    then have "fst (continue_session env sid (run_ops env ops w1)) = Inl (Logic (Session_not_found sid))"
      using mongo_store.logged_out [OF assms(1,2)] Pair by simp
    then show ?thesis using assms(3-5) Pair Inr by (auto simp: logout_response_def)
  next
    case (Inl e)
    then show ?thesis using assms(3-5) Pair
      by (cases e) (auto simp: logout_response_def logout_error_def split: if_splits)
  qed
qed

definition sample_login_request :: request where
  "sample_login_request = (new_request [])\<lparr>rq_method := POST, rq_body := ''email=bob&password=pw''\<rparr>"

lemma sample_form_parsed: "parse_form ''email=bob&password=pw'' = (True, sample_form)"
proof -
  have "segments ''email=bob&password=pw'' = [''email=bob'', ''password=pw'']" by (simp add: is_sep_def)
  moreover have "split_item ''email=bob'' = KV ''email'' ''bob''" "split_item ''password=pw'' = KV ''password'' ''pw''"
    by (simp_all add: split_item_def split_last_def)
  moreover have "decode_str ''email'' = ''email''" "decode_str ''bob'' = ''bob''" "decode_str ''password'' = ''password''"
      "decode_str ''pw'' = ''pw''"
    by (simp_all add: decode_str_eq_ref)
  ultimately show ?thesis
    by (simp add: parse_form_def decode_uri_args_segments form_action_def emplace_def sample_form_def)
qed

lemma login_host_sound_witness:
  "\<exists>r w' x. login_response memory_env [] sample_login_request sample_memory = (Inr (Some r), sample_login_request, w') \<and>
     session_started memory_env mem_colls mem_now sample_memory 7 x 0 w'"
proof -
  obtain x w' where l: "login_user memory_env sample_form sample_memory = (Inr (''a0'', session_cookie_text memory_env x 0), w')"
      "session_started memory_env mem_colls mem_now sample_memory 7 x 0 w'"
    by (rule sample_session)
  have q: "rq_method sample_login_request = POST" "sid_cookie sample_login_request = None"
      "parse_form (rq_body sample_login_request) = (True, sample_form)"
    by (simp_all add: sample_login_request_def sid_cookie_def new_request_def sample_form_parsed)
  obtain res where r: "login_response memory_env [] sample_login_request sample_memory = (res, sample_login_request, w')"
    using l(1) q by (simp add: login_response_def)
  have "session_at memory_env mem_colls w' \<noteq> session_at memory_env mem_colls sample_memory"
    using l(2) by (auto simp: session_started_def fun_eq_iff)
  with login_host_sound [OF memory_db.mongo_store_axioms sample_memory_ok r] r l(2) show ?thesis by auto
qed

lemma logout_host_ends_witness:
  "\<exists>x w w' r. logout_response memory_env [] ((new_request [])\<lparr>rq_method := POST, rq_cookies := [(''sid'', x)]\<rparr>) w =
     (Inr (Some r), (new_request [])\<lparr>rq_method := POST, rq_cookies := [(''sid'', x)]\<rparr>, w') \<and>
     fst (continue_session memory_env x (run_ops memory_env [Continue x] w')) = Inl (Logic (Session_not_found x))"
proof -
  obtain x w where s: "database_ok memory_env mem_colls w" "fst (logout_user memory_env x w) = Inr ()"
    by (rule sample_session)
  let ?rq = "(new_request [])\<lparr>rq_method := POST, rq_cookies := [(''sid'', x)]\<rparr>"
  define w' where "w' = snd (logout_user memory_env x w)"
  have q: "rq_method ?rq = POST" "sid_cookie ?rq = Some x" by (simp_all add: sid_cookie_def)
  have l: "logout_user memory_env x w = (Inr (), w')" using s(2) by (simp add: w'_def prod_eq_iff)
  from l have r: "logout_response memory_env [] ?rq w = (Inr (Some (reset_cookie ''sid'' (json_reply [] ?rq ''ok''))), ?rq, w')"
    using q by (simp add: logout_response_def)
  from logout_host_ends [OF memory_db.mongo_store_axioms s(1) q r, of "[Continue x]"] l r show ?thesis by auto
qed

end
