(* ===== verification/Worker.thy ===== *)
theory Worker
  imports Session System_Utils
begin

text \<open>
  \<open>server/worker\<close>, \<open>server/acceptor\<close> and \<open>server/server\<close>: one process per worker, each with an event
  loop over its signals, its acceptors and the sessions of its clients. The sessions of a worker
  share its hosts and their state. What the kernel answers (\<open>fork\<close>, \<open>listen\<close>, the addresses of a
  socket) is a parameter; the event loop is a step relation over the pending operations.
\<close>

section \<open>The worker\<close>

text \<open>\<open>sk_remote\<close> and \<open>sk_remote_again\<close> are two calls of \<open>remote_endpoint()\<close>; the client may leave in between.\<close>

record socket =
  sk_remote :: "exn + string"
  sk_remote_again :: "exn + string"
  sk_local_port :: "exn + port_type"

text \<open>An acceptor of the worker is its port and whether an accept is pending.\<close>

record 'w worker =
  wk_status :: int
  wk_manager :: "'w manager"
  wk_waiting :: bool            \<comment> \<open>a wait for the next signal is pending\<close>
  wk_stopped :: bool            \<comment> \<open>the \<open>io_service\<close> is stopped\<close>
  wk_acceptors :: "(port_type \<times> bool) list"
  wk_sessions :: "'w session list"
  wk_world :: 'w

text \<open>
  What a handler of the event loop leaves: a worker, a process that died (\<open>std::terminate\<close> or a
  null pointer), or a handler that never returns.
\<close>

datatype 'w process_state = Runs "'w worker" | Dies | Hangs

definition worker_server_name :: "string list \<Rightarrow> nat \<Rightarrow> string" where
  "worker_server_name names draw = (if names = [] then [] else names ! (draw mod length names))"

section \<open>Signals\<close>

datatype reaction = Exit | Ignore | Clear_caches

definition SIGHUP :: int where "SIGHUP = 1"
definition SIGINT :: int where "SIGINT = 2"
definition SIGQUIT :: int where "SIGQUIT = 3"
definition SIGUSR1 :: int where "SIGUSR1 = 10"
definition SIGTERM :: int where "SIGTERM = 15"

definition clear_cache_signal :: int where
  "clear_cache_signal = SIGUSR1"

definition signal_handlers :: "(int \<times> string \<times> reaction) list" where
  "signal_handlers = [(SIGHUP, ''SIGHUP'', Ignore), (SIGQUIT, ''SIGQUIT'', Exit), (SIGTERM, ''SIGTERM'', Exit),
     (SIGINT, ''SIGINT'', Exit), (clear_cache_signal, ''worker::clear_cache_signal'', Clear_caches)]"

definition add_signal_handler :: "'w worker \<Rightarrow> 'w worker" where
  "add_signal_handler wk = wk\<lparr>wk_waiting := True\<rparr>"

definition exit_worker :: "'w worker \<Rightarrow> 'w worker" where
  "exit_worker wk = wk\<lparr>wk_stopped := True\<rparr>"

definition worker_clear_cache :: "'w worker \<Rightarrow> 'w process_state" where
  "worker_clear_cache wk = (case manager_clear_cache (wk_manager wk) (wk_world wk) of
     None \<Rightarrow> Dies | Some w \<Rightarrow> Runs (wk\<lparr>wk_world := w\<rparr>))"

fun react :: "reaction \<Rightarrow> 'w worker \<Rightarrow> 'w process_state" where
  "react Exit wk = Runs (exit_worker wk)"
| "react Ignore wk = Runs wk"
| "react Clear_caches wk = worker_clear_cache wk"

definition signal_handler :: "bool \<Rightarrow> int \<Rightarrow> 'w worker \<Rightarrow> 'w process_state" where
  "signal_handler err signal wk =
     (if err then Runs (exit_worker (wk\<lparr>wk_status := 1\<rparr>))
      else (let wk = add_signal_handler wk in
        case map_of signal_handlers signal of
          None \<Rightarrow> Runs (exit_worker wk)
        | Some (signal_str, reaction) \<Rightarrow> react reaction wk))"

section \<open>Accepting clients\<close>

text \<open>\<open>session::run\<close>: the members of the session are initialised from the socket, which may throw.\<close>

definition session_of_socket :: "socket \<Rightarrow> 'w \<Rightarrow> exn + 'w session" where
  "session_of_socket sk w = rbind (sk_remote_again sk) (\<lambda>client_address.
     rbind (sk_local_port sk) (\<lambda>server_port. Inr (run_session client_address server_port w)))"

text \<open>
  \<open>add_client\<close> is \<open>noexcept\<close>; only the start of the session is inside its \<open>try\<close>, so an exception of
  the first \<open>remote_endpoint()\<close> ends the process.
\<close>

definition add_client :: "socket \<Rightarrow> 'w worker \<Rightarrow> 'w process_state" where
  "add_client sk wk = (case sk_remote sk of
     Inl e \<Rightarrow> Dies
   | Inr client_address \<Rightarrow> (case session_of_socket sk (wk_world wk) of
       Inl e \<Rightarrow> Runs wk
     | Inr s \<Rightarrow> Runs (wk\<lparr>wk_sessions := wk_sessions wk @ [s]\<rparr>)))"

definition add_accept_handler :: "nat \<Rightarrow> 'w worker \<Rightarrow> 'w worker" where
  "add_accept_handler k wk = wk\<lparr>wk_acceptors := (wk_acceptors wk)[k := (fst (wk_acceptors wk ! k), True)]\<rparr>"

text \<open>The accept that completed is no longer pending; the handler asks for the next one, unless it failed.\<close>

definition accept_completes :: "nat \<Rightarrow> 'w worker \<Rightarrow> 'w worker" where
  "accept_completes k wk = wk\<lparr>wk_acceptors := (wk_acceptors wk)[k := (fst (wk_acceptors wk ! k), False)]\<rparr>"

definition accept_handler :: "nat \<Rightarrow> bool \<Rightarrow> socket \<Rightarrow> 'w worker \<Rightarrow> 'w process_state" where
  "accept_handler k err sk wk =
     (if err then Runs wk
      else (case add_client sk wk of Runs wk \<Rightarrow> Runs (add_accept_handler k wk) | st \<Rightarrow> st))"

section \<open>Starting and running\<close>

text \<open>
  The constructor: the generated host manager (or the exception of the generator, or a null
  pointer), a wait for signals, and an accept on every port.
\<close>

fun start_accepting :: "nat \<Rightarrow> nat \<Rightarrow> 'w worker \<Rightarrow> 'w worker" where
  "start_accepting 0 k wk = wk"
| "start_accepting (Suc n) k wk = start_accepting n (Suc k) (add_accept_handler k wk)"

definition mk_worker :: "port_type list \<Rightarrow> exn + 'w manager option \<Rightarrow> 'w \<Rightarrow> exn + 'w worker" where
  "mk_worker listening generated w = (case generated of
     Inl e \<Rightarrow> Inl e
   | Inr None \<Rightarrow> Inl (Host Host_manager_not_constructed)
   | Inr (Some mgr) \<Rightarrow>
       (let wk = \<lparr>wk_status = 0, wk_manager = mgr, wk_waiting = False, wk_stopped = False,
              wk_acceptors = map (\<lambda>p. (p, False)) listening, wk_sessions = [], wk_world = w\<rparr>;
            wk = add_signal_handler wk
        in Inr (start_accepting (length listening) 0 wk)))"

text \<open>
  \<open>run\<close>: the status of the process once the event loop has ended, by itself or by an exception. It is
  \<open>noexcept\<close>: what is no \<open>std::exception\<close> terminates the process (\<open>None\<close>).
\<close>

definition run_worker :: "exn + unit \<Rightarrow> 'w worker \<Rightarrow> int option" where
  "run_worker ended wk = (case ended of
     Inr _ \<Rightarrow> Some (wk_status wk)
   | Inl e \<Rightarrow> if is_std_exception e then Some (wk_status (wk\<lparr>wk_status := 1\<rparr>)) else None)"

text \<open>
  The event loop: the completion of a pending operation. The sessions of a worker see the state that
  the others have left.
\<close>

definition session_in :: "'w worker \<Rightarrow> nat \<Rightarrow> 'w session" where
  "session_in wk i = (wk_sessions wk ! i)\<lparr>ss_world := wk_world wk\<rparr>"

definition session_back :: "'w worker \<Rightarrow> nat \<Rightarrow> 'w session \<Rightarrow> 'w worker" where
  "session_back wk i s = wk\<lparr>wk_sessions := (wk_sessions wk)[i := s], wk_world := ss_world s\<rparr>"

inductive worker_step :: "req_env \<Rightarrow> string list \<Rightarrow> 'w worker \<Rightarrow> 'w process_state \<Rightarrow> bool"
  for env names where
  signal: "\<not> wk_stopped wk \<Longrightarrow> wk_waiting wk \<Longrightarrow>
     worker_step env names wk (signal_handler err sig (wk\<lparr>wk_waiting := False\<rparr>))"
| accept: "\<not> wk_stopped wk \<Longrightarrow> k < length (wk_acceptors wk) \<Longrightarrow> snd (wk_acceptors wk ! k) \<Longrightarrow>
     worker_step env names wk (accept_handler k err sk (accept_completes k wk))"
| client: "\<not> wk_stopped wk \<Longrightarrow> i < length (wk_sessions wk) \<Longrightarrow>
     session_step env (wk_manager wk) names (session_in wk i) s' \<Longrightarrow>
     worker_step env names wk (Runs (session_back wk i s'))"
| hang: "\<not> wk_stopped wk \<Longrightarrow> i < length (wk_sessions wk) \<Longrightarrow>
     read_complete (ss_read (session_in wk i)) (ss_stream_buffer (session_in wk i)) arrived \<Longrightarrow>
     request_handler env (wk_manager wk) (worker_server_name names draw) False
       ((session_in wk i)\<lparr>ss_read := No_read, ss_stream_buffer := ss_stream_buffer (session_in wk i) @ arrived\<rparr>) = None \<Longrightarrow>
     worker_step env names wk Hangs"

inductive worker_reachable :: "req_env \<Rightarrow> string list \<Rightarrow> 'w process_state \<Rightarrow> 'w process_state \<Rightarrow> bool"
  for env names st where
  here: "worker_reachable env names st st"
| next_step: "worker_reachable env names st (Runs wk) \<Longrightarrow> worker_step env names wk st' \<Longrightarrow> worker_reachable env names st st'"

inductive_cases worker_stepE: "worker_step env names wk st"

section \<open>The server\<close>

definition default_server_names :: "string list" where
  "default_server_names =
     [''UniTrack/0.0.1'',
      ''Tired of reading headers? Look for the UniTrack project on GitHub!'',
      ''ZX_Spectrum/1997 (Sinclair_BASIC)'',
      ''c64/1986 (**** COMMODORE 64 BASIC V2 **** 64K RAM SYSTEM ****)'',
      ''thttpd/1.02 (Minix 2.0.2 i186)'',
      ''pear/6.2 (iOS 5.0.1)'',
      ''segasrv/1.0 (SEGA MEGA DRIVE HTTP SERVER ROM 1.0)'',
      ''Tea with milk (Full cup, with sugar)'']"

record server =
  sv_ports :: "port_type list"
  sv_workers :: "32 word"
  sv_names :: "string list"
  sv_processes :: "process list"
  sv_signals :: "(process \<times> int) list"  \<comment> \<open>for the statements: the signals sent\<close>

definition new_server :: server where
  "new_server = \<lparr>sv_ports = [], sv_workers = 1, sv_names = default_server_names, sv_processes = [], sv_signals = []\<rparr>"

text \<open>A signal for every worker; that one of them cannot be reached is only logged.\<close>

fun kill_all :: "(process \<Rightarrow> int \<Rightarrow> 32 word) \<Rightarrow> int \<Rightarrow> process list \<Rightarrow> server \<Rightarrow> server" where
  "kill_all kill sig [] s = s"
| "kill_all kill sig (p # ps) s = (case process_kill p (to_string (nat sig)) (kill p sig) of
     Inl e \<Rightarrow> kill_all kill sig ps s
   | Inr _ \<Rightarrow> kill_all kill sig ps (s\<lparr>sv_signals := sv_signals s @ [(p, sig)]\<rparr>))"

definition detach_workers :: "server \<Rightarrow> server" where
  "detach_workers s = s\<lparr>sv_processes := []\<rparr>"

definition stop :: "(process \<Rightarrow> int \<Rightarrow> 32 word) \<Rightarrow> server \<Rightarrow> server" where
  "stop kill s = detach_workers (kill_all kill SIGTERM (sv_processes s) s)"

definition server_clear_cache :: "(process \<Rightarrow> int \<Rightarrow> 32 word) \<Rightarrow> server \<Rightarrow> server" where
  "server_clear_cache kill s = kill_all kill clear_cache_signal (sv_processes s) s"

text \<open>Listening on every port; the first port that fails ends it.\<close>

fun mk_acceptors :: "(port_type \<Rightarrow> exn + unit) \<Rightarrow> port_type list \<Rightarrow> exn + unit" where
  "mk_acceptors listen [] = Inr ()"
| "mk_acceptors listen (p # ps) = rbind (listen p) (\<lambda>_. mk_acceptors listen ps)"

text \<open>
  The loop that creates the workers: \<open>forks i\<close> is what the \<open>i\<close>-th \<open>fork()\<close> returns to this process,
  \<open>worker_main\<close> what \<open>worker{...}.run()\<close> does in a child. \<open>Inr\<close>: this process is a child and has ended.
\<close>

fun create_workers :: "(nat \<Rightarrow> 32 word) \<Rightarrow> string \<Rightarrow> (exn + int) \<Rightarrow> nat \<Rightarrow> nat \<Rightarrow> server \<Rightarrow> ((exn + unit) \<times> server) + child_end" where
  "create_workers forks strerror worker_main i 0 s = Inl (Inr (), s)"
| "create_workers forks strerror worker_main i (Suc n) s = (case mk_process (forks i) strerror worker_main of
     Inr c \<Rightarrow> Inr c
   | Inl (Inl e) \<Rightarrow> Inl (Inl e, s)
   | Inl (Inr p) \<Rightarrow> create_workers forks strerror worker_main (Suc i) n (s\<lparr>sv_processes := sv_processes s @ [p]\<rparr>))"

text \<open>The configuration: all three keys are optional.\<close>

definition configure ::
  "'j json_lib \<Rightarrow> ('j \<Rightarrow> exn + 32 word) \<Rightarrow> ('j \<Rightarrow> exn + string list) \<Rightarrow> 'j \<Rightarrow> exn + server" where
  "configure lib to_uint to_strings config =
     rbind (json_extract (js_at lib) (js_ports lib) config (sv_ports new_server) [Key ''ports'']) (\<lambda>(_, ports).
     rbind (json_extract (js_at lib) to_uint config (sv_workers new_server) [Key ''workers'']) (\<lambda>(_, workers).
     rbind (json_extract (js_at lib) to_strings config (sv_names new_server) [Key ''server_names'']) (\<lambda>(_, names).
       Inr (new_server\<lparr>sv_ports := remdups ports, sv_workers := workers, sv_names := names\<rparr>))))"

definition start_server ::
  "(port_type \<Rightarrow> exn + unit) \<Rightarrow> (nat \<Rightarrow> 32 word) \<Rightarrow> string \<Rightarrow> (process \<Rightarrow> int \<Rightarrow> 32 word) \<Rightarrow> (exn + int) \<Rightarrow> server \<Rightarrow>
     ((exn + unit) \<times> server) + child_end" where
  "start_server listen forks strerror kill worker_main s =
     (let failed = (\<lambda>e s. Inl (Inl e, if is_std_exception e then stop kill s else s)) in
      case mk_acceptors listen (sv_ports s) of
        Inl e \<Rightarrow> failed e s
      | Inr _ \<Rightarrow> (case create_workers forks strerror worker_main 0 (unat (sv_workers s)) s of
          Inr c \<Rightarrow> Inr c
        | Inl (Inl e, s) \<Rightarrow> failed e s
        | Inl (Inr _, s) \<Rightarrow> Inl (Inr (), s)))"

section \<open>Invariants of the sessions hold in a worker\<close>

lemma start_accepting_sel [simp]:
  "wk_manager (start_accepting n k wk) = wk_manager wk" "wk_sessions (start_accepting n k wk) = wk_sessions wk"
  "wk_status (start_accepting n k wk) = wk_status wk" "wk_waiting (start_accepting n k wk) = wk_waiting wk"
  "wk_stopped (start_accepting n k wk) = wk_stopped wk" "wk_world (start_accepting n k wk) = wk_world wk"
  by (induction n k wk rule: start_accepting.induct) (simp_all add: add_accept_handler_def)

lemma react_Runs:
  assumes "react r wk = Runs wk'"
  shows "wk_manager wk' = wk_manager wk \<and> wk_sessions wk' = wk_sessions wk \<and> wk_acceptors wk' = wk_acceptors wk \<and>
    wk_waiting wk' = wk_waiting wk \<and> wk_status wk' = wk_status wk \<and> (wk_stopped wk' \<longleftrightarrow> wk_stopped wk \<or> r = Exit)"
  using assms by (cases r) (auto simp: exit_worker_def worker_clear_cache_def split: option.splits)

lemma signal_handler_Runs:
  assumes "signal_handler err sig wk = Runs wk'"
  shows "wk_manager wk' = wk_manager wk \<and> wk_sessions wk' = wk_sessions wk \<and> wk_acceptors wk' = wk_acceptors wk \<and>
    (wk_stopped wk' \<or> wk_waiting wk' \<and> wk_status wk' = wk_status wk)"
  using assms react_Runs
  by (fastforce simp: signal_handler_def exit_worker_def add_signal_handler_def Let_def split: if_splits option.splits)

lemma accept_handler_Runs:
  assumes "accept_handler k err sk wk = Runs wk'"
  shows "wk_manager wk' = wk_manager wk \<and> wk_waiting wk' = wk_waiting wk \<and> wk_status wk' = wk_status wk \<and>
    wk_stopped wk' = wk_stopped wk \<and>
    (wk_sessions wk' = wk_sessions wk \<or> (\<exists>a p. wk_sessions wk' = wk_sessions wk @ [run_session a p (wk_world wk)])) \<and>
    wk_acceptors wk' = (if err then wk_acceptors wk else (wk_acceptors wk)[k := (fst (wk_acceptors wk ! k), True)])"
  using assms
  by (auto simp: accept_handler_def add_client_def session_of_socket_def add_accept_handler_def rbind_Inr_iff
      split: if_splits sum.splits process_state.splits) blast

text \<open>What a step changes.\<close>

lemma worker_step_Runs:
  assumes "worker_step env names wk (Runs wk')"
  shows "wk_manager wk' = wk_manager wk \<and> (wk_sessions wk' = wk_sessions wk \<or>
    (\<exists>a p. wk_sessions wk' = wk_sessions wk @ [run_session a p (wk_world wk)]) \<or>
    (\<exists>i<length (wk_sessions wk). \<exists>s'. session_step env (wk_manager wk) names (session_in wk i) s' \<and>
       wk_sessions wk' = (wk_sessions wk)[i := s']))"
  using assms
proof (cases rule: worker_step.cases)
  case (signal err sig)
  from signal_handler_Runs [OF signal(1) [symmetric]] show ?thesis by simp
next
  case (accept k err sk)
  from accept_handler_Runs [OF accept(1) [symmetric]] show ?thesis by (auto simp: accept_completes_def)
next
  case (client i s')
  then show ?thesis by (auto simp: session_back_def)
qed

text \<open>
  A property of sessions that does not look at the shared state and that every step of a session keeps
  holds of all sessions of a worker, whatever the other sessions do to the shared state in between.
\<close>

locale session_invariant =
  fixes env :: req_env and mgr :: "'w manager" and names :: "string list" and P :: "'w session \<Rightarrow> bool"
  assumes starts: "P (run_session client_address server_port w)"
    and ignores_world: "P (s\<lparr>ss_world := w\<rparr>) = P s"
    and kept: "session_step env mgr names s s' \<Longrightarrow> P s \<Longrightarrow> P s'"
begin

lemma worker_step_kept:
  assumes "worker_step env names wk (Runs wk')" "wk_manager wk = mgr" "\<forall>s\<in>set (wk_sessions wk). P s"
  shows "\<forall>s\<in>set (wk_sessions wk'). P s"
proof -
  consider "wk_sessions wk' = wk_sessions wk"
    | a p where "wk_sessions wk' = wk_sessions wk @ [run_session a p (wk_world wk)]"
    | i s' where "i < length (wk_sessions wk)" "session_step env mgr names (session_in wk i) s'"
        "wk_sessions wk' = (wk_sessions wk)[i := s']"
    using worker_step_Runs [OF assms(1)] assms(2) by blast
  then show ?thesis
  proof cases
    case (3 i s')
    have "P (wk_sessions wk ! i)" using assms(3) 3(1) by simp
    then have "P (session_in wk i)" by (simp add: session_in_def ignores_world)
    then have "P s'" by (rule kept [OF 3(2)])
    then show ?thesis using assms(3) 3(3) set_update_subset_insert by fastforce
  qed (use assms(3) starts in auto)
qed

lemma worker_sessions:
  assumes "worker_reachable env names (Runs wk0) (Runs wk)" "wk_manager wk0 = mgr" "wk_sessions wk0 = []"
  shows "wk_manager wk = mgr \<and> (\<forall>s\<in>set (wk_sessions wk). P s)"
  using assms(1)
proof (induction "Runs wk" arbitrary: wk)
  case here
  then show ?case using assms(2,3) by simp
next
  case (next_step wk1)
  then show ?case using worker_step_kept worker_step_Runs by metis
qed

end

lemma session_step_produced:
  assumes "session_step env mgr names s s'" "hosts_framed mgr"
  shows "ss_produced s' = ss_produced s \<or> (\<exists>r rq. ss_produced s' = ss_produced s @ [r] \<and> framed rq r)"
  using assms(1)
proof (cases rule: session_step.cases)
  case (read_ok arrived sn)
  then show ?thesis using outcome_produced [OF process_request_outcome assms(2)] by (fastforce simp: request_handler_def)
qed (auto simp: response_handler_def Let_def)

interpretation ordered_sessions: session_invariant env mgr names queue_ok for env mgr names
proof
  show "queue_ok (run_session a p w)" for a p and w :: 'w
    by (simp add: queue_ok_def run_session_def mk_session_def)
  show "queue_ok (s\<lparr>ss_world := w\<rparr>) = queue_ok s" for s :: "'w session" and w
    by (simp add: queue_ok_def)
qed (rule session_step_queue_ok)

definition all_framed :: "'w session \<Rightarrow> bool" where
  "all_framed s \<longleftrightarrow> (\<forall>r\<in>set (ss_produced s). \<exists>rq. framed rq r)"

interpretation framed_sessions: session_invariant env mgr names "\<lambda>s. hosts_framed mgr \<longrightarrow> all_framed s" for env mgr names
proof
  show "hosts_framed mgr \<longrightarrow> all_framed (run_session a p w)" for a p and w :: 'w and mgr :: "'w manager"
    by (simp add: all_framed_def run_session_def mk_session_def)
  show "(hosts_framed mgr \<longrightarrow> all_framed (s\<lparr>ss_world := w\<rparr>)) = (hosts_framed mgr \<longrightarrow> all_framed s)"
    for s :: "'w session" and w and mgr :: "'w manager"
    by (simp add: all_framed_def)
  show "hosts_framed mgr \<longrightarrow> all_framed s'" if "session_step env mgr names s s'" "hosts_framed mgr \<longrightarrow> all_framed s"
    for s s' :: "'w session" and env mgr names
    using session_step_produced [OF that(1)] that(2) by (fastforce simp: all_framed_def)
qed

text \<open>
  C9: However a worker interleaves its clients, its signals and its acceptors, and although the clients
  share the hosts and their state: every client gets the responses to its requests in order, each
  once, as long as its connection works, and if the hosts keep their contract each of them is framed.
\<close>
theorem worker_serves_in_order:
  assumes "mk_worker listening (Inr (Some mgr)) w = Inr wk0" "worker_reachable env names (Runs wk0) (Runs wk)"
    and "s \<in> set (wk_sessions wk)"
  shows "(\<not> ss_broken s \<longrightarrow> ss_sent s @ ss_queue s = ss_produced s) \<and>
    (hosts_framed mgr \<longrightarrow> (\<forall>r\<in>set (ss_produced s). \<exists>rq. framed rq r))"
proof -
  have m: "wk_manager wk0 = mgr" "wk_sessions wk0 = []" using assms(1) by (auto simp: mk_worker_def add_signal_handler_def Let_def)
  have "queue_ok s" using ordered_sessions.worker_sessions [OF assms(2) m] assms(3) by blast
  moreover have "hosts_framed mgr \<longrightarrow> all_framed s" using framed_sessions.worker_sessions [OF assms(2) m] assms(3) by blast
  ultimately show ?thesis by (auto simp: queue_ok_def all_framed_def)
qed

section \<open>Signals always get through\<close>

definition alert :: "'w worker \<Rightarrow> bool" where
  "alert wk \<longleftrightarrow> wk_stopped wk \<or> wk_waiting wk \<and> wk_status wk = 0"

lemma worker_step_alert: "worker_step env names wk (Runs wk') \<Longrightarrow> alert wk \<Longrightarrow> alert wk'"
proof (induction wk "Runs wk'" rule: worker_step.induct)
  case (signal wk err sig)
  from signal_handler_Runs [OF signal(3)] show ?case using signal by (auto simp: alert_def)
next
  case (accept wk k err sk)
  from accept_handler_Runs [OF accept(4)] show ?case using accept by (auto simp: alert_def accept_completes_def)
next
  case (client wk i s')
  then show ?case by (auto simp: alert_def session_back_def)
qed

lemma worker_reachable_inv:
  assumes "worker_reachable env names (Runs wk0) (Runs wk)" "I wk0"
    and "\<And>wk wk'. worker_step env names wk (Runs wk') \<Longrightarrow> I wk \<Longrightarrow> I wk'"
  shows "I wk"
  using assms(1) by (induction "Runs wk" arbitrary: wk) (use assms(2,3) in blast)+

text \<open>
  C23: A running worker always waits for a signal, whatever it is doing for its clients: \<open>SIGTERM\<close>,
  \<open>SIGINT\<close>, \<open>SIGQUIT\<close> and every signal it does not know stop it with status 0, \<open>SIGHUP\<close> changes nothing,
  and only an error of the wait itself gives status 1.
\<close>
theorem worker_always_stoppable:
  assumes "mk_worker listening generated w = Inr wk0" "worker_reachable env names (Runs wk0) (Runs wk)" "\<not> wk_stopped wk"
  shows "wk_waiting wk \<and>
    (\<forall>sig. sig \<notin> {SIGHUP, SIGUSR1} \<longrightarrow> worker_step env names wk (Runs (wk\<lparr>wk_stopped := True\<rparr>)) \<and>
       signal_handler False sig (wk\<lparr>wk_waiting := False\<rparr>) = Runs (wk\<lparr>wk_stopped := True\<rparr>) \<and>
       run_worker (Inr ()) (wk\<lparr>wk_stopped := True\<rparr>) = Some 0) \<and>
    signal_handler False SIGHUP (wk\<lparr>wk_waiting := False\<rparr>) = Runs wk \<and>
    (\<forall>sig. \<exists>wk'. signal_handler True sig (wk\<lparr>wk_waiting := False\<rparr>) = Runs wk' \<and> wk_stopped wk' \<and>
       run_worker (Inr ()) wk' = Some 1)"
proof -
  have "alert wk0" using assms(1)
    by (auto simp: mk_worker_def alert_def add_signal_handler_def Let_def split: sum.splits option.splits)
  then have "alert wk" by (rule worker_reachable_inv [OF assms(2)]) (rule worker_step_alert)
  then have a: "wk_waiting wk" "wk_status wk = 0" using assms(3) by (simp_all add: alert_def)
  have "signal_handler False sig (wk\<lparr>wk_waiting := False\<rparr>) = Runs (wk\<lparr>wk_stopped := True\<rparr>)" if "sig \<notin> {SIGHUP, SIGUSR1}" for sig
    using that a(1)
    by (simp add: signal_handler_def signal_handlers_def clear_cache_signal_def add_signal_handler_def exit_worker_def Let_def)
  moreover from this have "worker_step env names wk (Runs (wk\<lparr>wk_stopped := True\<rparr>))" if "sig \<notin> {SIGHUP, SIGUSR1}" for sig
    using that worker_step.signal [OF assms(3) a(1)] by metis
  moreover have "signal_handler False SIGHUP (wk\<lparr>wk_waiting := False\<rparr>) = Runs wk"
    using a(1) by (simp add: signal_handler_def signal_handlers_def add_signal_handler_def)
  ultimately show ?thesis using a by (simp add: run_worker_def signal_handler_def exit_worker_def)
qed

lemma worker_always_stoppable_witness:
  "\<exists>wk :: unit worker. mk_worker [80] (Inr (Some [])) () = Inr wk \<and> worker_step decimal_env [] wk (Runs (wk\<lparr>wk_stopped := True\<rparr>))"
proof -
  obtain wk :: "unit worker" where w: "mk_worker [80] (Inr (Some [])) () = Inr wk" "\<not> wk_stopped wk"
    by (simp add: mk_worker_def Let_def add_signal_handler_def add_accept_handler_def)
  have "SIGTERM \<notin> {SIGHUP, SIGUSR1}" by (simp add: SIGTERM_def SIGHUP_def SIGUSR1_def)
  then show ?thesis
    using worker_always_stoppable [OF w(1) worker_reachable.here w(2)] w(1) by blast
qed

section \<open>Accepting\<close>

definition accepting :: "'w worker \<Rightarrow> nat \<Rightarrow> bool" where
  "accepting wk k \<longleftrightarrow> k < length (wk_acceptors wk) \<and> snd (wk_acceptors wk ! k)"

lemma worker_step_accepting:
  "worker_step env names wk (Runs wk') \<Longrightarrow> length (wk_acceptors wk') = length (wk_acceptors wk) \<and>
     (accepting wk' k \<longrightarrow> accepting wk k)"
proof (induction wk "Runs wk'" rule: worker_step.induct)
  case (signal wk err sig)
  from signal_handler_Runs [OF signal(3)] show ?case by (simp add: accepting_def)
next
  case (accept wk j err sk)
  from accept_handler_Runs [OF accept(4)] show ?case
    using accept(2,3) by (cases "j = k") (auto simp: accepting_def accept_completes_def)
next
  case (client wk i s')
  then show ?case by (auto simp: accepting_def session_back_def)
qed

text \<open>
  C40: The acceptor gives up: after one error of \<open>accept\<close> (say, no free file descriptor) it does not ask
  for the next client, and the worker never accepts on this port again, however long it runs.
\<close>
theorem accept_error_closes_port:
  assumes "accept_handler k True sk (accept_completes k wk) = Runs wk1"
    and "worker_reachable env names (Runs wk1) (Runs wk2)"
  shows "\<not> accepting wk2 k"
proof (rule worker_reachable_inv [OF assms(2)])
  show "\<not> accepting wk1 k" using accept_handler_Runs [OF assms(1)] by (auto simp: accepting_def accept_completes_def)
next
  fix wk wk' assume "worker_step env names wk (Runs wk')" "\<not> accepting wk k"
  then show "\<not> accepting wk' k" using worker_step_accepting by blast
qed

lemma accept_error_closes_port_witness:
  "\<exists>wk wk1 :: unit worker. mk_worker [80] (Inr (Some [])) () = Inr wk \<and> accepting wk 0 \<and>
     worker_step decimal_env [] wk (Runs wk1) \<and> \<not> accepting wk1 0"
proof -
  let ?sk = "\<lparr>sk_remote = Inr [], sk_remote_again = Inr [], sk_local_port = Inr 80\<rparr>"
  obtain wk :: "unit worker" where w: "mk_worker [80] (Inr (Some [])) () = Inr wk" "\<not> wk_stopped wk" "wk_acceptors wk = [(80, True)]"
    by (simp add: mk_worker_def Let_def add_signal_handler_def add_accept_handler_def)
  have h: "accept_handler 0 True ?sk (accept_completes 0 wk) = Runs (accept_completes 0 wk)"
    by (simp add: accept_handler_def)
  have "worker_step decimal_env [] wk (Runs (accept_completes 0 wk))"
    using worker_step.accept [OF w(2), where k = 0 and env = decimal_env and names = "[]" and err = True and sk = ?sk] h by (simp add: w(3))
  then show ?thesis
    using accept_error_closes_port [OF h worker_reachable.here] w by (auto simp: accepting_def)
qed

section \<open>What ends a worker process\<close>






lemma worker_server_name_in: "worker_server_name names draw \<in> set names \<or> names = [] \<and> worker_server_name names draw = []"
  by (simp add: worker_server_name_def)

section \<open>Starting and stopping the server\<close>

lemma kill_all_signals:
  "kill_all kill sig ps s = s\<lparr>sv_signals := sv_signals s @ map (\<lambda>p. (p, sig)) (filter (\<lambda>p. p \<noteq> 0 \<and> kill p sig = 0) ps)\<rparr>"
  by (induction kill sig ps s rule: kill_all.induct) (auto simp: process_kill_def EINVAL_def EPERM_def ESRCH_def split: sum.split)

lemma create_workers_Inl:
  assumes "create_workers forks strerror worker_main i n s = Inl (r, s')"
  shows "\<exists>m\<le>n. s' = s\<lparr>sv_processes := sv_processes s @ map forks [i..<i + m]\<rparr> \<and> (\<forall>j<m. 0 < sint (forks (i + j))) \<and>
    (r = Inr () \<and> m = n \<or> r = Inl (Std_exception strerror) \<and> m < n \<and> sint (forks (i + m)) < 0)"
  using assms
proof (induction forks strerror worker_main i n s rule: create_workers.induct)
  case (2 forks strerror worker_main i n s)
  show ?case
  proof (cases "mk_process (forks i) strerror worker_main")
    case (Inl q)
    show ?thesis
    proof (cases q)
      case (Inl e)
      then have "sint (forks i) < 0" "e = Std_exception strerror" "r = Inl e" "s' = s"
        using \<open>mk_process _ _ _ = Inl q\<close> "2.prems"
        by (auto simp: mk_process_def not_less le_less signed_eq_0_iff split: if_splits)
      then show ?thesis by (intro exI [of _ 0]) simp
    next
      case (Inr p)
      then have p: "p = forks i" "0 < sint (forks i)"
        using \<open>mk_process _ _ _ = Inl q\<close> by (auto simp: mk_process_def split: if_splits)
      from "2.IH" [OF \<open>mk_process _ _ _ = Inl q\<close> Inr] "2.prems" obtain m where
        m: "m \<le> n" "s' = s\<lparr>sv_processes := (sv_processes s @ [p]) @ map forks [Suc i..<Suc i + m]\<rparr>"
          "\<forall>j<m. 0 < sint (forks (Suc i + j))"
          "r = Inr () \<and> m = n \<or> r = Inl (Std_exception strerror) \<and> m < n \<and> sint (forks (Suc i + m)) < 0"
        using \<open>mk_process _ _ _ = Inl q\<close> Inr by auto
      have "map forks [i..<i + Suc m] = p # map forks [Suc i..<Suc i + m]"
        by (simp add: p(1) upt_conv_Cons del: upt_Suc)
      moreover have "\<forall>j<Suc m. 0 < sint (forks (i + j))" using m(3) p(2) by (auto simp: less_Suc_eq_0_disj)
      ultimately show ?thesis using m by (intro exI [of _ "Suc m"]) auto
    qed
  next
    case (Inr c)
    then show ?thesis using "2.prems" by simp
  qed
qed auto

lemma stop_signals: "stop kill s = s\<lparr>sv_processes := [],
    sv_signals := sv_signals s @ map (\<lambda>p. (p, SIGTERM)) (filter (\<lambda>p. p \<noteq> 0 \<and> kill p SIGTERM = 0) (sv_processes s))\<rparr>"
  by (simp add: stop_def detach_workers_def kill_all_signals)

lemma configure_fresh: "configure lib to_uint to_strings config = Inr s \<Longrightarrow> sv_processes s = [] \<and> sv_signals s = []"
  by (auto simp: configure_def new_server_def rbind_Inr_iff split: prod.splits)

lemma start_server_outcome:
  assumes "configure lib to_uint to_strings config = Inr s"
    and "start_server listen forks strerror kill worker_main s = Inl (r, s')"
  shows "case r of
      Inr _ \<Rightarrow> (\<forall>p\<in>set (sv_ports s). listen p = Inr ()) \<and> sv_processes s' = map forks [0..<unat (sv_workers s)] \<and>
        (\<forall>p\<in>set (sv_processes s'). 0 < sint p) \<and> sv_signals s' = []
    | Inl e \<Rightarrow> sv_processes s' = [] \<and> (\<exists>m.
        (m = 0 \<and> (\<exists>p\<in>set (sv_ports s). listen p = Inl e) \<or> e = Std_exception strerror \<and> sint (forks m) < 0) \<and>
        sv_signals s' = map (\<lambda>p. (p, SIGTERM)) (filter (\<lambda>p. kill p SIGTERM = 0) (map forks [0..<m])))"
proof -
  note fresh = configure_fresh [OF assms(1)]
  have l: "(mk_acceptors listen ps = Inr () \<longrightarrow> (\<forall>p\<in>set ps. listen p = Inr ())) \<and>
      (mk_acceptors listen ps = Inl e \<longrightarrow> (\<exists>p\<in>set ps. listen p = Inl e))" for ps e
    by (induction ps) (auto simp: rbind_def split: sum.splits)
  show ?thesis
  proof (cases "mk_acceptors listen (sv_ports s)")
    case (Inl e)
    then have "r = Inl e" "sv_processes s' = []" "sv_signals s' = []"
      using assms(2) fresh by (auto simp: start_server_def stop_signals split: if_splits)
    then show ?thesis using l Inl by auto
  next
    case (Inr u)
    then obtain r' s1 where c: "create_workers forks strerror worker_main 0 (unat (sv_workers s)) s = Inl (r', s1)"
      "r = r'" "s' = (case r' of Inl e \<Rightarrow> if is_std_exception e then stop kill s1 else s1 | Inr _ \<Rightarrow> s1)"
      using assms(2) by (auto simp: start_server_def Let_def split: sum.splits)
    obtain m where m: "s1 = s\<lparr>sv_processes := map forks [0..<m]\<rparr>" "\<forall>j<m. 0 < sint (forks j)"
      "r' = Inr () \<and> m = unat (sv_workers s) \<or> r' = Inl (Std_exception strerror) \<and> sint (forks m) < 0"
      using create_workers_Inl [OF c(1)] fresh by auto
    show ?thesis
    proof (cases r')
      case (Inl e)
      have "p \<noteq> 0" if "p \<in> set (map forks [0..<m])" for p using that m(2) by auto
      then have "filter (\<lambda>p. p \<noteq> 0 \<and> kill p SIGTERM = 0) (map forks [0..<m]) = filter (\<lambda>p. kill p SIGTERM = 0) (map forks [0..<m])"
        by (intro filter_cong) auto
      then show ?thesis using Inl c(2,3) m(1,3) fresh by (auto simp: stop_signals)
    next
      case (Inr u')
      then show ?thesis using c(2,3) m fresh l \<open>mk_acceptors _ _ = Inr u\<close> by auto
    qed
  qed
qed

lemma server_started:
  "configure lib to_uint to_strings config = Inr s \<Longrightarrow>
   start_server listen forks strerror kill worker_main s = Inl (Inr (), s') \<Longrightarrow>
   sv_processes s' = map forks [0..<unat (sv_workers s)] \<and> (\<forall>p\<in>set (sv_processes s'). 0 < sint p) \<and> sv_signals s' = []"
  using start_server_outcome [of lib to_uint to_strings config s listen forks strerror kill worker_main "Inr ()" s'] by simp

text \<open>
  C17: A server starts as a whole or not at all: in the process that starts it, either every port is
  listened to and there is a child for every worker, or the constructor throws and every worker that was
  started has been sent \<open>SIGTERM\<close> (unless it was gone), whether it is a port or a \<open>fork\<close> that fails.
\<close>
theorem server_starts_or_cleans_up:
  assumes "configure lib to_uint to_strings config = Inr s"
    and "start_server listen forks strerror kill worker_main s = Inl (r, s')"
  shows "case r of
      Inr _ \<Rightarrow> (\<forall>p\<in>set (sv_ports s). listen p = Inr ()) \<and> sv_processes s' = map forks [0..<unat (sv_workers s)] \<and>
        (\<forall>p\<in>set (sv_processes s'). 0 < sint p) \<and> sv_signals s' = []
    | Inl e \<Rightarrow> sv_processes s' = [] \<and> (\<exists>m.
        (m = 0 \<and> (\<exists>p\<in>set (sv_ports s). listen p = Inl e) \<or> e = Std_exception strerror \<and> sint (forks m) < 0) \<and>
        sv_signals s' = map (\<lambda>p. (p, SIGTERM)) (filter (\<lambda>p. kill p SIGTERM = 0) (map forks [0..<m])))"
  using start_server_outcome [OF assms] .

section \<open>Examples\<close>

lemma worker_serves_in_order_witness:
  "\<exists>(wk :: unit worker) s. mk_worker [80] (Inr (Some [])) () = Inr (wk\<lparr>wk_sessions := []\<rparr>) \<and> wk_sessions wk = [s] \<and>
     ss_sent s @ ss_queue s = ss_produced s"
proof -
  let ?sk = "\<lparr>sk_remote = Inr ''10.0.0.1'', sk_remote_again = Inr ''10.0.0.1'', sk_local_port = Inr 80\<rparr>"
  let ?s = "run_session ''10.0.0.1'' 80 () :: unit session"
  obtain wk0 :: "unit worker" where w: "mk_worker [80] (Inr (Some [])) () = Inr wk0" "\<not> wk_stopped wk0"
    "wk_acceptors wk0 = [(80, True)]" "wk_sessions wk0 = []" "wk0\<lparr>wk_sessions := []\<rparr> = wk0"
    by (simp add: mk_worker_def Let_def add_signal_handler_def add_accept_handler_def)
  let ?wk = "wk0\<lparr>wk_sessions := [?s]\<rparr>"
  have "accept_handler 0 False ?sk (accept_completes 0 wk0) = Runs ?wk"
    using w(3,4)
    by (cases wk0) (simp add: accept_handler_def add_client_def session_of_socket_def accept_completes_def add_accept_handler_def)
  then have "worker_step decimal_env [] wk0 (Runs ?wk)"
    using worker_step.accept [OF w(2), where k = 0 and env = decimal_env and names = "[]" and err = False and sk = ?sk]
    by (simp add: w(3))
  then have r: "worker_reachable decimal_env [] (Runs wk0) (Runs ?wk)"
    by (rule worker_reachable.next_step [OF worker_reachable.here])
  have "ss_sent ?s @ ss_queue ?s = ss_produced ?s"
    using worker_serves_in_order [OF w(1) r, of ?s] by (simp add: run_session_def mk_session_def add_request_handler_def)
  with w(1,5) show ?thesis by (intro exI [of _ ?wk] exI [of _ ?s]) simp
qed

text \<open>Three workers; the third \<open>fork\<close> fails, and the second child has already gone.\<close>

definition three_workers_lib :: "unit json_lib" where
  "three_workers_lib = \<lparr>js_at = (\<lambda>j k. if k = Key ''workers'' then Inr j else Inl (Out_of_range ''key not found'')),
     js_string = (\<lambda>j. Inl (Std_logic ''type must be string'')), js_ports = (\<lambda>j. Inl (Std_logic ''type must be array'')),
     js_items = (\<lambda>j. Inr [j]), js_object = (\<lambda>j. Inl (Std_logic ''type must be object''))\<rparr>"

definition three_forks :: "nat \<Rightarrow> 32 word" where
  "three_forks i = (if i = 0 then 41 else if i = 1 then 42 else - 1)"

lemma server_starts_or_cleans_up_witness:
  "\<exists>s s'. configure three_workers_lib (\<lambda>j. Inr 3) (\<lambda>j. Inr []) () = Inr s \<and>
     start_server (\<lambda>p. Inr ()) three_forks ''again'' (\<lambda>p sig. if p = 42 then - 1 else 0) (Inr 0) s =
       Inl (Inl (Std_exception ''again''), s') \<and> sv_processes s' = [] \<and> (\<exists>ps. sv_signals s' = map (\<lambda>p. (p, SIGTERM)) ps)"
proof -
  let ?s = "new_server\<lparr>sv_workers := 3\<rparr>"
  have c: "configure three_workers_lib (\<lambda>j. Inr 3) (\<lambda>j. Inr []) () = Inr ?s"
    by (simp add: configure_def json_extract_def json_get_def three_workers_lib_def new_server_def)
  have w: "create_workers three_forks ''again'' (Inr 0) 0 3 ?s =
      Inl (Inl (Std_exception ''again''), ?s\<lparr>sv_processes := [41, 42]\<rparr>)"
    by (simp add: numeral_3_eq_3 mk_process_def three_forks_def new_server_def)
  obtain s' where s: "start_server (\<lambda>p. Inr ()) three_forks ''again'' (\<lambda>p sig. if p = 42 then - 1 else 0) (Inr 0) ?s =
      Inl (Inl (Std_exception ''again''), s')"
    using w by (simp add: start_server_def new_server_def Let_def)
  from server_starts_or_cleans_up [OF c s] c s show ?thesis by (intro exI [of _ ?s] exI [of _ s']) auto
qed
end
