(* ===== verification/Site.thy ===== *)
theory Site
  imports Host_Logic File_Host Worker
begin

text \<open>
  The site of \<open>config/server.json\<close>: one hierarchy with the files as its default and the hosts of the
  logic as its sections. Requests that a host sends round again reach an answer all the same,
  because every round shortens the path.
\<close>

section \<open>Hosts that shorten the path\<close>

text \<open>
  A host \<open>descends\<close> if a request it sends round again keeps host and port and has a shorter path;
  \<open>below\<close> a section the path need not become shorter.
\<close>

definition descends :: "'w respond \<Rightarrow> bool" where
  "descends respond \<longleftrightarrow> (\<forall>sn rq w rq' w'. respond sn rq w = (Inr None, rq', w') \<longrightarrow>
     rq_host rq' = rq_host rq \<and> rq_port rq' = rq_port rq \<and> length (rq_path rq') < length (rq_path rq))"

definition below :: "'w respond \<Rightarrow> bool" where
  "below respond \<longleftrightarrow> (\<forall>sn rq w rq' w'. respond sn rq w = (Inr None, rq', w') \<longrightarrow>
     rq_host rq' = rq_host rq \<and> rq_port rq' = rq_port rq \<and> length (rq_path rq') \<le> length (rq_path rq))"

lemma final_descends: "final_responder respond \<Longrightarrow> descends respond"
  unfolding descends_def by (metis final_responder.never_again fst_conv)

lemma descends_below: "descends respond \<Longrightarrow> below respond"
  by (fastforce simp: descends_def below_def)

lemma dispatch_ends:
  assumes "\<And>h. h \<in> set mgr \<Longrightarrow> descends (vh_response h)"
  shows "\<exists>res. dispatch mgr port sn rq w = Some res"
proof (induction "length (rq_path rq)" arbitrary: rq w rule: less_induct)
  case less
  show ?case
  proof (cases "rq_port rq = port")
    case True
    show ?thesis
    proof (cases "manager_host mgr (rq_host rq) (rq_port rq)")
      case (Inr h)
      then have h: "descends (vh_response h)" using assms manager_host_in by blast
      obtain res rq' w' where r: "vh_response h sn rq w = (res, rq', w')" by (cases "vh_response h sn rq w") auto
      show ?thesis
      proof (cases "res = Inr None")
        case True
        then have "length (rq_path rq') < length (rq_path rq)" using h r unfolding descends_def by blast
        then show ?thesis using less Inr r True \<open>rq_port rq = port\<close> by (subst dispatch.simps) simp
      next
        case False
        then show ?thesis using Inr r \<open>rq_port rq = port\<close>
          by (subst dispatch.simps) (auto split: sum.split option.split)
      qed
    qed (subst dispatch.simps, simp add: True)
  qed (subst dispatch.simps, simp)
qed

text \<open>
  If every host that sends a request round again has shortened its path, the loop of the session
  ends for every request: it is answered, or a host or the lookup throws.
\<close>
theorem dispatch_returns:
  assumes "\<And>h. h \<in> set mgr \<Longrightarrow> descends (vh_response h)"
  shows "\<exists>res. dispatch mgr port sn rq w = Some res"
  using assms by (rule dispatch_ends)

lemma split_first_section_length:
  assumes "split_first_section path = Inr (s, t)"
  shows "length path = Suc (length s + length t)"
proof -
  have "section_split path = Some (s, t)"
    using assms by (simp add: split_first_section_ref split: option.splits)
  then obtain c r where "path = c # r" "s = takeWhile in_section r" "t = dropWhile in_section r"
    by (auto simp: section_split_def split: list.splits if_splits)
  then show ?thesis by (metis length_Cons length_append takeWhile_dropWhile_id)
qed

lemma section_path_length: "length (section_path t) \<le> Suc (length t)"
  by (simp add: section_path_def)

lemma hierarchy_descends:
  assumes "\<And>s h. (s, h) \<in> set (hi_hosts hi) \<Longrightarrow> s \<noteq> [] \<and> below (vh_response h)"
    and "\<And>h. hi_default hi = Some h \<Longrightarrow> descends (vh_response h)"
  shows "descends (hierarchy_response hi)"
  unfolding descends_def
proof (intro allI impI)
  fix sn rq w rq' w'
  assume r: "hierarchy_response hi sn rq w = (Inr None, rq', w')"
  then obtain s t where s: "split_first_section (rq_path rq) = Inr (s, t)"
    by (auto simp: hierarchy_response_def split: sum.splits)
  show "rq_host rq' = rq_host rq \<and> rq_port rq' = rq_port rq \<and> length (rq_path rq') < length (rq_path rq)"
  proof (cases "map_of (hi_hosts hi) s")
    case None
    then obtain h where "hi_default hi = Some h" "vh_response h sn rq w = (Inr None, rq', w')"
      using r s by (auto simp: hierarchy_response_def split: option.splits)
    then show ?thesis using assms(2) unfolding descends_def by blast
  next
    case (Some h)
    then have h: "s \<noteq> []" "below (vh_response h)" using assms(1) [OF map_of_SomeD [OF Some]] by simp_all
    have "vh_response h sn (rq\<lparr>rq_path := section_path t\<rparr>) w = (Inr None, rq', w')"
      using r s Some by (simp add: hierarchy_response_def)
    then have "rq_host rq' = rq_host rq \<and> rq_port rq' = rq_port rq \<and> length (rq_path rq') \<le> length (section_path t)"
      using h(2) unfolding below_def by fastforce
    moreover have "length (section_path t) < length (rq_path rq)"
      using split_first_section_length [OF s] section_path_length [of t] h(1) by (cases s) simp_all
    ultimately show ?thesis by simp
  qed
qed

section \<open>The hosts of the logic\<close>

lemma below_logic: "below (login_response env)" "below (logout_response env)" "below (users_response env)"
  "below (registration_response env)" "below (add_friend_response env)" "below (remove_friend_response env)"
proof -
  show "below (login_response env)" unfolding below_def login_response_def Let_def
    by (auto split: if_splits prod.splits sum.splits)
  show "below (logout_response env)" unfolding below_def logout_response_def
    by (auto split: if_splits prod.splits sum.splits option.splits)
  show "below (users_response env)" unfolding below_def users_response_def
    by (auto split: if_splits prod.splits sum.splits option.splits)
  show "below (registration_response env)"
    by (rule descends_below, rule final_descends, rule registration_host.final_responder_axioms)
  show "below (add_friend_response env)"
    by (rule descends_below, rule final_descends, rule add_friend_host.final_responder_axioms)
  show "below (remove_friend_response env)"
    by (rule descends_below, rule final_descends, rule remove_friend_host.final_responder_axioms)
qed

lemma user_path_length:
  "rq_host (snd (user_path rq)) = rq_host rq \<and> rq_port (snd (user_path rq)) = rq_port rq \<and>
   length (rq_path (snd (user_path rq))) \<le> length (rq_path rq)"
proof -
  have l: "length (section_path t) \<le> length p" if "split_first_section p = Inr (s, t)" for p s t
    using split_first_section_length [OF that] section_path_length [of t] by simp
  show ?thesis
    by (auto simp: user_path_def Let_def split: sum.split dest: l intro: order_trans)
qed

lemma section_root_answers: "section_root env draw user_ref sid sn rq w \<noteq> Some (Inr None, rq', w')"
  by (auto simp: section_root_def split: option.splits prod.splits sum.splits exn.splits logic_error.splits if_splits)

lemma below_user:
  assumes "\<And>n. fair (draw n) (unat n + 1)" "countable_arrays env"
  shows "below (user_respond env draw)" "responder (user_respond env draw)"
proof -
  have d: "user_response env draw sn rq w = Some (user_respond env draw sn rq w)" for sn rq w
  proof -
    have "section_root env draw user_ref sid sn rq' w \<noteq> None" for user_ref sid rq'
      using user_info_defined [OF assms, of user_ref sid w]
      by (auto simp: section_root_def split: option.splits sum.splits exn.splits logic_error.splits)
    then have "user_response env draw sn rq w \<noteq> None"
      by (auto simp: user_response_def split: prod.splits sum.splits option.splits)
    then show ?thesis by (auto simp: user_respond_def)
  qed
  show "responder (user_respond env draw)"
    by unfold_locales (metis d user_response_framed)
  show "below (user_respond env draw)"
    unfolding below_def
  proof (intro allI impI)
    fix sn rq w rq' w'
    assume "user_respond env draw sn rq w = (Inr None, rq', w')"
    then have "user_response env draw sn rq w = Some (Inr None, rq', w')" by (simp add: d)
    then have "rq' = snd (user_path rq)"
      by (auto simp: user_response_def section_root_answers split: prod.splits sum.splits option.splits if_splits)
    then show "rq_host rq' = rq_host rq \<and> rq_port rq' = rq_port rq \<and> length (rq_path rq') \<le> length (rq_path rq)"
      using user_path_length by simp
  qed
qed


section \<open>The modules of the program\<close>

text \<open>
  Every host keeps a state of its own: the files their cache, the logic the database. In a site each
  works on its part of the state. There is one file host, so one cache.
\<close>

definition lift_respond :: "('v \<Rightarrow> 'w) \<Rightarrow> ('w \<Rightarrow> 'v \<Rightarrow> 'v) \<Rightarrow> 'w respond \<Rightarrow> 'v respond" where
  "lift_respond get put respond server_name rq v =
     (case respond server_name rq (get v) of (res, rq, w) \<Rightarrow> (res, rq, put w v))"

definition lift_vhost :: "('v \<Rightarrow> 'w) \<Rightarrow> ('w \<Rightarrow> 'v \<Rightarrow> 'v) \<Rightarrow> 'w vhost \<Rightarrow> 'v vhost" where
  "lift_vhost get put h = \<lparr>vh_base = vh_base h, vh_response = lift_respond get put (vh_response h),
     vh_clear_cache = (\<lambda>v. map_option (\<lambda>w. put w v) (vh_clear_cache h (get v)))\<rparr>"

definition lift_generator :: "('v \<Rightarrow> 'w) \<Rightarrow> ('w \<Rightarrow> 'v \<Rightarrow> 'v) \<Rightarrow> ('j, 'w) host_generator \<Rightarrow> ('j, 'v) host_generator" where
  "lift_generator get put gen config = map_option (map_sum id (lift_vhost get put)) (gen config)"

definition files_only_module ::
  "('j, 'm) json_edit_scheme \<Rightarrow> (string \<Rightarrow> exn + regex) \<Rightarrow> shell \<Rightarrow> file_system \<Rightarrow> ('j, file_and_mime file_cache) host_generator" where
  "files_only_module lib compile popen fs config = (case mk_file_host fs (json_lib.truncate lib) compile config of
     Inl e \<Rightarrow> Some (Inl e)
   | Inr h \<Rightarrow> Some (Inr (file_vhost fs h (files_only popen fs) files_only_clear)))"

type_synonym 'w site_state = "file_and_mime file_cache \<times> 'w"

definition site_modules ::
  "('j, 'm) json_edit_scheme \<Rightarrow> (string \<Rightarrow> exn + regex) \<Rightarrow> shell \<Rightarrow> file_system \<Rightarrow> 'w logic_env \<Rightarrow>
     (32 word \<Rightarrow> 'w \<Rightarrow> nat \<times> 'w) \<Rightarrow> ('j, 'w site_state) host_modules" where
  "site_modules lib compile popen fs env draw =
     register_host ''files_only'' (lift_generator fst (apfst \<circ> (\<lambda>c _. c)) (files_only_module lib compile popen fs))
       (map (\<lambda>(t, g). (t, lift_generator snd (apsnd \<circ> (\<lambda>w _. w)) g)) (logic_hosts lib env draw []))"

lemma lift_descends: "descends respond \<Longrightarrow> descends (lift_respond get put respond)"
  unfolding descends_def lift_respond_def by (auto split: prod.splits)

lemma lift_below: "below respond \<Longrightarrow> below (lift_respond get put respond)"
  unfolding below_def lift_respond_def by (auto split: prod.splits)

lemma lift_responder: "responder respond \<Longrightarrow> responder (lift_respond get put respond)"
  unfolding responder_def lift_respond_def by (clarsimp split: prod.splits) metis

section \<open>The configuration\<close>

text \<open>The host of \<open>config/server.json\<close>; the members of an object are sorted by name.\<close>

definition site_config :: json where
  "site_config = Jobj [
     (''content'', Jobj [
       (''add_friend'', Jobj [(''type'', Jstr ''logic/add_friend'')]),
       (''login'', Jobj [(''type'', Jstr ''logic/login'')]),
       (''logout'', Jobj [(''type'', Jstr ''logic/logout'')]),
       (''registration'', Jobj [(''type'', Jstr ''logic/registration'')]),
       (''remove_friend'', Jobj [(''type'', Jstr ''logic/remove_friend'')]),
       (''user'', Jobj [(''type'', Jstr ''logic/user'')]),
       (''users'', Jobj [(''type'', Jstr ''logic/users'')])]),
     (''default'', Jobj [
       (''allow_match_mode'', Jstr ''any''), (''allow_regexes'', Jarr [Jstr ''/.*'']),
       (''change_behavior_regex'', Jstr (''.*'' @ CHR 0x5C # ''.html'')), (''default_behavior'', Jstr ''files''),
       (''default_index_file'', Jstr ''index.html''), (''root'', Jstr ''/var/unitrack/www''), (''type'', Jstr ''files_only'')]),
     (''name'', Jstr ''localhost''),
     (''ports'', Jarr [Jnum 8080]),
     (''type'', Jstr ''hierarchy'')]"

definition site_base :: host_base where
  "site_base = \<lparr>name = ''localhost'', ports = [8080]\<rparr>"

text \<open>What it describes.\<close>

definition logic_host :: "'w respond \<Rightarrow> 'w site_state vhost" where
  "logic_host respond = lift_vhost snd (apsnd \<circ> (\<lambda>w _. w))
     \<lparr>vh_base = site_base, vh_response = respond, vh_clear_cache = Some\<rparr>"

definition site_files :: "string \<Rightarrow> regex \<Rightarrow> file_host" where
  "site_files root allow = (new_file_host site_base)
     \<lparr>fh_root := root, fh_mode := Any, fh_allow_regexes := [allow], fh_default_index_file := ''index.html''\<rparr>"

definition site ::
  "shell \<Rightarrow> file_system \<Rightarrow> 'w logic_env \<Rightarrow> (32 word \<Rightarrow> 'w \<Rightarrow> nat \<times> 'w) \<Rightarrow> string \<Rightarrow> regex \<Rightarrow> 'w site_state hierarchy" where
  "site popen fs env draw root allow = \<lparr>hi_base = site_base,
     hi_hosts = [
       (''add_friend'', logic_host (add_friend_response env)),
       (''login'', logic_host (login_response env)),
       (''logout'', logic_host (logout_response env)),
       (''registration'', logic_host (registration_response env)),
       (''remove_friend'', logic_host (remove_friend_response env)),
       (''user'', logic_host (user_respond env draw)),
       (''users'', logic_host (users_response env))],
     hi_default = Some (lift_vhost fst (apfst \<circ> (\<lambda>c _. c))
       (file_vhost fs (site_files root allow) (files_only popen fs) files_only_clear))\<rparr>"


lemma site_config_sel:
  "jm_at site_config (Key ''type'') = Inr (Jstr ''hierarchy'')"
  "jm_at site_config (Key ''name'') = Inr (Jstr ''localhost'')"
  "jm_at site_config (Key ''ports'') = Inr (Jarr [Jnum 8080])"
  by (simp_all add: site_config_def)


lemma logic_hosts_list: "logic_hosts lib env draw [] = [
    (''logic/add_friend'', logic_module lib (add_friend_response env)),
    (''logic/login'', logic_module lib (login_response env)),
    (''logic/logout'', logic_module lib (logout_response env)),
    (''logic/registration'', logic_module lib (registration_response env)),
    (''logic/remove_friend'', logic_module lib (remove_friend_response env)),
    (''logic/user'', logic_module lib (user_respond env draw)),
    (''logic/users'', logic_module lib (users_response env))]"
  by (simp add: logic_hosts_def add_friend_module_def login_module_def logout_module_def registration_module_def
      remove_friend_module_def user_module_def users_module_def register_host_def mk_module_def reg_add_def)

lemma site_registrar: "host_registrar lib gen (site_modules lib compile popen fs env draw) =
   map (\<lambda>(t, g). (t, lift_generator snd (apsnd \<circ> (\<lambda>w _. w)) g)) (logic_hosts lib env draw []) @
   [(''files_only'', lift_generator fst (apfst \<circ> (\<lambda>c _. c)) (files_only_module lib compile popen fs)),
    (''phony'', phony_module lib), (''hierarchy'', hierarchy_module lib gen)]"
  by (simp add: host_registrar_def site_modules_def logic_hosts_list register_host_def mk_module_def reg_add_def)

lemma logic_config:
  assumes "map_of (logic_hosts json_memory env draw []) t = Some (logic_module json_memory respond)"
  shows "generate_host_fuel json_memory (site_modules json_memory compile popen fs env draw) (Suc fuel)
    (Jobj [(''ports'', Jarr [Jnum 8080]), (''name'', Jstr ''localhost''), (''type'', Jstr t)]) = Some (Inr (logic_host respond))"
  using assms by (simp add: generate_host_def site_registrar json_extract_def json_get_def logic_module_def
    lift_generator_def mk_host_base_def logic_host_def site_base_def map_add_def map_of_map)


text \<open>The file system has the root, and the expression of the configuration is one.\<close>

definition site_files_ready :: "(string \<Rightarrow> exn + regex) \<Rightarrow> file_system \<Rightarrow> string \<Rightarrow> regex \<Rightarrow> bool" where
  "site_files_ready compile fs root allow \<longleftrightarrow> fs_exists fs ''/var/unitrack/www'' = Inr True \<and>
     fs_canonical fs ''/var/unitrack/www'' ''/'' = Inr root \<and> compile ''/.*'' = Inr allow"

lemma files_config:
  assumes "site_files_ready compile fs root allow"
  shows "default_host json_memory (generate_host_fuel json_memory (site_modules json_memory compile popen fs env draw) (Suc fuel))
     site_base site_config = Some (Inr (hi_default (site popen fs env draw root allow)))"
proof -
  have m: "map_of (host_registrar json_memory gen (site_modules json_memory compile popen fs env draw)) ''files_only'' =
      Some (lift_generator fst (apfst \<circ> (\<lambda>c _. c)) (files_only_module json_memory compile popen fs))" for gen
    by (simp add: site_registrar logic_hosts_list)
  have i: "js_items (json_lib.truncate json_memory) = jm_items"
    by (simp add: json_memory_def json_lib.truncate_def)
  show ?thesis using assms
    by (simp add: default_host_def site_config_def named_config_def generate_host_def m json_extract_def json_get_def
        files_only_module_def lift_generator_def mk_file_host_def mk_host_base_def parse_config_def parse_mode_def
        config_regexes_def new_file_host_def site_base_def site_def site_files_def site_files_ready_def i)
qed

lemma content_config:
  "section_hosts json_memory (generate_host_fuel json_memory (site_modules json_memory compile popen fs env draw) (Suc fuel))
     site_base [(''add_friend'', Jobj [(''type'', Jstr ''logic/add_friend'')]),
       (''login'', Jobj [(''type'', Jstr ''logic/login'')]),
       (''logout'', Jobj [(''type'', Jstr ''logic/logout'')]),
       (''registration'', Jobj [(''type'', Jstr ''logic/registration'')]),
       (''remove_friend'', Jobj [(''type'', Jstr ''logic/remove_friend'')]),
       (''user'', Jobj [(''type'', Jstr ''logic/user'')]),
       (''users'', Jobj [(''type'', Jstr ''logic/users'')])] [] = Some (Inr (hi_hosts (site popen fs env draw root allow)))"
proof -
  have n: "named_config json_memory site_base (Jobj [(''type'', Jstr t)]) =
      Inr (Jobj [(''ports'', Jarr [Jnum 8080]), (''name'', Jstr ''localhost''), (''type'', Jstr t)])" for t
    by (simp add: named_config_def site_base_def)
  show ?thesis
    by (simp add: n logic_config logic_hosts_list emplace_def site_def del: generate_host_fuel.simps)
qed

lemma site_generated:
  assumes "site_files_ready compile fs root allow"
  shows "generate_host_fuel json_memory (site_modules json_memory compile popen fs env draw) (Suc (Suc fuel)) site_config =
    Some (Inr (hierarchy_vhost (site popen fs env draw root allow)))"
proof -
  let ?gen = "generate_host_fuel json_memory (site_modules json_memory compile popen fs env draw) (Suc fuel)"
  have "mk_host_base (json_lib.truncate json_memory) site_config = Inr site_base"
    by (simp add: mk_host_base_def json_get_def site_config_sel site_base_def)
  moreover have "json_extract jm_at jm_object site_config [] [Key ''content''] = Inr (True,
      [(''add_friend'', Jobj [(''type'', Jstr ''logic/add_friend'')]),
       (''login'', Jobj [(''type'', Jstr ''logic/login'')]),
       (''logout'', Jobj [(''type'', Jstr ''logic/logout'')]),
       (''registration'', Jobj [(''type'', Jstr ''logic/registration'')]),
       (''remove_friend'', Jobj [(''type'', Jstr ''logic/remove_friend'')]),
       (''user'', Jobj [(''type'', Jstr ''logic/user'')]),
       (''users'', Jobj [(''type'', Jstr ''logic/users'')])])"
    by (simp add: json_extract_def json_get_def site_config_def)
  ultimately have "mk_hierarchy json_memory ?gen site_config = Some (Inr (site popen fs env draw root allow))"
    by (simp add: mk_hierarchy_def content_config [where root = root and allow = allow] files_config [OF assms]
        del: generate_host_fuel.simps section_hosts.simps)
      (simp add: site_def)
  then show ?thesis
    unfolding generate_host_fuel.simps(2) [of _ _ "Suc fuel"] generate_host_def
    by (simp add: json_extract_def json_get_def site_config_sel site_registrar logic_hosts_list hierarchy_module_def
        del: generate_host_fuel.simps)
qed


section \<open>What the site promises\<close>

definition site_generator ::
  "(string \<Rightarrow> exn + regex) \<Rightarrow> shell \<Rightarrow> file_system \<Rightarrow> 'w logic_env \<Rightarrow> (32 word \<Rightarrow> 'w \<Rightarrow> nat \<times> 'w) \<Rightarrow> nat \<Rightarrow> (json, 'w site_state) host_generator" where
  "site_generator compile popen fs env draw = generate_host_fuel json_memory (site_modules json_memory compile popen fs env draw)"

lemma site_manager:
  assumes "site_files_ready compile fs root allow"
  shows "generate_manager (site_generator compile popen fs env draw (Suc (Suc fuel))) [site_config] [] =
    Some (Inr [hierarchy_vhost (site popen fs env draw root allow)])"
  by (simp add: site_generated [OF assms] site_generator_def add_host_def find_host_def del: generate_host_fuel.simps)

lemma site_files_final:
  "final_responder (file_response fs h (files_only popen fs))"
  by (rule only.final_responder_axioms)

lemma site_descends:
  assumes "\<And>n. fair (draw n) (unat n + 1)" "countable_arrays env"
  shows "descends (hierarchy_response (site popen fs env draw root allow))"
proof (rule hierarchy_descends)
  fix s h assume "(s, h) \<in> set (hi_hosts (site popen fs env draw root allow))"
  then show "s \<noteq> [] \<and> below (vh_response h)"
    using below_logic [of env] below_user(1) [OF assms]
    by (auto simp: site_def logic_host_def lift_vhost_def intro!: lift_below)
next
  fix h assume "hi_default (site popen fs env draw root allow) = Some h"
  then show "descends (vh_response h)"
    by (auto simp: site_def lift_vhost_def file_vhost_def intro!: lift_descends [OF final_descends [OF site_files_final]])
qed

lemma site_responder:
  assumes "\<And>n. fair (draw n) (unat n + 1)" "countable_arrays env"
  shows "responder (hierarchy_response (site popen fs env draw root allow))"
proof (rule hierarchy_responder)
  fix s h assume "(s, h) \<in> set (hi_hosts (site popen fs env draw root allow))"
  then show "responder (vh_response h)"
    using below_user(2) [OF assms] login_host.responder_axioms [of env] logout_host.responder_axioms [of env]
      users_host.responder_axioms [of env] registration_host.responder_axioms [of env]
      add_friend_host.responder_axioms [of env] remove_friend_host.responder_axioms [of env]
    by (auto simp: site_def logic_host_def lift_vhost_def intro!: lift_responder)
next
  fix h assume "hi_default (site popen fs env draw root allow) = Some h"
  then show "responder (vh_response h)"
    using final_responder.axioms(1) [OF site_files_final]
    by (auto simp: site_def lift_vhost_def file_vhost_def intro!: lift_responder)
qed


text \<open>
  The manager built from the configuration of the repository answers every request: hosts that
  hand a request on shorten its path, so the loop of the session ends, and what it ends with is an
  error of the lookup or the host, or a response framed for the request it answers.
\<close>
theorem site_answers:
  assumes "site_files_ready compile fs root allow"
    and "\<And>n. fair (draw n) (unat n + 1)" "countable_arrays env"
  shows "\<exists>mgr. generate_manager (site_generator compile popen fs env draw (Suc (Suc fuel))) [site_config] [] = Some (Inr mgr) \<and>
    (\<exists>res rq' v'. dispatch mgr port sn rq v = Some (res, rq', v') \<and> (\<forall>r. res = Inr r \<longrightarrow> framed rq' r))"
proof -
  let ?h = "hierarchy_vhost (site popen fs env draw root allow)"
  have d: "descends (vh_response h)" and r: "responder (vh_response h)" if "h \<in> set [?h]" for h
    using that site_descends [OF assms(2,3)] site_responder [OF assms(2,3)] by (simp_all add: hierarchy_vhost_def)
  obtain res rq' v' where "dispatch [?h] port sn rq v = Some (res, rq', v')"
    using dispatch_ends [OF d] by (metis prod_cases3)
  moreover from this have "\<forall>r. res = Inr r \<longrightarrow> framed rq' r"
    using dispatch_framed r by (fastforce simp: hosts_framed_def)
  ultimately show ?thesis using site_manager [OF assms(1)] by blast
qed

text \<open>
  A browser that opens the page of a host that only answers forms gets a file: a request for
  \<open>/login\<close>, \<open>/logout\<close> or \<open>/users\<close> that is not what the host answers is answered like the request
  for the rest of its path, that is, the host named by the next section or the file host.
\<close>
theorem page_request_falls_through:
  assumes "section_split (rq_path rq) = Some (s, t)"
    and "s \<in> {''login'', ''logout''} \<and> rq_method rq \<noteq> POST \<or> s = ''users'' \<and> \<not> has_json_arg rq"
    and "rq_host rq = ''localhost''" "rq_port rq = 8080"
  shows "dispatch [hierarchy_vhost (site popen fs env draw root allow)] 8080 sn rq v =
    dispatch [hierarchy_vhost (site popen fs env draw root allow)] 8080 sn (rq\<lparr>rq_path := section_path t\<rparr>) v"
proof -
  let ?h = "hierarchy_vhost (site popen fs env draw root allow)"
  have h: "manager_host [?h] ''localhost'' 8080 = Inr ?h"
    by (simp add: manager_host_def find_host_def hierarchy_vhost_def site_def site_base_def port_allowed_def)
  let ?rq = "rq\<lparr>rq_path := section_path t\<rparr>"
  obtain respond where r: "map_of (hi_hosts (site popen fs env draw root allow)) s = Some (logic_host respond)"
    "respond sn ?rq (snd v) = (Inr None, ?rq, snd v)"
  proof -
    consider "s = ''login''" "rq_method rq \<noteq> POST" | "s = ''logout''" "rq_method rq \<noteq> POST" | "s = ''users''" "\<not> has_json_arg rq"
      using assms(2) by blast
    then show ?thesis
    proof cases
      case 1 then show ?thesis by (intro that [of "login_response env"]) (simp_all add: site_def login_response_def)
    next
      case 2 then show ?thesis by (intro that [of "logout_response env"]) (simp_all add: site_def logout_response_def)
    next
      case 3 then show ?thesis
        by (intro that [of "users_response env"]) (simp_all add: site_def users_response_def has_json_arg_def)
    qed
  qed
  have "hierarchy_response (site popen fs env draw root allow) sn rq v = (Inr None, ?rq, v)"
    using assms(1) r
    by (cases v) (simp add: hierarchy_response_def split_first_section_ref logic_host_def lift_vhost_def lift_respond_def)
  then show ?thesis using assms(3,4) h by (subst dispatch.simps) (simp add: hierarchy_vhost_def)
qed


text \<open>
  A worker that serves this site never stops answering: no request of any client, in any order,
  keeps its event loop busy for ever, and it can always clear its caches.
\<close>
theorem site_worker_never_hangs:
  assumes "\<And>n. fair (draw n) (unat n + 1)" "countable_arrays env"
    and "mk_worker listening (Inr (Some [hierarchy_vhost (site popen fs env draw root allow)])) v = Inr wk0"
    and "worker_reachable renv names (Runs wk0) st"
  shows "st \<noteq> Hangs \<and> (\<forall>wk. st = Runs wk \<longrightarrow> manager_clear_cache (wk_manager wk) (wk_world wk) \<noteq> None)"
proof -
  let ?mgr = "[hierarchy_vhost (site popen fs env draw root allow)]"
  have d: "descends (vh_response h)" if "h \<in> set ?mgr" for h
    using that site_descends [OF assms(1,2)] by (simp add: hierarchy_vhost_def)
  have "dispatch ?mgr port sn rq w \<noteq> None" for port sn rq w
    using dispatch_ends [of ?mgr port sn rq w, OF d] by auto
  then have p: "process_request renv ?mgr sn s \<noteq> None" for sn s
    by (simp add: process_request_def Let_def del: not_None_eq split: prod.split sum.split option.split)
  have m: "wk_manager wk = ?mgr" if "worker_reachable renv names (Runs wk0) (Runs wk)" for wk
  proof (rule worker_reachable_inv [OF that])
    show "wk_manager wk0 = ?mgr" using assms(3) by (auto simp: mk_worker_def add_signal_handler_def Let_def)
  qed (metis worker_step_Runs)
  have "st \<noteq> Hangs"
    using assms(4)
  proof cases
    case (next_step wk)
    from next_step(2) show ?thesis
    proof (cases rule: worker_step.cases)
      case (hang i arrived draw')
      then show ?thesis using m [OF next_step(1)] p by (auto simp: request_handler_def)
    qed (auto simp: signal_handler_def accept_handler_def add_client_def Let_def worker_clear_cache_def
        split: if_splits option.splits sum.splits process_state.splits elim!: react.elims)
  qed simp
  moreover have "manager_clear_cache ?mgr w \<noteq> None" for w
    by (simp add: manager_clear_cache_def hierarchy_vhost_def hierarchy_clear_cache_def site_def logic_host_def
        lift_vhost_def file_vhost_def error_host_def mk_base_vhost_def)
  ultimately show ?thesis using m assms(4) by metis
qed

section \<open>Examples\<close>

lemma dispatch_returns_witness:
  "\<exists>res. dispatch [mk_base_vhost default_host_base] 80 [] ((new_request [])\<lparr>rq_port := 80\<rparr>) () = Some res"
proof (rule dispatch_returns)
  fix h assume "h \<in> set [mk_base_vhost default_host_base :: unit vhost]"
  then show "descends (vh_response h)"
    using final_descends [OF base_host.final_responder_axioms] by (simp add: mk_base_vhost_def)
qed

definition site_fs :: file_system where
  "site_fs = \<lparr>fs_exists = (\<lambda>p. Inr True), fs_is_directory = (\<lambda>p. Inr False), fs_is_empty = (\<lambda>p. Inr False),
     fs_map_region = (\<lambda>p. Inr ''x''), fs_canonical = (\<lambda>p b. Inr p), fs_append = (\<lambda>p q. p @ q)\<rparr>"

lemma site_answers_witness:
  "\<exists>mgr. generate_manager (site_generator (\<lambda>s. Inr any_chars) (\<lambda>c. None) site_fs short_arrays_env counting_draw 2) [site_config] [] = Some (Inr mgr) \<and>
    (\<exists>res rq' v'. dispatch mgr 8080 [] (new_request []) ([], sample_users) = Some (res, rq', v'))"
proof -
  have a: "site_files_ready (\<lambda>s. Inr any_chars) site_fs ''/var/unitrack/www'' any_chars"
    by (simp add: site_files_ready_def site_fs_def)
  show ?thesis
    using site_answers [where draw = counting_draw and fuel = 0, OF a counting_draw_fair short_arrays]
    unfolding numeral_2_eq_2 by blast
qed

lemma page_request_falls_through_witness:
  "let mgr = [hierarchy_vhost (site (\<lambda>c. None) site_fs short_arrays_env counting_draw ''/'' any_chars)];
       rq = (new_request [])\<lparr>rq_method := GET, rq_host := ''localhost'', rq_port := 8080\<rparr> in
   dispatch mgr 8080 [] (rq\<lparr>rq_path := ''/login''\<rparr>) ([], sample_users) =
   dispatch mgr 8080 [] (rq\<lparr>rq_path := ''/''\<rparr>) ([], sample_users)"
proof -
  have "section_split ''/login'' = Some (''login'', [])" by (simp add: section_split_def is_slash_or_query_def)
  then show ?thesis
    using page_request_falls_through [where s = "''login''" and t = "[]" and env = short_arrays_env and draw = counting_draw
      and rq = "(new_request [])\<lparr>rq_method := GET, rq_host := ''localhost'', rq_port := 8080, rq_path := ''/login''\<rparr>"]
    by (simp add: section_path_def)
qed


lemma site_worker_never_hangs_witness:
  "\<exists>wk :: memory site_state worker. worker_step decimal_env [] wk (Runs wk) \<and>
     manager_clear_cache (wk_manager wk) (wk_world wk) \<noteq> None"
proof -
  let ?mgr = "[hierarchy_vhost (site (\<lambda>c. None) site_fs short_arrays_env counting_draw ''/'' any_chars)]"
  obtain wk :: "memory site_state worker" where w: "mk_worker [] (Inr (Some ?mgr)) ([], sample_users) = Inr wk" "\<not> wk_stopped wk" "wk_waiting wk"
    by (simp add: mk_worker_def Let_def add_signal_handler_def)
  have "signal_handler False SIGHUP (wk\<lparr>wk_waiting := False\<rparr>) = Runs wk"
    using w(3) by (simp add: signal_handler_def signal_handlers_def add_signal_handler_def)
  then have "worker_step decimal_env [] wk (Runs wk)" using worker_step.signal [OF w(2,3), of decimal_env "[]" False SIGHUP] by simp
  moreover from this have "worker_reachable decimal_env [] (Runs wk) (Runs wk)" by (intro worker_reachable.here)
  ultimately show ?thesis
    using site_worker_never_hangs [OF counting_draw_fair short_arrays w(1)] by blast
qed

end
