(* ===== verification/Application.thy ===== *)
theory Application
  imports Worker
begin

text \<open>
  \<open>targets/unitrack\<close>: the program. It builds the server from the two configuration files and then
  reads its standard input: a line feed clears the caches of all workers, the end of the input
  stops them. \<open>PATH_CONFIG\<close> is set by the build.
\<close>

section \<open>The application\<close>

record application =
  ap_status :: int
  ap_server :: "server option"

definition config_file :: "string \<Rightarrow> string \<Rightarrow> string" where
  "config_file path_config file_name = path_config @ ''/'' @ file_name"

definition app_handle_error :: "application \<Rightarrow> application" where
  "app_handle_error app = app\<lparr>ap_status := 1\<rparr>"

text \<open>The parts of the configuration: those of the server and of the hosts, and the logic's file.\<close>

definition app_config ::
  "'j json_lib \<Rightarrow> (string \<Rightarrow> string option) \<Rightarrow> (string \<Rightarrow> exn + 'j) \<Rightarrow> string \<Rightarrow> exn + 'j \<times> 'j \<times> 'j" where
  "app_config lib open_file parse path_config =
     rbind (json_from_file open_file parse (config_file path_config ''server.json'')) (\<lambda>config.
     rbind (json_path (js_at lib) config [Key ''server'']) (\<lambda>server_config.
     rbind (json_path (js_at lib) config [Key ''hosts'']) (\<lambda>hosts_config.
     rbind (json_from_file open_file parse (config_file path_config ''logic.json'')) (\<lambda>logic_config.
       Inr (server_config, hosts_config, logic_config)))))"

text \<open>What the kernel does for the server, and what a worker does with the configuration of its hosts.\<close>

record 'j system =
  os_listen :: "port_type \<Rightarrow> exn + unit"
  os_fork :: "nat \<Rightarrow> 32 word"
  os_strerror :: string
  os_kill :: "process \<Rightarrow> int \<Rightarrow> 32 word"
  os_worker_main :: "'j \<Rightarrow> 'j \<Rightarrow> exn + int"

text \<open>
  The constructor is \<open>noexcept\<close>: \<open>None\<close> is \<open>std::terminate\<close>. \<open>Inr\<close>: the process is a worker that has ended.
\<close>

definition mk_application ::
  "'j json_lib \<Rightarrow> ('j \<Rightarrow> exn + 32 word) \<Rightarrow> ('j \<Rightarrow> exn + string list) \<Rightarrow> 'j system \<Rightarrow> exn + 'j \<times> 'j \<times> 'j \<Rightarrow>
     (application + child_end) option" where
  "mk_application lib to_uint to_strings os config =
     (let app = \<lparr>ap_status = 0, ap_server = None\<rparr>;
          failed = (\<lambda>e. if is_std_exception e then Some (Inl (app_handle_error app)) else None) in
      case config of
        Inl e \<Rightarrow> failed e
      | Inr (server_config, hosts_config, logic_config) \<Rightarrow>
         (case configure lib to_uint to_strings server_config of
            Inl e \<Rightarrow> failed e
          | Inr s \<Rightarrow>
             (case start_server (os_listen os) (os_fork os) (os_strerror os) (os_kill os)
                     (os_worker_main os hosts_config logic_config) s of
                Inr c \<Rightarrow> Some (Inr c)
              | Inl (Inl e, s) \<Rightarrow> failed e
              | Inl (Inr _, s) \<Rightarrow> Some (Inl (app\<lparr>ap_server := Some s\<rparr>)))))"

text \<open>\<open>while (std::cin)\<close>: one character after the other; the end of the input changes nothing.\<close>

fun read_input :: "(process \<Rightarrow> int \<Rightarrow> 32 word) \<Rightarrow> string \<Rightarrow> server \<Rightarrow> server" where
  "read_input kill [] s = s"
| "read_input kill (c # cs) s = read_input kill cs (if c = LF then server_clear_cache kill s else s)"

definition app_stop :: "(process \<Rightarrow> int \<Rightarrow> 32 word) \<Rightarrow> application \<Rightarrow> application" where
  "app_stop kill app = app\<lparr>ap_server := map_option (stop kill) (ap_server app)\<rparr>"

definition run_interactive :: "(process \<Rightarrow> int \<Rightarrow> 32 word) \<Rightarrow> string \<Rightarrow> application \<Rightarrow> int \<times> application" where
  "run_interactive kill input app =
     (if ap_status app \<noteq> 0 then (ap_status app, app)
      else (let app = app_stop kill (app\<lparr>ap_server := map_option (read_input kill input) (ap_server app)\<rparr>)
        in (ap_status app, app)))"

definition run_application :: "(process \<Rightarrow> int \<Rightarrow> 32 word) \<Rightarrow> string \<Rightarrow> application \<Rightarrow> int \<times> application" where
  "run_application kill input app = run_interactive kill input app"

section \<open>The life of the program\<close>

definition alive :: "(process \<Rightarrow> int \<Rightarrow> 32 word) \<Rightarrow> int \<Rightarrow> process list \<Rightarrow> (process \<times> int) list" where
  "alive kill sig ps = map (\<lambda>p. (p, sig)) (filter (\<lambda>p. p \<noteq> 0 \<and> kill p sig = 0) ps)"

lemma read_input_signals: "read_input kill input s = s\<lparr>sv_signals := sv_signals s @
    concat (replicate (length (filter (\<lambda>c. c = LF) input)) (alive kill clear_cache_signal (sv_processes s)))\<rparr>"
  by (induction kill input s rule: read_input.induct) (simp_all add: server_clear_cache_def kill_all_signals alive_def)

text \<open>
  C29: The program as a whole: it ends with status 1, without a server, if the configuration or the start of
  the server fails; otherwise each of the configured workers is told to clear its caches once for every
  line feed of the input, then to stop, in this order and nothing else, and the status is 0.
\<close>
theorem application_life:
  assumes "mk_application lib to_uint to_strings os config = Some (Inl app)"
    and "run_application (os_kill os) input app = (status, app')"
  shows "(status = 1 \<and> ap_server app' = None) \<or>
    (\<exists>sc hc lc s s'. config = Inr (sc, hc, lc) \<and> configure lib to_uint to_strings sc = Inr s \<and>
      status = 0 \<and> ap_server app' = Some s' \<and> sv_processes s' = [] \<and>
      (let ps = map (os_fork os) [0..<unat (sv_workers s)] in (\<forall>p\<in>set ps. 0 < sint p) \<and>
       sv_signals s' = concat (replicate (length (filter (\<lambda>c. c = LF) input)) (alive (os_kill os) SIGUSR1 ps)) @
         alive (os_kill os) SIGTERM ps))"
proof -
  consider "app = \<lparr>ap_status = 1, ap_server = None\<rparr>"
    | sc hc lc s s1 where "config = Inr (sc, hc, lc)" "configure lib to_uint to_strings sc = Inr s"
        "start_server (os_listen os) (os_fork os) (os_strerror os) (os_kill os) (os_worker_main os hc lc) s = Inl (Inr (), s1)"
        "app = \<lparr>ap_status = 0, ap_server = Some s1\<rparr>"
    using assms(1) by (auto simp: mk_application_def app_handle_error_def Let_def split: sum.splits prod.splits if_splits)
  then show ?thesis
  proof cases
    case 1
    then show ?thesis using assms(2) by (auto simp: run_application_def run_interactive_def)
  next
    case (2 sc hc lc s s1)
    from server_started [OF 2(2,3)] have ps: "sv_processes s1 = map (os_fork os) [0..<unat (sv_workers s)]"
      "\<forall>p\<in>set (sv_processes s1). 0 < sint p" "sv_signals s1 = []" by simp_all
    have "status = 0" "ap_server app' = Some (stop (os_kill os) (read_input (os_kill os) input s1))"
      using assms(2) 2(4) by (auto simp: run_application_def run_interactive_def app_stop_def Let_def)
    then show ?thesis using 2(1,2) ps
      by (simp add: Let_def stop_signals read_input_signals clear_cache_signal_def alive_def)
  qed
qed

text \<open>Two workers, one line feed.\<close>

definition sample_system :: "unit system" where
  "sample_system = \<lparr>os_listen = (\<lambda>p. Inr ()), os_fork = (\<lambda>i. if i = 0 then 41 else 42), os_strerror = [],
     os_kill = (\<lambda>p sig. 0), os_worker_main = (\<lambda>hc lc. Inr 0)\<rparr>"

lemma application_life_witness:
  "\<exists>app app' s'. mk_application three_workers_lib (\<lambda>j. Inr 2) (\<lambda>j. Inr []) sample_system (Inr ((), (), ())) = Some (Inl app) \<and>
     run_application (os_kill sample_system) [LF] app = (0, app') \<and> ap_server app' = Some s' \<and>
     sv_signals s' = [(41, SIGUSR1), (42, SIGUSR1), (41, SIGTERM), (42, SIGTERM)]"
proof -
  let ?s = "new_server\<lparr>sv_workers := 2\<rparr>"
  have c: "configure three_workers_lib (\<lambda>j. Inr 2) (\<lambda>j. Inr []) () = Inr ?s"
    by (simp add: configure_def json_extract_def json_get_def three_workers_lib_def new_server_def)
  have "create_workers (os_fork sample_system) [] (Inr 0) 0 2 ?s = Inl (Inr (), ?s\<lparr>sv_processes := [41, 42]\<rparr>)"
    by (subst numeral_2_eq_2) (simp add: mk_process_def sample_system_def new_server_def)
  then obtain app where a: "mk_application three_workers_lib (\<lambda>j. Inr 2) (\<lambda>j. Inr []) sample_system (Inr ((), (), ())) = Some (Inl app)"
    "ap_status app = 0"
    by (simp add: mk_application_def c start_server_def new_server_def Let_def) (simp add: sample_system_def)
  obtain status app' where r: "run_application (os_kill sample_system) [LF] app = (status, app')" by fastforce
  have st: "status = 0" using r a(2) by (auto simp: run_application_def run_interactive_def app_stop_def Let_def)
  have u: "map (os_fork sample_system) [0..<unat (2 :: 32 word)] = [41, 42]" by (simp add: sample_system_def upt_rec)
  from application_life [OF a(1) r] st a r u show ?thesis
    by (auto simp: c Let_def alive_def new_server_def sample_system_def)
qed

end
