(* ===== verification/Http_Message.thy ===== *)
theory Http_Message
  imports Http_Request
begin

text \<open>
  What a browser sends this server: a message with the headers the parser handles itself
  (\<open>Host\<close>, \<open>Connection\<close>, \<open>Cookie\<close>, \<open>Content-Length\<close>) besides any others. The grammars of the
  three handlers of \<open>http/request.cpp\<close> are read from left to right, without backtracking, and the
  printed message is shown to come back field by field.
\<close>

section \<open>The grammars of the handled headers\<close>

lemma run_end_Plus: "run_end (Plus (Cls P)) (n, s, c) =
    (if s \<noteq> [] \<and> list_all P s then [(n + length s, [], c)] else [])"
proof (cases s)
  case (Cons x t)
  have "dropWhile P t = [] \<longleftrightarrow> list_all P t" by (simp add: dropWhile_eq_Nil_conv list_all_iff)
  moreover have "length (takeWhile P t) = length t" if "dropWhile P t = []"
    using that by (metis append_Nil2 takeWhile_dropWhile_id)
  ultimately show ?thesis by (simp add: Plus_def run_end_Sq_Cls run_end_Star Cons)
qed (simp add: Plus_def run_end_Sq_Cls)

text \<open>The host: everything before the first colon, then a port, if there is a colon.\<close>

lemma regex_match_host: "regex_match host_regex s =
    (let h = takeWhile not_colon s; t = dropWhile not_colon s in
     if h = [] then None else if t = [] then Some [(1, h)]
     else if tl t \<noteq> [] \<and> list_all is_digit (tl t) then Some [(2, t), (3, tl t), (1, h)] else None)"
proof -
  let ?r = "Grp 2 (Sq (Cls (\<lambda>x. x = CHR '':'')) (Grp 3 (Plus (Cls is_digit))))"
  have rej: "rejects_end (Opt ?r) not_colon"
    by (intro rejects_end_Opt rejects_intros) (simp add: not_colon_def)
  show ?thesis
  proof (cases "dropWhile not_colon s")
    case Nil
    then show ?thesis
      by (simp del: One_nat_def add: regex_match_run_end host_regex_def run_end_Sq_Grp_Plus [OF rej] Let_def run_end_Opt
          run_end_Grp Lit_def run_end_Sq_Cls)
  next
    case (Cons x t)
    then have "x = CHR '':''" using hd_dropWhile [of not_colon s] by (auto simp: not_colon_def)
    then show ?thesis
      by (simp del: One_nat_def add: regex_match_run_end host_regex_def run_end_Sq_Grp_Plus [OF rej] Let_def run_end_Opt
          run_end_Grp Lit_def run_end_Sq_Cls run_end_Plus Cons)
  qed
qed

text \<open>What \<open>process_header_host\<close> does with the parts.\<close>

lemma process_header_host_scan: "process_header_host env value rq =
    (let h = takeWhile not_colon value; t = dropWhile not_colon value in
     if h = [] \<or> t \<noteq> [] \<and> \<not> (tl t \<noteq> [] \<and> list_all is_digit (tl t)) then
       (Inl (Http (Incorrect_host_header value)), rq)
     else if t = [] then (Inr (), rq\<lparr>rq_host := h\<rparr>)
     else (case lexical_port env (tl t) of
         None \<Rightarrow> (Inl bad_lexical_cast, rq\<lparr>rq_host := h\<rparr>)
       | Some p \<Rightarrow> (Inr (), rq\<lparr>rq_host := h, rq_port := p\<rparr>)))"
  by (cases "dropWhile not_colon value")
    (auto simp: process_header_host_def regex_match_host Let_def group_def split: option.split)

text \<open>\<open>keep-alive\<close> may stand anywhere in the value.\<close>

lemma keep_alive_match: "regex_match keep_alive_regex ''keep-alive'' \<noteq> None"
proof -
  have "run_end keep_alive_regex (0, ''keep-alive'', []) \<noteq> []"
    unfolding keep_alive_regex_def run_end_Sq_Star_iff
    by (rule exI [of _ 0]) (simp del: Lits.simps add: run_end_Lits run_end_Star)
  then show ?thesis by (simp only: regex_match_None_iff not_False_eq_True)
qed

section \<open>Cookies\<close>

lemma run_Sq_Grp_name_det:
  assumes "rejects r Q"
  shows "run (Sq (Grp i (Sq (Cls P) (Star (Cls Q)))) r) (n, x # s, c) = (if P x
    then run r (Suc n + length (takeWhile Q s), dropWhile Q s, (i, x # takeWhile Q s) # c) else [])"
proof (cases "P x")
  case True
  let ?K = "\<lambda>st. run r (mpos st, mrest st, (i, take (mpos st - n) (x # s)) # mcaps st)"
  have "run (Sq (Grp i (Sq (Cls P) (Star (Cls Q)))) r) (n, x # s, c) =
      concat (map ?K (run (Star (Cls Q)) (Suc n, s, c)))"
    using True by (simp del: run.simps(5) add: comp_def)
  also have "\<dots> = ?K (Suc n + length (takeWhile Q s), dropWhile Q s, c)"
    by (rule star_cls_then) (use assms in \<open>simp add: rejects_def\<close>)
  finally show ?thesis using True by simp
qed simp

lemma consumes_cookie: "consumes cookie_regex"
  unfolding cookie_regex_def Lit_def by (intro consumes_Sq2 consumes_Sq1 consumes_Cls)

definition cookie_ok :: "string \<times> string \<Rightarrow> bool" where
  "cookie_ok = (\<lambda>(k, v). k \<noteq> [] \<and> is_name_start (hd k) \<and> list_all is_name k \<and> v \<noteq> [] \<and> list_all is_name v)"

lemma run_cookie:
  assumes "cookie_ok (k, v)" "t = [] \<or> \<not> is_name (hd t)"
  shows "\<exists>sts. run cookie_regex (n, k @ CHR ''='' # v @ t, []) =
    (n + length k + Suc (length v), t, [(2, v), (1, k)]) # sts"
proof -
  obtain x k' where k: "k = x # k'" using assms(1) by (cases k) (auto simp: cookie_ok_def)
  have ok: "is_name_start x" "list_all is_name k'" "v \<noteq> []" "list_all is_name v"
    using assms(1) k by (auto simp: cookie_ok_def)
  have eq: "\<not> is_name CHR ''=''" by (simp add: is_name_def char_class_defs)
  have rej: "rejects (Sq (Lit CHR ''='') (Grp 2 (Plus (Cls is_name)))) is_name"
    using eq by (auto simp: Lit_def intro!: rejects_intros)
  have tw: "takeWhile is_name (k' @ CHR ''='' # v @ t) = k'" "dropWhile is_name (k' @ CHR ''='' # v @ t) = CHR ''='' # v @ t"
    using ok(2) eq by (simp_all add: takeWhile_all dropWhile_all list_all_iff)
  have tv: "takeWhile is_name (v @ t) = v" "dropWhile is_name (v @ t) = t"
    using ok(4) assms(2) by (simp_all add: takeWhile_all dropWhile_all list_all_iff takeWhile_hd dropWhile_hd)
  obtain y v' where v: "v = y # v'" using ok(3) by (cases v) auto
  have tv': "takeWhile is_name (v' @ t) = v'" "dropWhile is_name (v' @ t) = t"
    using tv ok(4) v by simp_all
  obtain ys where ys: "run (Star (Cls is_name)) (Suc (Suc (n + length k)), v' @ t, [(1, k)]) =
      (Suc (Suc (n + length k)) + length v', t, [(1, k)]) # ys"
    using run_Star_Cls_hd [of is_name "Suc (Suc (n + length k))" "v' @ t" "[(1, k)]"] unfolding tv' by blast
  have "run cookie_regex (n, k @ CHR ''='' # v @ t, []) =
      run (Sq (Lit CHR ''='') (Grp 2 (Plus (Cls is_name)))) (n + length k, CHR ''='' # v @ t, [(1, k)])"
    using run_Sq_Grp_name_det [OF rej, of 1 is_name_start n x "k' @ CHR ''='' # v @ t" "[]"] ok(1)
    by (simp only: cookie_regex_def k tw append_Cons if_True) (simp add: tw)
  then show ?thesis
    using ys ok(4) by (simp add: Lit_def run_Plus_Cls v del: run.simps(5))
qed

fun print_cookies :: "(string \<times> string) list \<Rightarrow> string" where
  "print_cookies [] = []"
| "print_cookies [(k, v)] = k @ ''='' @ v"
| "print_cookies ((k, v) # cs) = k @ ''='' @ v @ ''; '' @ print_cookies cs"

lemma cookie_skip: "\<not> is_name_start x \<Longrightarrow> run cookie_regex (n, x # s, []) = []"
  by (simp add: cookie_regex_def)

lemma iterate_cookies:
  "list_all cookie_ok cs \<Longrightarrow>
   map (\<lambda>(p, l, m). (group 1 m, group 2 m)) (regex_iterate cookie_regex n (print_cookies cs)) = cs"
proof (induction cs arbitrary: n rule: print_cookies.induct)
  case 1
  have "run cookie_regex (n, [], []) = []" by (simp add: cookie_regex_def)
  then show ?case by (simp add: regex_iterate_end)
next
  case (2 k v)
  from run_cookie [of k v "[]" n] 2 obtain sts where
    "run cookie_regex (n, k @ CHR ''='' # v, []) = (n + length k + Suc (length v), [], [(2, v), (1, k)]) # sts" by auto
  moreover have "run cookie_regex (m, [], []) = []" for m by (simp add: cookie_regex_def)
  ultimately show ?case by (simp add: regex_iterate_hit regex_iterate_end group_def)
next
  case (3 k v c cs)
  let ?t = "print_cookies (c # cs)" and ?m = "n + length k + Suc (length v)"
  have n: "\<not> is_name CHR '';''" "\<not> is_name_start CHR '';''" "\<not> is_name_start CHR '' ''"
    by (simp_all add: is_name_def is_name_start_def char_class_defs)
  from run_cookie [of k v "''; '' @ ?t" n] 3 n obtain sts where
    "run cookie_regex (n, k @ CHR ''='' # v @ ''; '' @ ?t, []) = (?m, ''; '' @ ?t, [(2, v), (1, k)]) # sts" by auto
  moreover have "regex_iterate cookie_regex ?m (''; '' @ ?t) = regex_iterate cookie_regex (Suc (Suc ?m)) ?t"
    using regex_iterate_next [OF consumes_cookie cookie_skip] n by simp
  ultimately show ?case using 3 by (simp add: regex_iterate_hit group_def)
qed

lemma process_header_cookie_printed:
  assumes "list_all cookie_ok cs"
  shows "process_header_cookie (print_cookies cs) rq =
    (Inr (), rq\<lparr>rq_cookies := fold (\<lambda>(k, v). emplace k v) cs (rq_cookies rq)\<rparr>)"
proof -
  have "fold (\<lambda>(p, l, m). emplace (group 1 m) (group 2 m)) (regex_iterate cookie_regex 0 (print_cookies cs)) =
      fold (\<lambda>(k, v). emplace k v) (map (\<lambda>(p, l, m). (group 1 m, group 2 m)) (regex_iterate cookie_regex 0 (print_cookies cs)))"
    by (simp add: fold_map comp_def case_prod_unfold)
  also have "\<dots> = fold (\<lambda>(k, v). emplace k v) cs" unfolding iterate_cookies [OF assms] ..
  finally show ?thesis unfolding process_header_cookie_def by simp
qed

section \<open>Messages\<close>

record message =
  ms_method :: http_method
  ms_uri :: string
  ms_host :: string
  ms_port :: port_type
  ms_keep_alive :: bool
  ms_cookies :: "(string \<times> string) list"
  ms_headers :: "(string \<times> string) list"
  ms_body :: string

definition print_host :: "message \<Rightarrow> string" where
  "print_host msg = ms_host msg @ '':'' @ to_string (unat (ms_port msg))"

definition handled_headers :: "message \<Rightarrow> (string \<times> string) list" where
  "handled_headers msg =
     [(header_host, print_host msg)] @
     (if ms_keep_alive msg then [(header_connection, ''keep-alive'')] else []) @
     (if ms_cookies msg = [] then [] else [(header_cookie, print_cookies (ms_cookies msg))]) @
     (if ms_method msg = POST then [(header_content_length, to_string (length (ms_body msg)))] else [])"

definition message_head :: "message \<Rightarrow> string" where
  "message_head msg = print_request (ms_method msg) (ms_uri msg) (ms_headers msg @ handled_headers msg) []"

definition print_message :: "message \<Rightarrow> string" where
  "print_message msg = message_head msg @ ms_body msg"

text \<open>
  A message the server is meant to read: the names and values stay within the characters of their
  grammars, only a POST has a body, and the library can read its numbers and allocate its body.
\<close>

definition message_ok :: "req_env \<Rightarrow> message \<Rightarrow> bool" where
  "message_ok env msg \<longleftrightarrow> request_line_ok (ms_method msg) (ms_uri msg) \<and>
     ms_host msg \<noteq> [] \<and> not_space (hd (ms_host msg)) \<and>
     list_all (\<lambda>c. not_colon c \<and> not_newline c) (ms_host msg) \<and>
     lexical_port env (to_string (unat (ms_port msg))) = Some (ms_port msg) \<and>
     list_all cookie_ok (ms_cookies msg) \<and>
     list_all header_ok (ms_headers msg) \<and> list_all (\<lambda>(k, v). \<not> handled_header k) (ms_headers msg) \<and>
     (ms_method msg \<noteq> POST \<longrightarrow> ms_body msg = []) \<and> length (ms_body msg) < 2 ^ 64 \<and>
     lexical_size env (to_string (length (ms_body msg))) = Some (of_nat (length (ms_body msg))) \<and>
     resize_error env (of_nat (length (ms_body msg))) = None"

text \<open>The request a client's message becomes, when \<open>got\<close> of its body has been read.\<close>

definition parsed_upto :: "string \<Rightarrow> message \<Rightarrow> string \<Rightarrow> request" where
  "parsed_upto client_address msg got = fold apply_arg
     (map split_item (segments (tl (dropWhile (\<lambda>c. c \<noteq> CHR ''?'') (ms_uri msg)))))
     \<lparr>rq_client_address = client_address, rq_keep_alive = ms_keep_alive msg, rq_method = ms_method msg,
      rq_version = V_1_1, rq_uri = ms_uri msg, rq_path = takeWhile (\<lambda>c. c \<noteq> CHR ''?'') (ms_uri msg),
      rq_args_map = [], rq_args_set = [], rq_host = ms_host msg, rq_port = ms_port msg,
      rq_content_length = of_nat (length (ms_body msg)),
      rq_cookies = fold (\<lambda>(k, v). emplace k v) (ms_cookies msg) [],
      rq_unparsed_headers = ms_headers msg, rq_parsed_headers = handled_headers msg,
      rq_body = got @ replicate (length (ms_body msg) - length got) (CHR 0x00),
      rq_body_bytes_read = of_nat (length got)\<rparr>"

abbreviation parsed :: "string \<Rightarrow> message \<Rightarrow> request" where
  "parsed client_address msg \<equiv> parsed_upto client_address msg (ms_body msg)"

lemma name_no_newline: "list_all is_name s \<Longrightarrow> list_all not_newline s"
  by (auto simp: list_all_iff is_name_def char_class_defs not_newline_def)

lemma print_cookies_ok:
  "list_all cookie_ok cs \<Longrightarrow> list_all not_newline (print_cookies cs) \<and>
   (cs \<noteq> [] \<longrightarrow> print_cookies cs \<noteq> [] \<and> not_space (hd (print_cookies cs)))"
proof (induction cs rule: print_cookies.induct)
  case (2 k v)
  have nn: "not_newline CHR ''=''" by (simp add: not_newline_def)
  from 2 show ?case using name_no_newline [of k] name_no_newline [of v]
    by (cases k) (auto simp: cookie_ok_def class_disjoint(2) nn)
next
  case (3 k v c cs)
  have nn: "not_newline CHR ''=''" "not_newline CHR '';''" "not_newline CHR '' ''"
    by (simp_all add: not_newline_def)
  from 3 show ?case using name_no_newline [of k] name_no_newline [of v]
    by (cases k) (auto simp: cookie_ok_def class_disjoint(2) nn)
qed simp

lemma handled_headers_ok:
  assumes "message_ok env msg" shows "list_all header_ok (handled_headers msg)"
proof -
  have h: "header_ok (header_host, print_host msg)"
    using assms to_string_not_space
    by (auto simp: message_ok_def header_ok_def header_host_def print_host_def list_all_iff is_space_def not_newline_def)
  have c: "header_ok (header_connection, ''keep-alive'')"
    by (simp add: header_ok_def header_connection_def is_space_def not_newline_def)
  have k: "header_ok (header_cookie, print_cookies (ms_cookies msg))" if "ms_cookies msg \<noteq> []"
    using that print_cookies_ok [of "ms_cookies msg"] assms
    by (simp add: message_ok_def header_ok_def header_cookie_def is_space_def)
  show ?thesis using h c k header_ok_content_length by (simp add: handled_headers_def)
qed

lemma not_colon_host:
  assumes "list_all (\<lambda>c. not_colon c \<and> not_newline c) h"
  shows "takeWhile not_colon (h @ '':'' @ t) = h" "dropWhile not_colon (h @ '':'' @ t) = '':'' @ t"
proof -
  have "\<forall>x\<in>set h. not_colon x" using assms by (simp add: list_all_iff)
  then show "takeWhile not_colon (h @ '':'' @ t) = h" "dropWhile not_colon (h @ '':'' @ t) = '':'' @ t"
    by (simp_all add: takeWhile_all dropWhile_all not_colon_def)
qed

text \<open>Reading the headers of a message fills the request as \<open>parsed_upto\<close> says.\<close>

lemma apply_handled_headers:
  assumes ok: "message_ok env msg" and p: "rq_parsed_headers rq = []" "rq_cookies rq = []"
    "\<not> rq_keep_alive rq" "rq_content_length rq = 0"
  shows "apply_headers env (handled_headers msg) rq = (Inr (), rq\<lparr>rq_host := ms_host msg, rq_port := ms_port msg,
      rq_keep_alive := ms_keep_alive msg, rq_cookies := fold (\<lambda>(k, v). emplace k v) (ms_cookies msg) [],
      rq_content_length := of_nat (length (ms_body msg)), rq_parsed_headers := handled_headers msg\<rparr>)"
proof -
  have dg: "list_all is_digit (to_string n)" for n using to_string_digits by (auto simp: list_all_iff)
  have h: "process_header_host env (print_host msg) rq = (Inr (), rq\<lparr>rq_host := ms_host msg, rq_port := ms_port msg\<rparr>)" for rq
    using ok dg not_colon_host [of "ms_host msg" "to_string (unat (ms_port msg))"]
    by (simp add: process_header_host_scan message_ok_def print_host_def Let_def)
  have k: "process_header_connection ''keep-alive'' rq = (Inr (), rq\<lparr>rq_keep_alive := True\<rparr>)" for rq
    by (simp add: process_header_connection_def keep_alive_match)
  have c: "process_header_cookie (print_cookies (ms_cookies msg)) rq =
      (Inr (), rq\<lparr>rq_cookies := fold (\<lambda>(k, v). emplace k v) (ms_cookies msg) (rq_cookies rq)\<rparr>)" for rq
    using ok by (simp add: process_header_cookie_printed message_ok_def)
  have n: "process_header_content_length env (to_string (length (ms_body msg))) rq =
      (Inr (), rq\<lparr>rq_content_length := of_nat (length (ms_body msg))\<rparr>)" for rq
    using ok by (simp add: process_header_content_length_def message_ok_def)
  have m: "map_of (process_header_fn_map env) header_host = Some (process_header_host env)"
    "map_of (process_header_fn_map env) header_connection = Some process_header_connection"
    "map_of (process_header_fn_map env) header_cookie = Some process_header_cookie"
    "map_of (process_header_fn_map env) header_content_length = Some (process_header_content_length env)"
    by (simp_all add: process_header_fn_map_def header_name_defs)
  have b: "ms_method msg \<noteq> POST \<Longrightarrow> ms_body msg = []" using ok by (simp add: message_ok_def)
  show ?thesis unfolding handled_headers_def apply_headers_append
    by (rule prod_eqI; cases "ms_keep_alive msg"; cases "ms_cookies msg = []"; cases "ms_method msg = POST")
      (auto simp: sbind_def apply_header_def m h k c n p b intro!: request.equality)
qed

lemma parsed_upto_sel [simp]:
  "rq_content_length (parsed_upto ca msg got) = of_nat (length (ms_body msg))"
  "rq_method (parsed_upto ca msg got) = ms_method msg"
  "rq_client_address (parsed_upto ca msg got) = ca"
  "rq_body (parsed_upto ca msg got) = got @ replicate (length (ms_body msg) - length got) (CHR 0x00)"
  "rq_body_bytes_read (parsed_upto ca msg got) = of_nat (length got)"
  by (simp_all add: parsed_upto_def fold_apply_arg)

lemma parsed_upto_upd:
  "rq_body rq = got' @ replicate (length (ms_body msg) - length got') (CHR 0x00) \<Longrightarrow>
   rq_body_bytes_read rq = of_nat (length got') \<Longrightarrow>
   rq = (parsed_upto ca msg got)\<lparr>rq_body := rq_body rq, rq_body_bytes_read := rq_body_bytes_read rq\<rparr> \<Longrightarrow>
   rq = parsed_upto ca msg got'"
  unfolding parsed_upto_def fold_apply_arg_upd [symmetric] by simp

lemma reset_new: "reset rq = new_request (rq_client_address rq)"
  by (rule request.equality) (simp_all add: reset_def base_reset_def new_request_def)

text \<open>After the head of a message, only its body is missing.\<close>

lemma process_stream_head:
  assumes ok: "message_ok env msg"
  shows "process_stream env \<lparr>is_rest = message_head msg @ b, is_good = True\<rparr> rq0 =
    process_body env \<lparr>is_rest = b, is_good = True\<rparr>
      ((parsed_upto (rq_client_address rq0) msg [])\<lparr>rq_body := []\<rparr>)"
proof -
  let ?hs = "ms_headers msg @ handled_headers msg"
  let ?rq = "(reset rq0)\<lparr>rq_method := ms_method msg, rq_version := V_1_1, rq_uri := ms_uri msg\<rparr>"
  let ?rq1 = "?rq\<lparr>rq_unparsed_headers := ms_headers msg, rq_host := ms_host msg, rq_port := ms_port msg,
      rq_keep_alive := ms_keep_alive msg, rq_cookies := fold (\<lambda>(k, v). emplace k v) (ms_cookies msg) [],
      rq_content_length := of_nat (length (ms_body msg)), rq_parsed_headers := handled_headers msg\<rparr>"
  have line: "request_line_ok (ms_method msg) (ms_uri msg)" using ok by (simp add: message_ok_def)
  have hs: "list_all header_ok ?hs" using ok handled_headers_ok by (simp add: message_ok_def)
  have un: "list_all (\<lambda>(k, v). map_of (process_header_fn_map env) k = None) (ms_headers msg)"
    using ok by (auto simp: message_ok_def list_all_iff not_handled)
  have ap: "apply_headers env ?hs ?rq = (Inr (), ?rq1)"
    unfolding apply_headers_append
    by (simp add: sbind_def apply_headers_unparsed [OF un] apply_handled_headers [OF ok] reset_new new_request_def)
  have t: "message_head msg @ b = print_request (ms_method msg) (ms_uri msg) ?hs b"
    by (simp add: message_head_def print_request_def)
  have e: "?rq1\<lparr>rq_path := takeWhile (\<lambda>c. c \<noteq> CHR ''?'') (ms_uri msg)\<rparr> =
     \<lparr>rq_client_address = rq_client_address rq0, rq_keep_alive = ms_keep_alive msg, rq_method = ms_method msg,
      rq_version = V_1_1, rq_uri = ms_uri msg, rq_path = takeWhile (\<lambda>c. c \<noteq> CHR ''?'') (ms_uri msg),
      rq_args_map = [], rq_args_set = [], rq_host = ms_host msg, rq_port = ms_port msg,
      rq_content_length = of_nat (length (ms_body msg)),
      rq_cookies = fold (\<lambda>(k, v). emplace k v) (ms_cookies msg) [],
      rq_unparsed_headers = ms_headers msg, rq_parsed_headers = handled_headers msg,
      rq_body = [], rq_body_bytes_read = 0\<rparr>"
    by (rule request.equality) (simp_all add: reset_new new_request_def)
  show ?thesis
    unfolding t by (subst process_stream_printed [OF line hs ap])
      (simp_all add: e parsed_upto_def fold_apply_arg_upd [symmetric])
qed

text \<open>Reading the body, in one piece or in several.\<close>

lemma again_parsed:
  assumes ok: "message_ok env msg" and le: "length got \<le> length (ms_body msg)"
  defines "m \<equiv> length (ms_body msg) - length got"
  shows "process_stream_again \<lparr>is_rest = b, is_good = True\<rparr> (parsed_upto ca msg got) =
    (of_nat (m - length b), parsed_upto ca msg (got @ take m b), \<lparr>is_rest = drop m b, is_good = True\<rparr>)"
proof -
  let ?rq = "parsed_upto ca msg got" and ?L = "length (ms_body msg)"
  have lt: "?L < 2 ^ 64" using ok by (simp add: message_ok_def)
  have un: "unat (of_nat k :: 64 word) = k" if "k \<le> ?L" for k
    using that lt by (simp add: unat_of_nat take_bit_nat_eq_self)
  have inv: "body_inv got ?rq" using le by (simp add: body_inv_def un)
  obtain left rq' st where r: "process_stream_again \<lparr>is_rest = b, is_good = True\<rparr> ?rq = (left, rq', st)"
    by (metis prod_cases3)
  note s = process_stream_again_step [OF inv _ r]
  have st: "st = \<lparr>is_rest = drop m b, is_good = True\<rparr>"
    using s(4) r by (auto simp: un m_def process_stream_again_def readsome_def Let_def split: if_splits)
  have left: "left = of_nat (m - length b)"
  proof -
    have "unat left = m - length b" using s(2) by (simp add: un m_def)
    moreover have "unat (of_nat (m - length b) :: 64 word) = m - length b" by (rule un) (simp add: m_def)
    ultimately show ?thesis by (simp add: word_unat_eq_iff)
  qed
  have inv': "body_inv (got @ take m b) rq'" using s(1) by (simp add: un m_def)
  have cl: "rq_content_length rq' = of_nat ?L" using s(3) by simp
  have fr: "rq' = ?rq\<lparr>rq_body := rq_body rq', rq_body_bytes_read := rq_body_bytes_read rq'\<rparr>"
    using r by (auto simp: process_stream_again_def Let_def split: if_splits prod.splits)
  have "rq' = parsed_upto ca msg (got @ take m b)"
    by (rule parsed_upto_upd [OF _ _ fr]) (use inv' cl in \<open>simp_all add: body_inv_def un\<close>)
  then show ?thesis using r st left by simp
qed

lemma body_parsed:
  assumes ok: "message_ok env msg"
  defines "L \<equiv> length (ms_body msg)"
  shows "process_body env \<lparr>is_rest = b, is_good = True\<rparr> ((parsed_upto ca msg [])\<lparr>rq_body := []\<rparr>) =
    (Inr (of_nat (L - length b)), parsed_upto ca msg (take L b), \<lparr>is_rest = drop L b, is_good = True\<rparr>)"
proof -
  let ?rq = "(parsed_upto ca msg [])\<lparr>rq_body := []\<rparr>"
  have lt: "L < 2 ^ 64" and al: "resize_error env (of_nat L) = None" and post: "ms_method msg \<noteq> POST \<Longrightarrow> L = 0"
    using ok by (simp_all add: message_ok_def L_def)
  have un: "unat (of_nat L :: 64 word) = L" using lt by (simp add: unat_of_nat take_bit_nat_eq_self)
  have z: "(of_nat L :: 64 word) = 0 \<longleftrightarrow> L = 0"
    unfolding word_unat_eq_iff un by simp
  have rq: "?rq\<lparr>rq_body := resize L (rq_body ?rq)\<rparr> = parsed_upto ca msg []"
    by (rule request.equality) (simp_all add: resize_def L_def)
  show ?thesis
  proof (cases "L = 0")
    case True
    have "?rq = parsed_upto ca msg []" using True by (intro request.equality) (simp_all add: L_def)
    then show ?thesis using True by (simp add: process_body_def L_def)
  next
    case False
    then have "rq_content_length ?rq \<noteq> 0" "rq_method ?rq = POST" using z post by (auto simp: L_def)
    moreover have "resize_error env (rq_content_length ?rq) = None" "unat (rq_content_length ?rq) = L"
      using al un by (simp_all add: L_def)
    ultimately have "process_body env \<lparr>is_rest = b, is_good = True\<rparr> ?rq =
        (case process_stream_again \<lparr>is_rest = b, is_good = True\<rparr> (?rq\<lparr>rq_body := resize L (rq_body ?rq)\<rparr>) of
           (n, rq, st) \<Rightarrow> (Inr n, rq, st))"
      unfolding process_body_def Let_def by (simp split: prod.split)
    also have "\<dots> = (Inr (of_nat (L - length b)), parsed_upto ca msg (take L b), \<lparr>is_rest = drop L b, is_good = True\<rparr>)"
      unfolding rq using again_parsed [OF ok, of "[]" b ca] by (simp add: L_def)
    finally show ?thesis .
  qed
qed

lemmas process_stream_message = trans [OF process_stream_head body_parsed]

lemma message_read_back:
  assumes "message_ok env msg"
  shows "process_stream env \<lparr>is_rest = print_message msg @ rest, is_good = True\<rparr> rq0 =
    (Inr 0, parsed (rq_client_address rq0) msg, \<lparr>is_rest = rest, is_good = True\<rparr>)"
  using process_stream_message [OF assms assms, of "ms_body msg @ rest" rq0]
  by (simp add: print_message_def)

text \<open>
  C4: Every message a client prints is read back exactly, field by field: method, URI, path and
  arguments, the host and the port of its \<open>Host\<close> header, whether the connection is kept, its cookies
  (the first of each name), the other headers in their order, and the body cut off where it was
  announced; the bytes that follow stay in the stream for the next message.
\<close>
theorem message_roundtrip:
  assumes "message_ok env msg"
  shows "process_stream env \<lparr>is_rest = print_message msg @ rest, is_good = True\<rparr> rq0 =
    (Inr 0, parsed (rq_client_address rq0) msg, \<lparr>is_rest = rest, is_good = True\<rparr>)"
  by (rule message_read_back [OF assms])

definition login_message :: message where
  "login_message = \<lparr>ms_method = POST, ms_uri = ''/login?next=a'', ms_host = ''localhost'', ms_port = 8080,
     ms_keep_alive = True, ms_cookies = [(''sid'', ''12''), (''lang'', ''en''), (''sid'', ''7'')],
     ms_headers = [(''Accept'', ''text/html'')], ms_body = ''id=1''\<rparr>"

lemma login_message_ok: "message_ok decimal_env login_message"
proof -
  have p: "lexical_port decimal_env (to_string 8080) = Some 8080"
    using to_string_digits [of _ 8080] by (simp add: decimal_env_def list_all_iff)
  have c: "list_all cookie_ok (ms_cookies login_message)"
    by (simp add: login_message_def cookie_ok_def is_name_start_def is_name_def char_class_defs)
  have h: "list_all header_ok (ms_headers login_message)"
    by (simp add: login_message_def header_ok_def is_space_def not_newline_def)
  have d: "list_all is_digit (to_string n)" for n using to_string_digits by (auto simp: list_all_iff)
  show ?thesis using p c h d
    by (simp add: message_ok_def login_message_def request_line_ok_def handled_header_def header_name_defs
        decimal_env_def is_space_def not_colon_def not_newline_def)
qed

lemma message_roundtrip_witness:
  "\<exists>rq. process_stream decimal_env \<lparr>is_rest = print_message login_message @ ''GET'', is_good = True\<rparr>
      (new_request ''10.0.0.1'') = (Inr 0, rq, \<lparr>is_rest = ''GET'', is_good = True\<rparr>) \<and>
    rq_host rq = ''localhost'' \<and> rq_port rq = 8080 \<and> rq_keep_alive rq \<and>
    rq_cookies rq = [(''sid'', ''12''), (''lang'', ''en'')] \<and> rq_args_map rq = [(''next'', ''a'')] \<and>
    rq_body rq = ''id=1''"
proof -
  have "map split_item (segments (tl (dropWhile (\<lambda>c. c \<noteq> CHR ''?'') (ms_uri login_message)))) = [KV ''next'' ''a'']"
    by code_simp
  then have "rq_host rq = ''localhost'' \<and> rq_port rq = 8080 \<and> rq_keep_alive rq \<and>
      rq_cookies rq = [(''sid'', ''12''), (''lang'', ''en'')] \<and> rq_args_map rq = [(''next'', ''a'')] \<and>
      rq_body rq = ''id=1''" if "rq = parsed ca login_message" for rq ca
    using that by (simp add: parsed_upto_def) (simp add: login_message_def emplace_def)
  with message_roundtrip [OF login_message_ok, of "''GET''" "new_request ''10.0.0.1''"] show ?thesis by blast
qed

end
