(* ===== verification/Pipeline.thy ===== *)
theory Pipeline
  imports Session Http_Message
begin

text \<open>
  Session and parser together, against a server that reads no streams at all: it is handed the
  messages of a connection one after the other, and answers each before it takes the next. However
  the bytes of the messages are cut into reads, and however reads and writes interleave, the
  session behaves as that server.
\<close>

section \<open>Where a message ends\<close>

definition lines :: "string list \<Rightarrow> string" where
  "lines ls = concat (map (\<lambda>l. l @ [CR, LF]) ls)"

definition line_ok :: "string \<Rightarrow> bool" where
  "line_ok l \<longleftrightarrow> l \<noteq> [] \<and> list_all not_newline l"

lemma line_ok_chars: "line_ok l \<Longrightarrow> CR \<notin> set l \<and> LF \<notin> set l"
  by (auto simp: line_ok_def list_all_iff not_newline_def)

text \<open>The first empty line ends the head: no separator ends earlier.\<close>

lemma separator_after_lines:
  "list_all line_ok ls \<Longrightarrow> lines ls @ [CR, LF] @ t = a @ [CR, LF, CR, LF] @ b \<Longrightarrow>
   length (lines ls) \<le> length a + 2"
proof (induction ls arbitrary: a)
  case (Cons l ls)
  let ?s = "lines ls @ [CR, LF] @ t"
  have l: "CR \<notin> set l" and ls: "list_all line_ok ls" using Cons.prems(1) line_ok_chars by simp_all
  have eq: "l @ CR # LF # ?s = a @ [CR, LF, CR, LF] @ b"
    using Cons.prems(2) by (simp add: lines_def)
  have at_l: "length (lines (l # ls)) \<le> length a + 2" if "?s = CR # LF # b" "length a = length l"
  proof -
    have "ls = []"
    proof (rule ccontr)
      assume "ls \<noteq> []"
      then obtain l' ls' where c: "ls = l' # ls'" by (cases ls) auto
      then obtain x xs where "l' = x # xs" "CR \<notin> set l'"
        using ls line_ok_chars [of l'] by (cases l') (auto simp: line_ok_def)
      then show False using that c by (simp add: lines_def)
    qed
    then show ?thesis using that by (simp add: lines_def)
  qed
  from eq consider us where "l = a @ us" "us @ CR # LF # ?s = [CR, LF, CR, LF] @ b"
    | us where "l @ us = a" "CR # LF # ?s = us @ [CR, LF, CR, LF] @ b"
    by (auto simp: append_eq_append_conv2)
  then show ?case
  proof cases
    case (1 us)
    then have "us = []" using l by (cases us) auto
    then show ?thesis using 1 at_l by simp
  next
    case (2 us)
    consider "us = []" | x where "us = [x]" | x y vs where "us = x # y # vs"
      by (metis list.exhaust)
    then show ?thesis
    proof cases
      case 1
      then show ?thesis using 2 at_l by simp
    next
      case (3 x y vs)
      have "?s = vs @ [CR, LF, CR, LF] @ b" using 2(2) 3 by auto
      then have "length (lines ls) \<le> length vs + 2" by (rule Cons.IH [OF ls])
      then show ?thesis using 2 3 by (auto simp: lines_def)
    qed (use 2 in simp)
  qed
qed (simp add: lines_def)

lemma not_space_not_newline: "not_space x \<Longrightarrow> not_newline x"
  by (auto simp: is_space_def not_newline_def)

lemma message_head_lines:
  assumes "message_ok env msg"
  shows "\<exists>ls. list_all line_ok ls \<and> ls \<noteq> [] \<and> message_head msg = lines ls @ [CR, LF]"
proof -
  let ?hs = "ms_headers msg @ handled_headers msg"
  let ?l = "method_to_str (ms_method msg) @ '' '' @ ms_uri msg @ '' HTTP/1.1''"
  have "list_all header_ok ?hs" using assms handled_headers_ok by (simp add: message_ok_def)
  moreover have "line_ok (k @ '': '' @ v)" if "header_ok (k, v)" for k v
  proof -
    have "list_all not_newline k" using that not_space_not_newline by (auto simp: header_ok_def list_all_iff)
    moreover have "not_newline CHR '':''" "not_newline CHR '' ''" by (simp_all add: not_newline_def)
    ultimately show ?thesis using that by (simp add: header_ok_def line_ok_def)
  qed
  ultimately have hs: "list_all line_ok (map (\<lambda>(k, v). k @ '': '' @ v) ?hs)"
    unfolding list_all_iff by fastforce
  have m: "ms_method msg \<noteq> M_unknown" "list_all not_space (ms_uri msg)"
    using assms by (simp_all add: message_ok_def request_line_ok_def)
  have "list_all not_newline (ms_uri msg)" using m(2) not_space_not_newline by (simp add: list_all_iff)
  then have "line_ok ?l" using method_str_ok [OF m(1)] name_no_newline
    by (simp add: line_ok_def) (simp add: not_newline_def)
  moreover have "concat (map header_line hs) = lines (map (\<lambda>(k, v). k @ '': '' @ v) hs)" for hs
    by (induction hs) (auto simp: header_line_def lines_def)
  ultimately show ?thesis using hs
    by (intro exI [of _ "?l # map (\<lambda>(k, v). k @ '': '' @ v) ?hs"])
      (simp add: message_head_def print_request_def lines_def)
qed

lemma head_within:
  assumes ok: "message_ok env msg" and sep: "has_separator p" and eq: "p @ q = message_head msg @ t"
  shows "\<exists>b. p = message_head msg @ b \<and> b @ q = t"
proof -
  obtain ls where ls: "list_all line_ok ls" "message_head msg = lines ls @ [CR, LF]"
    using message_head_lines [OF ok] by blast
  obtain a b where ab: "p = a @ [CR, LF, CR, LF] @ b"
    using sep by (auto simp: has_separator_def header_body_separator_def)
  have "lines ls @ [CR, LF] @ t = a @ [CR, LF, CR, LF] @ b @ q" using eq ab ls(2) by simp
  from separator_after_lines [OF ls(1) this] have "length (message_head msg) \<le> length p"
    by (simp add: ls(2) ab)
  then have "take (length (message_head msg)) p = message_head msg"
    using arg_cong [OF eq, of "take (length (message_head msg))"] by simp
  then have "p = message_head msg @ drop (length (message_head msg)) p" by (metis append_take_drop_id)
  then show ?thesis using eq by (metis append.assoc append_same_eq same_append_eq)
qed

lemma has_separator_head: "message_ok env msg \<Longrightarrow> has_separator (message_head msg @ t)"
proof -
  assume "message_ok env msg"
  then obtain ls where ls: "ls \<noteq> []" "message_head msg = lines ls @ [CR, LF]"
    using message_head_lines by blast
  then obtain xs l where "ls = xs @ [l]" by (metis rev_exhaust)
  then have "message_head msg @ t = (lines xs @ l) @ [CR, LF, CR, LF] @ t" using ls by (simp add: lines_def)
  then show ?thesis unfolding has_separator_def header_body_separator_def by fastforce
qed

section \<open>The server that is handed messages\<close>

text \<open>
  A client as this server sees it: the messages that were answered, the responses, the request as the
  last host left it, and whether another message is taken.
\<close>

record client =
  cl_port :: port_type
  cl_answered :: "message list"
  cl_responses :: "response list"
  cl_request :: request
  cl_open :: bool

definition new_client :: "string \<Rightarrow> port_type \<Rightarrow> client" where
  "new_client client_address port = \<lparr>cl_port = port, cl_answered = [], cl_responses = [],
     cl_request = new_request client_address, cl_open = True\<rparr>"

definition answered :: "message \<Rightarrow> response \<Rightarrow> request \<Rightarrow> bool \<Rightarrow> client \<Rightarrow> client" where
  "answered m r rq opn c = c\<lparr>cl_answered := cl_answered c @ [m], cl_responses := cl_responses c @ [r],
     cl_request := rq, cl_open := opn\<rparr>"

text \<open>A turn: one whole message is dispatched, in one step, from the world the last one has left.\<close>

inductive turn :: "'w manager \<Rightarrow> string list \<Rightarrow> client \<Rightarrow> 'w \<Rightarrow> client \<Rightarrow> 'w \<Rightarrow> bool" for mgr names where
  answer: "cl_open c \<Longrightarrow> server_name \<in> set names \<or> names = [] \<and> server_name = [] \<Longrightarrow>
     dispatch mgr (cl_port c) server_name (parsed (rq_client_address (cl_request c)) m) w = Some (Inr r, rq, w') \<Longrightarrow>
     turn mgr names c w (answered m r rq (rq_keep_alive rq) c) w'"
| failure: "cl_open c \<Longrightarrow> server_name \<in> set names \<or> names = [] \<and> server_name = [] \<Longrightarrow>
     dispatch mgr (cl_port c) server_name (parsed (rq_client_address (cl_request c)) m) w = Some (Inl e, rq, w') \<Longrightarrow>
     turn mgr names c w (answered m (phony_response server_name rq (session_error_status e)) rq False c) w'"

definition turns :: "'w manager \<Rightarrow> string list \<Rightarrow> client \<Rightarrow> 'w \<Rightarrow> client \<Rightarrow> 'w \<Rightarrow> bool" where
  "turns mgr names c w c' w' \<longleftrightarrow> c' = c \<and> w' = w \<or> turn mgr names c w c' w'"

inductive serves :: "'w manager \<Rightarrow> string list \<Rightarrow> client \<Rightarrow> 'w \<Rightarrow> client \<Rightarrow> 'w \<Rightarrow> bool" for mgr names c0 w0 where
  none: "serves mgr names c0 w0 c0 w0"
| turn: "serves mgr names c0 w0 c w \<Longrightarrow> turn mgr names c w c' w' \<Longrightarrow> serves mgr names c0 w0 c' w'"

lemma answered_sel [simp]:
  "cl_port (answered m r rq opn c) = cl_port c" "cl_answered (answered m r rq opn c) = cl_answered c @ [m]"
  "cl_responses (answered m r rq opn c) = cl_responses c @ [r]" "cl_request (answered m r rq opn c) = rq"
  "cl_open (answered m r rq opn c) = opn"
  by (simp_all add: answered_def)

lemma new_client_sel [simp]:
  "cl_port (new_client ca port) = port" "cl_answered (new_client ca port) = []" "cl_responses (new_client ca port) = []"
  "cl_request (new_client ca port) = new_request ca" "cl_open (new_client ca port)"
  by (simp_all add: new_client_def)

lemma serves_turns: "serves mgr names c0 w0 c w \<Longrightarrow> turns mgr names c w c' w' \<Longrightarrow> serves mgr names c0 w0 c' w'"
  by (auto simp: turns_def intro: serves.turn)

section \<open>Runs of a session\<close>

text \<open>The steps of \<open>Session\<close>, with what arrives in each and whether a read fails.\<close>

inductive session_event :: "req_env \<Rightarrow> 'w manager \<Rightarrow> string list \<Rightarrow> 'w session \<Rightarrow> string \<Rightarrow> bool \<Rightarrow> 'w session \<Rightarrow> bool"
  for env mgr names where
  event_read: "read_complete (ss_read s) (ss_stream_buffer s) arrived \<Longrightarrow>
     server_name \<in> set names \<or> names = [] \<and> server_name = [] \<Longrightarrow>
     request_handler env mgr server_name False
       (s\<lparr>ss_read := No_read, ss_stream_buffer := ss_stream_buffer s @ arrived\<rparr>) = Some s' \<Longrightarrow>
     session_event env mgr names s arrived False s'"
| event_read_error: "ss_read s \<noteq> No_read \<Longrightarrow> session_event env mgr names s arrived True
     (s\<lparr>ss_read := No_read, ss_stream_buffer := ss_stream_buffer s @ arrived\<rparr>)"
| event_write: "ss_sending s \<Longrightarrow> session_event env mgr names s [] False (response_handler err s)"

lemma session_event_step: "(\<exists>arrived bad. session_event env mgr names s arrived bad s') \<longleftrightarrow> session_step env mgr names s s'"
proof
  assume "\<exists>arrived bad. session_event env mgr names s arrived bad s'"
  then obtain arrived bad where "session_event env mgr names s arrived bad s'" by blast
  then show "session_step env mgr names s s'"
  proof cases
    case (event_write err)
    then show ?thesis by (cases err) (auto intro: session_step.intros)
  qed (auto intro: session_step.intros)
qed (auto elim!: session_stepE intro: session_event.intros)

inductive session_run :: "req_env \<Rightarrow> 'w manager \<Rightarrow> string list \<Rightarrow> 'w session \<Rightarrow> string \<Rightarrow> bool \<Rightarrow> 'w session \<Rightarrow> bool"
  for env mgr names s0 where
  run_start: "session_run env mgr names s0 [] False s0"
| run_event: "session_run env mgr names s0 inp lost s \<Longrightarrow> session_event env mgr names s arrived bad s' \<Longrightarrow>
     session_run env mgr names s0 (inp @ arrived) (lost \<or> bad) s'"

lemma session_run_reachable:
  "session_run env mgr names (run_session ca port w0) inp lost s \<Longrightarrow> reachable env mgr names s"
proof (induction rule: session_run.induct)
  case run_start
  show ?case by (rule reachable.start)
qed (use session_event_step reachable.step in blast)

section \<open>One completed read\<close>

lemma process_request_complete:
  assumes r: "read_request env s = (Inr 0, s1)" and p: "process_request env mgr sn s = Some s'"
  obtains ans rq w where "dispatch mgr (ss_server_port s1) sn (ss_request s1) (ss_world s1) = Some (ans, rq, w)"
    "ss_request s' = rq" "ss_world s' = w" "ss_stream_buffer s' = ss_stream_buffer s1"
    "ss_processing_new_request s'" "ss_server_port s' = ss_server_port s1"
    "ss_produced s' = ss_produced s1 @ [case ans of Inr r \<Rightarrow> r | Inl e \<Rightarrow> phony_response sn rq (session_error_status e)]"
    "ss_read s' = (if \<not> isl ans \<and> rq_keep_alive rq then Read_until_separator else ss_read s1)"
proof -
  let ?s1 = "s1\<lparr>ss_processing_new_request := True\<rparr>"
  obtain ans rq w where d: "dispatch mgr (ss_server_port s1) sn (ss_request s1) (ss_world s1) = Some (ans, rq, w)"
    using p r by (auto simp: process_request_def Let_def split: option.splits prod.splits)
  show ?thesis
    by (rule that [OF d])
      (use p r d in \<open>auto simp: process_request_def Let_def session_handle_error_def send_phony_def
        send_response_def add_response_handler_def add_request_handler_def split: sum.splits if_splits\<close>)
qed

lemma process_request_missing:
  "read_request env s = (Inr n, s1) \<Longrightarrow> n \<noteq> 0 \<Longrightarrow> process_request env mgr sn s =
     Some (s1\<lparr>ss_processing_new_request := False, ss_read := Read_at_least (unat n)\<rparr>)"
  by (simp add: process_request_def)

lemma response_handler_sel:
  "ss_read (response_handler err s) = ss_read s" "ss_produced (response_handler err s) = ss_produced s"
  "ss_request (response_handler err s) = ss_request s" "ss_world (response_handler err s) = ss_world s"
  "ss_stream_buffer (response_handler err s) = ss_stream_buffer s"
  "ss_processing_new_request (response_handler err s) = ss_processing_new_request s"
  "ss_server_port (response_handler err s) = ss_server_port s"
  by (simp_all add: response_handler_def add_response_handler_def Let_def)

section \<open>The simulation\<close>

abbreviation printed :: "message list \<Rightarrow> string" where
  "printed ms \<equiv> concat (map print_message ms)"

text \<open>
  How a session stands to the client of that server, when \<open>inp\<close> has arrived: between two messages the
  buffer holds what has arrived of the next ones; inside a body the request holds it; or nothing is
  read any more. The world is not mentioned.
\<close>

definition mirrors :: "client \<Rightarrow> 'w session \<Rightarrow> bool" where
  "mirrors c s \<longleftrightarrow> cl_port c = ss_server_port s \<and> cl_responses c = ss_produced s \<and>
     length (ss_produced s) = length (cl_answered c)"

inductive pipe :: "client \<Rightarrow> message list \<Rightarrow> string \<Rightarrow> bool \<Rightarrow> 'w session \<Rightarrow> bool" where
  idle: "mirrors c s \<Longrightarrow> cl_open c \<Longrightarrow> cl_request c = ss_request s \<Longrightarrow>
     ss_processing_new_request s \<Longrightarrow> ss_read s = Read_until_separator \<Longrightarrow>
     inp = printed (cl_answered c) @ ss_stream_buffer s \<Longrightarrow> \<not> lost \<Longrightarrow> pipe c todo inp lost s"
| in_body: "mirrors c s \<Longrightarrow> cl_open c \<Longrightarrow> ss_request s = parsed_upto (rq_client_address (cl_request c)) m got \<Longrightarrow>
     \<not> ss_processing_new_request s \<Longrightarrow> ss_read s = Read_at_least (length (ms_body m) - length got) \<Longrightarrow>
     length got < length (ms_body m) \<Longrightarrow> ss_stream_buffer s = [] \<Longrightarrow>
     inp = printed (cl_answered c) @ message_head m @ got \<Longrightarrow> \<not> lost \<Longrightarrow> pipe c (m # todo) inp lost s"
| closed: "mirrors c s \<Longrightarrow> ss_read s = No_read \<Longrightarrow> cl_open c \<longrightarrow> lost \<Longrightarrow> pipe c todo inp lost s"

text \<open>It depends on nothing but these fields, and ignores the sending side.\<close>

lemma pipe_cong:
  assumes "pipe c todo inp lost s"
    and "ss_server_port s' = ss_server_port s" "ss_produced s' = ss_produced s" "ss_request s' = ss_request s"
      "ss_processing_new_request s' = ss_processing_new_request s" "ss_read s' = ss_read s"
      "ss_stream_buffer s' = ss_stream_buffer s"
  shows "pipe c todo inp lost s'"
  using assms(1)
proof cases
  case idle
  then show ?thesis using assms(2-) by (intro pipe.idle) (simp_all add: mirrors_def)
next
  case (in_body m got todo1)
  then show ?thesis using assms(2-) unfolding in_body(1)
    by (intro pipe.in_body [where got = got]) (simp_all add: mirrors_def)
next
  case closed
  then show ?thesis using assms(2-) by (intro pipe.closed) (simp_all add: mirrors_def)
qed

lemma pipe_world [simp]: "pipe c todo inp lost (s\<lparr>ss_world := w\<rparr>) = pipe c todo inp lost s"
  by (rule iffI; erule pipe_cong; simp)

lemma pipe_start: "pipe (new_client ca port) msgs [] False (run_session ca port w)"
  by (rule idle) (simp_all add: run_session_def mk_session_def add_request_handler_def mirrors_def)

lemma prefix_of_body:
  assumes "g @ x = b @ y" "length b \<le> length g"
  shows "take (length b) g = b" "drop (length b) g @ x = y"
proof -
  have "take (length b) (g @ x) = b" "drop (length b) (g @ x) = y" unfolding assms(1) by simp_all
  then show "take (length b) g = b" "drop (length b) g @ x = y" using assms(2) by simp_all
qed

text \<open>What a completed read leads to: the client stays, or takes the turn of its next message.\<close>

definition moved :: "'w manager \<Rightarrow> string list \<Rightarrow> client \<Rightarrow> message list \<Rightarrow> 'w \<Rightarrow> string \<Rightarrow> bool \<Rightarrow> 'w session \<Rightarrow> bool" where
  "moved mgr names c todo w inp lost s' \<longleftrightarrow> (\<exists>c' todo'. turns mgr names c w c' (ss_world s') \<and>
     cl_answered c @ todo = cl_answered c' @ todo' \<and> pipe c' todo' inp lost s')"

text \<open>A read that has filled the request of \<open>m\<close> up to what arrived.\<close>

lemma pipe_after_read:
  assumes lost: "\<not> lost" and mi: "mirrors c s" and opn: "cl_open c"
    and ok: "message_ok env m" and p: "ss_read s = No_read"
    and rd: "read_request env s = (Inr (of_nat (length (ms_body m) - length b)),
      s\<lparr>ss_request := parsed_upto (rq_client_address (cl_request c)) m (take (length (ms_body m)) b),
        ss_stream_buffer := drop (length (ms_body m)) b\<rparr>)"
    and sn: "sn \<in> set names \<or> names = [] \<and> sn = []"
    and pr: "process_request env mgr sn s = Some s'"
    and inp: "inp = printed (cl_answered c) @ message_head m @ b"
    and all: "inp @ rest = printed (cl_answered c @ m # todo)"
  shows "moved mgr names c (m # todo) (ss_world s) inp lost s'"
proof -
  let ?L = "length (ms_body m)"
  have lt: "?L < 2 ^ 64" using ok by (simp add: message_ok_def)
  have un: "unat (of_nat k :: 64 word) = k" if "k \<le> ?L" for k
    using that lt by (simp add: unat_of_nat take_bit_nat_eq_self)
  have b: "b @ rest = ms_body m @ printed todo" using inp all by (simp add: print_message_def)
  show ?thesis
  proof (cases "length b < ?L")
    case True
    then have nz: "(of_nat (?L - length b) :: 64 word) \<noteq> 0"
      using un [of "?L - length b"] by (auto simp: word_unat_eq_iff)
    from process_request_missing [OF rd nz, of mgr sn] pr
    have s': "s' = s\<lparr>ss_request := parsed_upto (rq_client_address (cl_request c)) m b, ss_stream_buffer := [],
        ss_processing_new_request := False, ss_read := Read_at_least (?L - length b)\<rparr>"
      using True un [of "?L - length b"] by simp
    have "pipe c (m # todo) inp lost s'"
      by (rule in_body [where got = b]) (use mi opn True inp s' lost in \<open>simp_all add: mirrors_def\<close>)
    moreover have "ss_world s' = ss_world s" by (simp add: s')
    ultimately show ?thesis unfolding moved_def turns_def by blast
  next
    case False
    then have full: "take ?L b = ms_body m" "drop ?L b @ rest = printed todo"
      using prefix_of_body [OF b] by simp_all
    have "of_nat (?L - length b) = (0 :: 64 word)" using False by simp
    note rd0 = rd [unfolded this full(1)]
    have b': "b = ms_body m @ drop ?L b" using full(1) by (metis append_take_drop_id)
    obtain ans rq' w' where d: "dispatch mgr (cl_port c) sn (parsed (rq_client_address (cl_request c)) m) (ss_world s) = Some (ans, rq', w')"
      and s': "ss_request s' = rq'" "ss_world s' = w'" "ss_stream_buffer s' = drop ?L b"
        "ss_processing_new_request s'" "ss_server_port s' = ss_server_port s"
        "ss_produced s' = ss_produced s @ [case ans of Inr r \<Rightarrow> r | Inl e \<Rightarrow> phony_response sn rq' (session_error_status e)]"
        "ss_read s' = (if \<not> isl ans \<and> rq_keep_alive rq' then Read_until_separator else No_read)"
    proof -
      let ?s1 = "s\<lparr>ss_request := parsed (rq_client_address (cl_request c)) m, ss_stream_buffer := drop ?L b\<rparr>"
      have "ss_server_port ?s1 = cl_port c" "ss_request ?s1 = parsed (rq_client_address (cl_request c)) m"
        "ss_world ?s1 = ss_world s" "ss_stream_buffer ?s1 = drop ?L b" "ss_produced ?s1 = ss_produced s" "ss_read ?s1 = No_read"
        using p mi by (simp_all add: mirrors_def)
      note sel = this
      have "ss_server_port s = cl_port c" using mi by (simp add: mirrors_def)
      show thesis by (rule process_request_complete [OF rd0 pr, unfolded sel]) (rule that, simp_all add: \<open>ss_server_port s = cl_port c\<close>)
    qed
    have inp': "inp = printed (cl_answered (answered m r q o1 c)) @ drop ?L b" for r q o1
      using inp b' by (simp add: print_message_def)
    have mi': "mirrors (answered m (case ans of Inr r \<Rightarrow> r | Inl e \<Rightarrow> phony_response sn rq' (session_error_status e)) rq' o1 c) s'" for o1
      using mi s' by (simp add: mirrors_def)
    have "\<exists>c'. turn mgr names c (ss_world s) c' w' \<and> cl_answered c' = cl_answered c @ [m] \<and> pipe c' todo inp lost s'"
    proof (cases ans)
      case (Inl e)
      have "pipe (answered m (phony_response sn rq' (session_error_status e)) rq' False c) todo inp lost s'"
        by (rule closed) (use mi' [of False] s' Inl in simp_all)
      then show ?thesis using turn.failure [OF opn sn d [unfolded Inl]] by (metis answered_sel(2))
    next
      case (Inr r)
      have "pipe (answered m r rq' (rq_keep_alive rq') c) todo inp lost s'"
      proof (cases "rq_keep_alive rq'")
        case True
        show ?thesis by (rule idle) (use mi' [of True] s' Inr True inp' lost in simp_all)
      next
        case False
        show ?thesis by (rule closed) (use mi' [of False] s' Inr False in simp_all)
      qed
      then show ?thesis using turn.answer [OF opn sn d [unfolded Inr]] by (metis answered_sel(2))
    qed
    then obtain c' where "turn mgr names c (ss_world s) c' w'" "cl_answered c' = cl_answered c @ [m]" "pipe c' todo inp lost s'"
      by blast
    then show ?thesis unfolding moved_def turns_def s'(2) by (intro exI [of _ c'] exI [of _ todo]) simp
  qed
qed

lemma pipe_read_idle:
  assumes lost: "\<not> lost" and mi: "mirrors c s" and opn: "cl_open c"
    and st: "cl_request c = ss_request s" "ss_processing_new_request s"
    and inp: "inp = printed (cl_answered c) @ ss_stream_buffer s"
    and ok: "\<forall>m\<in>set todo. message_ok env m"
    and sep: "has_separator (ss_stream_buffer s @ arrived)"
    and sn: "sn \<in> set names \<or> names = [] \<and> sn = []"
    and pr: "process_request env mgr sn (s\<lparr>ss_read := No_read, ss_stream_buffer := ss_stream_buffer s @ arrived\<rparr>) = Some s'"
    and all: "(inp @ arrived) @ rest = printed (cl_answered c @ todo)"
  shows "moved mgr names c todo (ss_world s) (inp @ arrived) lost s'"
proof -
  let ?s = "s\<lparr>ss_read := No_read, ss_stream_buffer := ss_stream_buffer s @ arrived\<rparr>"
  let ?buf = "ss_stream_buffer s @ arrived"
  have buf: "?buf @ rest = printed todo" using inp all by simp
  have "todo \<noteq> []"
  proof
    assume "todo = []"
    then have "?buf = []" using buf by simp
    then show False using sep by (simp add: has_separator_def header_body_separator_def)
  qed
  then obtain m todo1 where todo: "todo = m # todo1" by (cases todo) auto
  have okm: "message_ok env m" using ok todo by simp
  have "?buf @ rest = message_head m @ ms_body m @ printed todo1"
    using buf todo by (simp add: print_message_def)
  from head_within [OF okm sep this] obtain b where b: "?buf = message_head m @ b" by blast
  have rd: "read_request env ?s = (Inr (of_nat (length (ms_body m) - length b)),
      ?s\<lparr>ss_request := parsed_upto (rq_client_address (cl_request c)) m (take (length (ms_body m)) b),
        ss_stream_buffer := drop (length (ms_body m)) b\<rparr>)"
    using st process_stream_message [OF okm okm, of b "ss_request s"]
    by (simp add: read_request_def b)
  have "moved mgr names c (m # todo1) (ss_world ?s) (inp @ arrived) lost s'"
  proof (rule pipe_after_read [OF lost _ opn okm _ rd sn pr])
    show "inp @ arrived = printed (cl_answered c) @ message_head m @ b" using inp b by simp
    show "(inp @ arrived) @ rest = printed (cl_answered c @ m # todo1)" using all unfolding todo .
  qed (use mi in \<open>simp_all add: mirrors_def\<close>)
  then show ?thesis unfolding todo by simp
qed

lemma pipe_read_body:
  assumes lost: "\<not> lost" and mi: "mirrors c s" and opn: "cl_open c"
    and st: "\<not> ss_processing_new_request s" "ss_stream_buffer s = []"
    and rq: "ss_request s = parsed_upto (rq_client_address (cl_request c)) m got" and le: "length got < length (ms_body m)"
    and inp: "inp = printed (cl_answered c) @ message_head m @ got" and okm: "message_ok env m"
    and sn: "sn \<in> set names \<or> names = [] \<and> sn = []"
    and pr: "process_request env mgr sn (s\<lparr>ss_read := No_read, ss_stream_buffer := ss_stream_buffer s @ arrived\<rparr>) = Some s'"
    and all: "(inp @ arrived) @ rest = printed (cl_answered c @ m # todo1)"
  shows "moved mgr names c (m # todo1) (ss_world s) (inp @ arrived) lost s'"
proof -
  let ?s = "s\<lparr>ss_read := No_read, ss_stream_buffer := ss_stream_buffer s @ arrived\<rparr>"
  let ?L = "length (ms_body m)"
  have tk: "got @ take (?L - length got) arrived = take ?L (got @ arrived)"
    "drop (?L - length got) arrived = drop ?L (got @ arrived)"
    "?L - length got - length arrived = ?L - length (got @ arrived)"
    using le by simp_all
  have rd: "read_request env ?s = (Inr (of_nat (?L - length (got @ arrived))),
      ?s\<lparr>ss_request := parsed_upto (rq_client_address (cl_request c)) m (take ?L (got @ arrived)),
        ss_stream_buffer := drop ?L (got @ arrived)\<rparr>)"
    using st rq again_parsed [OF okm less_imp_le [OF le], of arrived "rq_client_address (cl_request c)", unfolded tk]
    by (simp add: read_request_def)
  have "moved mgr names c (m # todo1) (ss_world ?s) (inp @ arrived) lost s'"
  proof (rule pipe_after_read [OF lost _ opn okm _ rd sn pr])
    show "inp @ arrived = printed (cl_answered c) @ message_head m @ got @ arrived" using inp by simp
    show "(inp @ arrived) @ rest = printed (cl_answered c @ m # todo1)" using all .
  qed (use mi in \<open>simp_all add: mirrors_def\<close>)
  then show ?thesis by simp
qed

lemma pipe_read:
  assumes pipe: "pipe c todo inp lost s" and ok: "\<forall>m\<in>set todo. message_ok env m"
    and rc: "read_complete (ss_read s) (ss_stream_buffer s) arrived"
    and sn: "sn \<in> set names \<or> names = [] \<and> sn = []"
    and pr: "process_request env mgr sn (s\<lparr>ss_read := No_read, ss_stream_buffer := ss_stream_buffer s @ arrived\<rparr>) = Some s'"
    and all: "(inp @ arrived) @ rest = printed (cl_answered c @ todo)"
  shows "moved mgr names c todo (ss_world s) (inp @ arrived) lost s'"
  using pipe
proof cases
  case idle
  have "has_separator (ss_stream_buffer s @ arrived)" using rc idle(5) by (simp add: read_complete_def)
  from pipe_read_idle [OF idle(7,1-4,6) ok this sn pr all] show ?thesis .
next
  case (in_body m got todo1)
  have "message_ok env m" using ok in_body(1) by simp
  from pipe_read_body [OF in_body(10,2,3,5,8,4,7,9) this sn pr all [unfolded in_body(1)]]
  show ?thesis unfolding in_body(1) .
qed (use rc in \<open>simp add: read_complete_def\<close>)

text \<open>Every event of a session is a turn of its client or none.\<close>

lemma pipe_event:
  assumes "session_event env mgr names s arrived bad s'" and pipe: "pipe c todo inp lost s"
    and ok: "\<forall>m\<in>set todo. message_ok env m" and all: "(inp @ arrived) @ rest = printed (cl_answered c @ todo)"
  shows "moved mgr names c todo (ss_world s) (inp @ arrived) (lost \<or> bad) s'"
  using assms(1)
proof cases
  case (event_read server_name)
  then have "process_request env mgr server_name (s\<lparr>ss_read := No_read, ss_stream_buffer := ss_stream_buffer s @ arrived\<rparr>) = Some s'"
    by (simp add: request_handler_def)
  from pipe_read [OF pipe ok event_read(2,3) this all] event_read(1) show ?thesis by simp
next
  case event_read_error
  have "pipe c todo (inp @ arrived) True s'"
    using pipe unfolding event_read_error(2) by cases (rule closed; simp add: mirrors_def)+
  moreover have "ss_world s' = ss_world s" by (simp add: event_read_error(2))
  ultimately show ?thesis using event_read_error(1) unfolding moved_def turns_def by auto
next
  case (event_write err)
  have "pipe c todo inp lost s'"
    unfolding event_write(3) by (rule pipe_cong [OF pipe]) (simp_all add: response_handler_sel)
  moreover have "ss_world s' = ss_world s" by (simp add: event_write(3) response_handler_sel)
  ultimately show ?thesis using event_write(1,2) unfolding moved_def turns_def by auto
qed

lemma pipe_run:
  assumes "session_run env mgr names (run_session ca port w0) inp lost s"
    and ok: "\<forall>m\<in>set msgs. message_ok env m" and all: "inp @ rest = printed msgs"
  shows "\<exists>c todo. serves mgr names (new_client ca port) w0 c (ss_world s) \<and> msgs = cl_answered c @ todo \<and> pipe c todo inp lost s"
  using assms(1) all
proof (induction arbitrary: rest rule: session_run.induct)
  case run_start
  have "ss_world (run_session ca port w0) = w0" by (simp add: run_session_def mk_session_def add_request_handler_def)
  then show ?case
    by (intro exI [of _ "new_client ca port"] exI [of _ msgs]) (simp add: pipe_start serves.none)
next
  case (run_event inp lost s arrived bad s')
  from run_event.IH [of "arrived @ rest"] run_event.prems obtain c todo where
    c: "serves mgr names (new_client ca port) w0 c (ss_world s)" "msgs = cl_answered c @ todo" "pipe c todo inp lost s" by auto
  have "\<forall>m\<in>set todo. message_ok env m" "(inp @ arrived) @ rest = printed (cl_answered c @ todo)"
    using ok run_event.prems c(2) by auto
  from pipe_event [OF run_event.hyps(2) c(3) this] c(1,2) serves_turns show ?case
    unfolding moved_def by metis
qed

text \<open>What can be said of a client whose session is related to it.\<close>

lemma pipe_all_answered:
  assumes "pipe c todo (printed (cl_answered c @ todo)) lost s" "\<forall>m\<in>set todo. message_ok env m"
    and "ss_read s \<noteq> No_read" "\<not> read_complete (ss_read s) (ss_stream_buffer s) []"
  shows "todo = []"
  using assms(1)
proof cases
  case idle
  show ?thesis
  proof (rule ccontr)
    assume "todo \<noteq> []"
    then obtain m todo1 where t: "todo = m # todo1" by (cases todo) auto
    then have "ss_stream_buffer s = message_head m @ ms_body m @ printed todo1"
      using idle(6) by (simp add: print_message_def)
    then have "has_separator (ss_stream_buffer s)" using has_separator_head [of env m] assms(2) t by simp
    then show False using assms(4) idle(5) by (simp add: read_complete_def)
  qed
next
  case (in_body m got todo1)
  have "got = ms_body m @ printed todo1" using in_body(1,9) by (simp add: print_message_def)
  then show ?thesis using in_body(7) by simp
qed (use assms(3) in simp)

definition answers :: "client \<Rightarrow> message list \<Rightarrow> string \<Rightarrow> bool \<Rightarrow> 'w session \<Rightarrow> bool" where
  "answers c msgs rest lost s \<longleftrightarrow>
     cl_responses c = ss_produced s \<and> cl_answered c = take (length (ss_produced s)) msgs \<and>
     (ss_read s = No_read \<longleftrightarrow> \<not> cl_open c \<or> lost) \<and>
     (rest = [] \<and> ss_read s \<noteq> No_read \<and> \<not> read_complete (ss_read s) (ss_stream_buffer s) [] \<longrightarrow> cl_answered c = msgs) \<and>
     (\<not> ss_broken s \<longrightarrow> ss_sent s @ ss_queue s = cl_responses c)"

lemma pipe_answers:
  assumes p: "pipe c todo inp lost s" and msgs: "msgs = cl_answered c @ todo" and ok: "\<forall>m\<in>set msgs. message_ok env m"
    and all: "inp @ rest = printed msgs" and q: "queue_ok s"
  shows "answers c msgs rest lost s"
proof -
  have "mirrors c s" "ss_read s = No_read \<longleftrightarrow> \<not> cl_open c \<or> lost" using p by (cases; auto)+
  moreover have "todo = []" if "rest = []" "ss_read s \<noteq> No_read" "\<not> read_complete (ss_read s) (ss_stream_buffer s) []"
  proof (rule pipe_all_answered [OF _ _ that(2,3)])
    show "pipe c todo (printed (cl_answered c @ todo)) lost s" using p all that(1) msgs by simp
    show "\<forall>m\<in>set todo. message_ok env m" using ok msgs by simp
  qed
  ultimately show ?thesis using q msgs by (auto simp: answers_def mirrors_def queue_ok_def)
qed

text \<open>
  C3: Let a client send messages, cut into reads in any way, while its own reads of the responses
  succeed, fail or are late. The responses the session has produced and the world its hosts have
  left are those of a server that is handed the first of these messages one by one; it stops reading
  only when that server closes or a read fails; once all bytes have arrived and no read can
  complete, every message has been answered; and unless a write fails the responses are sent in order.
\<close>
theorem session_serves_messages:
  assumes run: "session_run env mgr names (run_session ca port w0) inp lost s"
    and ok: "list_all (message_ok env) msgs"
    and all: "inp @ rest = concat (map print_message msgs)"
  shows "\<exists>c. serves mgr names (new_client ca port) w0 c (ss_world s) \<and> answers c msgs rest lost s"
proof -
  have ok': "\<forall>m\<in>set msgs. message_ok env m" using ok by (simp add: list_all_iff)
  have "queue_ok s" by (rule reachable_queue_ok [OF session_run_reachable [OF run]])
  with pipe_run [OF run ok' all] pipe_answers [OF _ _ ok' all] show ?thesis by blast
qed

text \<open>A login whose body arrives after its head, at a server without hosts.\<close>

lemma login_run:
  fixes w0 :: 'w
  shows "\<exists>s. session_run decimal_env [] [] (run_session ca 8080 w0) (print_message login_message) False s \<and>
    length (ss_produced s) = 1 \<and> ss_read s = No_read"
proof -
  let ?m = login_message
  let ?s0 = "run_session ca 8080 w0"
  let ?a = "?s0\<lparr>ss_read := No_read, ss_stream_buffer := message_head ?m\<rparr>"
  let ?s1 = "?a\<lparr>ss_request := parsed_upto ca ?m [], ss_stream_buffer := [],
    ss_processing_new_request := False, ss_read := Read_at_least 4\<rparr>"
  let ?b = "?s1\<lparr>ss_read := No_read, ss_stream_buffer := ''id=1''\<rparr>"
  have s0: "ss_read ?s0 = Read_until_separator" "ss_stream_buffer ?s0 = []" "ss_processing_new_request ?s0"
      "ss_request ?s0 = new_request ca" "ss_server_port ?s0 = 8080" "ss_produced ?s0 = []"
    by (simp_all add: run_session_def add_request_handler_def mk_session_def)
  have body: "ms_body ?m = ''id=1''" by (simp add: login_message_def)
  note r = session_run.run_start [of decimal_env "[]" "[]" ?s0]
  have "read_request decimal_env ?a = (Inr 4, ?a\<lparr>ss_request := parsed_upto ca ?m [], ss_stream_buffer := []\<rparr>)"
    using process_stream_message [OF login_message_ok login_message_ok, of "[]" "new_request ca"]
    by (simp add: read_request_def s0 body new_request_def)
  from process_request_missing [OF this, of "[]" "[]"]
  have "process_request decimal_env [] [] ?a = Some ?s1" by simp
  then have r1: "session_run decimal_env [] [] ?s0 (message_head ?m) False ?s1"
    using session_run.run_event [OF r session_event.event_read [of ?s0 "message_head ?m" "[]" "[]" decimal_env "[]" ?s1]]
      has_separator_head [OF login_message_ok, of "[]"]
    by (simp add: s0 read_complete_def request_handler_def)
  have rd: "read_request decimal_env ?b = (Inr 0, ?b\<lparr>ss_request := parsed ca ?m, ss_stream_buffer := []\<rparr>)"
    using again_parsed [OF login_message_ok, of "[]" "''id=1''" ca] by (simp add: read_request_def body)
  have "dispatch [] 8080 [] (parsed ca ?m) w0 =
      Some (Inl (Host (Host_not_found (rq_host (parsed ca ?m)))), parsed ca ?m, w0) \<or>
      (\<exists>e. dispatch [] 8080 [] (parsed ca ?m) w0 = Some (Inl e, parsed ca ?m, w0))"
    by (subst (1 2) dispatch.simps) (simp add: manager_host_def find_host_def)
  then obtain e where d: "dispatch [] 8080 [] (parsed ca ?m) w0 = Some (Inl e, parsed ca ?m, w0)" by blast
  have "ss_server_port ?b = 8080" "ss_world ?b = w0" by (simp_all add: run_session_def add_request_handler_def mk_session_def)
  then obtain s2 where s2: "process_request decimal_env [] [] ?b = Some s2"
    using rd d by (simp add: process_request_def)
  have "length (ss_produced s2) = 1" "ss_read s2 = No_read"
    by (rule process_request_complete [OF rd s2]; simp add: s0 d run_session_def add_request_handler_def mk_session_def)+
  moreover have "session_run decimal_env [] [] ?s0 (message_head ?m @ ''id=1'') False s2"
    using session_run.run_event [OF r1 session_event.event_read [of ?s1 "''id=1''" "[]" "[]" decimal_env "[]" s2]] s2
    by (simp add: read_complete_def request_handler_def)
  ultimately show ?thesis by (auto simp: print_message_def body)
qed

lemma session_serves_messages_witness:
  "\<exists>(s :: unit session) c. serves [] [] (new_client ''10.0.0.1'' 8080) () c () \<and> cl_answered c = [login_message] \<and>
     cl_responses c = ss_produced s \<and> \<not> cl_open c \<and> ss_read s = No_read"
proof -
  obtain s :: "unit session" where s: "session_run decimal_env [] [] (run_session ''10.0.0.1'' 8080 ())
      (print_message login_message) False s" "length (ss_produced s) = 1" "ss_read s = No_read"
    using login_run [of "''10.0.0.1''" "()"] by (elim exE conjE)
  have ok: "list_all (message_ok decimal_env) [login_message]" using login_message_ok by simp
  have all: "print_message login_message @ [] = concat (map print_message [login_message])" by simp
  from session_serves_messages [OF s(1) ok all] obtain c where
    c: "serves [] [] (new_client ''10.0.0.1'' 8080) () c ()" "answers c [login_message] [] False s" by auto
  show ?thesis
    by (rule exI [of _ s], rule exI [of _ c]) (use c s(2,3) in \<open>simp add: answers_def\<close>)
qed

end
