(* ===== verification/Worker_Serves.thy ===== *)
theory Worker_Serves
  imports Worker Pipeline
begin

text \<open>
  A whole worker against a server without concurrency. The clients of a worker share its hosts and
  their state, and their reads and writes, the signals and new clients interleave in any way;
  nevertheless every request takes effect in one step, as if the server handled one message of one
  client at a time.
\<close>

section \<open>One message of one client at a time\<close>

text \<open>
  \<open>site_serves mgr names w0 cs w\<close>: from the world \<open>w0\<close>, the clients \<open>cs\<close> have been served up to the
  world \<open>w\<close>. Clients join, one of them has its turn, or the caches are cleared.
\<close>

inductive site_serves :: "'w manager \<Rightarrow> string list \<Rightarrow> 'w \<Rightarrow> client list \<Rightarrow> 'w \<Rightarrow> bool" for mgr names w0 where
  site_opens: "site_serves mgr names w0 [] w0"
| site_joined: "site_serves mgr names w0 cs w \<Longrightarrow> site_serves mgr names w0 (cs @ [new_client client_address port]) w"
| site_turn: "site_serves mgr names w0 cs w \<Longrightarrow> i < length cs \<Longrightarrow> turn mgr names (cs ! i) w c w' \<Longrightarrow>
     site_serves mgr names w0 (cs[i := c]) w'"
| site_clears: "site_serves mgr names w0 cs w \<Longrightarrow> manager_clear_cache mgr w = Some w' \<Longrightarrow> site_serves mgr names w0 cs w'"

lemma site_turns:
  assumes "site_serves mgr names w0 cs w" "i < length cs" "turns mgr names (cs ! i) w c w'"
  shows "site_serves mgr names w0 (cs[i := c]) w'"
  using assms site_turn [OF assms(1,2)] by (auto simp: turns_def)

section \<open>Runs of a worker\<close>

text \<open>The steps of \<open>Worker\<close>, with what has arrived from every client and whether a read of it has failed.\<close>

inductive worker_run :: "req_env \<Rightarrow> string list \<Rightarrow> 'w worker \<Rightarrow> (string \<times> bool) list \<Rightarrow> 'w worker \<Rightarrow> bool"
  for env names wk0 where
  worker_starts: "worker_run env names wk0 [] wk0"
| worker_signal: "worker_run env names wk0 hist wk \<Longrightarrow> \<not> wk_stopped wk \<Longrightarrow> wk_waiting wk \<Longrightarrow>
     signal_handler err sig (wk\<lparr>wk_waiting := False\<rparr>) = Runs wk' \<Longrightarrow> worker_run env names wk0 hist wk'"
| worker_accept: "worker_run env names wk0 hist wk \<Longrightarrow> \<not> wk_stopped wk \<Longrightarrow>
     k < length (wk_acceptors wk) \<Longrightarrow> snd (wk_acceptors wk ! k) \<Longrightarrow>
     accept_handler k err sk (accept_completes k wk) = Runs wk' \<Longrightarrow>
     worker_run env names wk0 (hist @ replicate (length (wk_sessions wk') - length (wk_sessions wk)) ([], False)) wk'"
| worker_client: "worker_run env names wk0 hist wk \<Longrightarrow> \<not> wk_stopped wk \<Longrightarrow> i < length (wk_sessions wk) \<Longrightarrow>
     session_event env (wk_manager wk) names (session_in wk i) arrived bad s' \<Longrightarrow>
     worker_run env names wk0 (hist[i := (fst (hist ! i) @ arrived, snd (hist ! i) \<or> bad)]) (session_back wk i s')"

text \<open>These are exactly the worker's own runs.\<close>

lemma worker_run_reachable: "worker_run env names wk0 hist wk \<Longrightarrow> worker_reachable env names (Runs wk0) (Runs wk)"
proof (induction rule: worker_run.induct)
  case (worker_signal hist wk err sig wk')
  then show ?case using worker_step.signal [of wk env names err sig] by (auto intro: worker_reachable.next_step)
next
  case (worker_accept hist wk k err sk wk')
  then show ?case using worker_step.accept [of wk k env names err sk] by (auto intro: worker_reachable.next_step)
next
  case (worker_client hist wk i arrived bad s')
  have "session_step env (wk_manager wk) names (session_in wk i) s'"
    using worker_client.hyps(4) session_event_step by blast
  from worker_step.client [OF worker_client.hyps(2,3) this] worker_client.IH show ?case
    by (blast intro: worker_reachable.next_step)
qed (rule worker_reachable.here)

lemma reachable_worker_run:
  "worker_reachable env names (Runs wk0) (Runs wk) \<Longrightarrow> \<exists>hist. worker_run env names wk0 hist wk"
proof (induction "Runs wk" arbitrary: wk rule: worker_reachable.induct)
  case (next_step wk wk')
  then obtain hist where h: "worker_run env names wk0 hist wk" by blast
  from next_step.hyps(3) show ?case
  proof (cases rule: worker_step.cases)
    case (signal err sig)
    then show ?thesis using worker_signal [OF h, of err sig wk'] by metis
  next
    case (accept k err sk)
    then show ?thesis using worker_accept [OF h, of k err sk wk'] by metis
  next
    case (client i s')
    then obtain arrived bad where "session_event env (wk_manager wk) names (session_in wk i) arrived bad s'"
      using session_event_step by blast
    from worker_client [OF h client(2,3) this] client(1) show ?thesis by blast
  qed
qed (blast intro: worker_starts)

section \<open>The simulation\<close>

lemma signal_handler_world:
  assumes "signal_handler err sig wk = Runs wk'"
  shows "wk_world wk' = wk_world wk \<or> manager_clear_cache (wk_manager wk) (wk_world wk) = Some (wk_world wk')"
proof -
  have "wk_world wk' = wk_world wk \<or> manager_clear_cache (wk_manager wk) (wk_world wk) = Some (wk_world wk')"
    if "react r (add_signal_handler wk) = Runs wk'" for r
    using that by (cases r) (auto simp: exit_worker_def worker_clear_cache_def add_signal_handler_def split: option.splits)
  then show ?thesis using assms
    by (auto simp: signal_handler_def exit_worker_def add_signal_handler_def Let_def split: if_splits option.splits)
qed

lemma accept_handler_world: "accept_handler k err sk wk = Runs wk' \<Longrightarrow> wk_world wk' = wk_world wk"
  by (auto simp: accept_handler_def add_client_def add_accept_handler_def split: if_splits sum.splits process_state.splits)

text \<open>Every session of the worker is related to a client of the other server.\<close>

definition mirrored :: "(nat \<Rightarrow> message list) \<Rightarrow> (string \<times> bool) list \<Rightarrow> client list \<Rightarrow> 'w session list \<Rightarrow> bool" where
  "mirrored msgs hist cs ss \<longleftrightarrow> length hist = length ss \<and> length cs = length ss \<and>
     (\<forall>i<length ss. \<exists>todo. msgs i = cl_answered (cs ! i) @ todo \<and> pipe (cs ! i) todo (fst (hist ! i)) (snd (hist ! i)) (ss ! i))"

lemma mirrored_joined:
  assumes "mirrored msgs hist cs ss"
  shows "mirrored msgs (hist @ [([], False)]) (cs @ [new_client ca port]) (ss @ [run_session ca port w])"
  using assms by (auto simp: mirrored_def nth_append pipe_start less_Suc_eq)

lemma mirrored_moved:
  assumes m: "mirrored msgs hist cs ss" and i: "i < length ss" and l: "msgs i = cl_answered c @ todo"
    and p: "pipe c todo inp lost s"
  shows "mirrored msgs (hist[i := (inp, lost)]) (cs[i := c]) (ss[i := s])"
proof -
  have "\<exists>todo. msgs j = cl_answered (cs[i := c] ! j) @ todo \<and> pipe (cs[i := c] ! j) todo
      (fst (hist[i := (inp, lost)] ! j)) (snd (hist[i := (inp, lost)] ! j)) (ss[i := s] ! j)" if "j < length ss" for j
    using m i l p that by (cases "j = i") (auto simp: mirrored_def)
  then show ?thesis using m by (simp add: mirrored_def)
qed

lemma worker_simulation:
  assumes mk: "mk_worker listening (Inr (Some mgr)) w0 = Inr wk0" and run: "worker_run env names wk0 hist wk"
    and ok: "\<And>i. \<forall>m\<in>set (msgs i). message_ok env m"
    and all: "\<And>i. i < length hist \<Longrightarrow> fst (hist ! i) @ rest i = printed (msgs i)"
  shows "\<exists>cs. site_serves mgr names w0 cs (wk_world wk) \<and> wk_manager wk = mgr \<and> mirrored msgs hist cs (wk_sessions wk)"
  using run all
proof (induction arbitrary: rest rule: worker_run.induct)
  case worker_starts
  have "wk_sessions wk0 = []" "wk_world wk0 = w0" "wk_manager wk0 = mgr"
    using mk by (auto simp: mk_worker_def add_signal_handler_def Let_def)
  then show ?case by (intro exI [of _ "[]"]) (simp add: site_opens mirrored_def)
next
  case (worker_signal hist wk err sig wk')
  from worker_signal.IH [OF worker_signal.prems] obtain cs where
    cs: "site_serves mgr names w0 cs (wk_world wk)" "wk_manager wk = mgr" "mirrored msgs hist cs (wk_sessions wk)" by blast
  have "site_serves mgr names w0 cs (wk_world wk')"
    using signal_handler_world [OF worker_signal.hyps(4)] cs(1,2) site_clears by fastforce
  then show ?case using signal_handler_Runs [OF worker_signal.hyps(4)] cs(2,3) by auto
next
  case (worker_accept hist wk k err sk wk')
  have "fst (hist ! i) @ rest i = printed (msgs i)" if "i < length hist" for i
    using worker_accept.prems [of i] that by (simp add: nth_append)
  from worker_accept.IH [OF this] obtain cs where
    cs: "site_serves mgr names w0 cs (wk_world wk)" "wk_manager wk = mgr" "mirrored msgs hist cs (wk_sessions wk)" by blast
  have w: "wk_world wk' = wk_world wk" "wk_manager wk' = mgr"
    using accept_handler_world [OF worker_accept.hyps(5)] accept_handler_Runs [OF worker_accept.hyps(5)] cs(2)
    by (simp_all add: accept_completes_def)
  consider "wk_sessions wk' = wk_sessions wk"
    | ca p where "wk_sessions wk' = wk_sessions wk @ [run_session ca p (wk_world wk)]"
    using accept_handler_Runs [OF worker_accept.hyps(5)] by (auto simp: accept_completes_def)
  then show ?case
  proof cases
    case 1
    then show ?thesis using cs w by auto
  next
    case (2 ca p)
    then show ?thesis using w site_joined [OF cs(1), of ca p] mirrored_joined [OF cs(3), of ca p "wk_world wk"] by auto
  qed
next
  case (worker_client hist wk i arrived bad s')
  let ?rest = "rest(i := arrived @ rest i)"
  have pre: "fst (hist ! j) @ ?rest j = printed (msgs j)" if "j < length hist" for j
    using worker_client.prems [of j] that by (cases "j = i") simp_all
  from worker_client.IH [OF this] obtain cs where
    cs: "site_serves mgr names w0 cs (wk_world wk)" "wk_manager wk = mgr" "mirrored msgs hist cs (wk_sessions wk)" by blast
  have i: "i < length cs" "i < length hist" using cs(3) worker_client.hyps(3) by (simp_all add: mirrored_def)
  obtain todo where t: "msgs i = cl_answered (cs ! i) @ todo"
    "pipe (cs ! i) todo (fst (hist ! i)) (snd (hist ! i)) (wk_sessions wk ! i)"
    using cs(3) worker_client.hyps(3) by (auto simp: mirrored_def)
  have okt: "\<forall>m\<in>set todo. message_ok env m" using ok [of i] t(1) by simp
  have al: "(fst (hist ! i) @ arrived) @ rest i = printed (cl_answered (cs ! i) @ todo)" using pre [OF i(2)] t(1) by simp
  have "pipe (cs ! i) todo (fst (hist ! i)) (snd (hist ! i)) (session_in wk i)" using t(2) by (simp add: session_in_def)
  from pipe_event [OF worker_client.hyps(4) this okt al] obtain c' todo' where
    c: "turns mgr names (cs ! i) (wk_world wk) c' (ss_world s')" "msgs i = cl_answered c' @ todo'"
      "pipe c' todo' (fst (hist ! i) @ arrived) (snd (hist ! i) \<or> bad) s'"
    unfolding moved_def cs(2) t(1) by (auto simp: session_in_def)
  show ?case
    by (rule exI [of _ "cs[i := c']"])
      (use site_turns [OF cs(1) i(1) c(1)] mirrored_moved [OF cs(3) worker_client.hyps(3) c(2,3)] cs(2) in
        \<open>simp add: session_back_def\<close>)
qed

text \<open>
  C1: A worker serves its clients as if it handled one message of one client at a time. Let every client send
  messages, cut into reads in any way, and let the worker run in any way: clients come, their reads
  complete or fail, their responses are sent or not, signals arrive. Then some order of whole
  messages, one after the other on one world, gives every client exactly the responses its session
  has produced and leaves the world that the hosts of the worker have left; each client is answered in the
  order of its messages, and a client from which all has arrived waits for nothing.
\<close>
theorem worker_serves_sequentially:
  assumes "mk_worker listening (Inr (Some mgr)) w0 = Inr wk0" "worker_run env names wk0 hist wk"
    and "\<And>i. list_all (message_ok env) (msgs i)"
    and "\<And>i. i < length hist \<Longrightarrow> fst (hist ! i) @ rest i = concat (map print_message (msgs i))"
  shows "\<exists>cs. site_serves mgr names w0 cs (wk_world wk) \<and> length cs = length (wk_sessions wk) \<and>
    (\<forall>i<length cs. answers (cs ! i) (msgs i) (rest i) (snd (hist ! i)) (wk_sessions wk ! i))"
proof -
  have ok: "\<forall>m\<in>set (msgs i). message_ok env m" for i using assms(3) by (simp add: list_all_iff)
  from worker_simulation [OF assms(1,2) ok assms(4)] obtain cs where
    cs: "site_serves mgr names w0 cs (wk_world wk)" "mirrored msgs hist cs (wk_sessions wk)" by blast
  have "wk_manager wk0 = mgr" "wk_sessions wk0 = []" using assms(1) by (auto simp: mk_worker_def add_signal_handler_def Let_def)
  from ordered_sessions.worker_sessions [OF worker_run_reachable [OF assms(2)] this]
  have q: "\<forall>s\<in>set (wk_sessions wk). queue_ok s" by blast
  have "answers (cs ! i) (msgs i) (rest i) (snd (hist ! i)) (wk_sessions wk ! i)" if i: "i < length cs" for i
  proof -
    from cs(2) i obtain todo where "msgs i = cl_answered (cs ! i) @ todo" "i < length hist" "i < length (wk_sessions wk)"
      "pipe (cs ! i) todo (fst (hist ! i)) (snd (hist ! i)) (wk_sessions wk ! i)"
      by (auto simp: mirrored_def)
    note t = this
    show ?thesis by (rule pipe_answers [OF t(4,1) ok assms(4) [OF t(2)]]) (use q t(3) in simp)
  qed
  then show ?thesis using cs by (auto simp: mirrored_def)
qed

section \<open>A run of two clients\<close>

lemma session_run_in_worker:
  fixes wk :: "unit worker"
  assumes "session_run env (wk_manager wk) names (session_in wk i) inp lost s"
    and "worker_run env names wk0 hist wk" "\<not> wk_stopped wk" "i < length (wk_sessions wk)" "hist ! i = ([], False)" "i < length hist"
  shows "worker_run env names wk0 (hist[i := (inp, lost)]) (session_back wk i s)"
  using assms(1)
proof (induction rule: session_run.induct)
  case run_start
  have "session_in wk i = wk_sessions wk ! i" by (simp add: session_in_def)
  then have "session_back wk i (session_in wk i) = wk" by (simp add: session_back_def)
  then show ?case using assms(2,5) by (metis list_update_id)
next
  case (run_event inp lost s arrived bad s')
  have e: "session_in (session_back wk i s) i = s" using assms(4) by (simp add: session_in_def session_back_def)
  have b: "session_back (session_back wk i s) i s' = session_back wk i s'" by (simp add: session_back_def)
  have "session_event env (wk_manager (session_back wk i s)) names (session_in (session_back wk i s) i) arrived bad s'"
    using run_event.hyps(2) unfolding e by (simp add: session_back_def)
  from worker_run.worker_client [OF run_event.IH _ _ this] show ?case
    using assms(3,4,6) unfolding b by (simp add: session_back_def)
qed

definition sample_socket :: socket where
  "sample_socket = \<lparr>sk_remote = Inr ''10.0.0.1'', sk_remote_again = Inr ''10.0.0.1'', sk_local_port = Inr 8080\<rparr>"

lemma worker_serves_sequentially_witness:
  "\<exists>(wk :: unit worker) cs. site_serves [] [] () cs (wk_world wk) \<and> length (wk_sessions wk) = 2 \<and>
     map cl_answered cs = [[], [login_message]] \<and> map cl_responses cs = map ss_produced (wk_sessions wk) \<and>
     map cl_open cs = [True, False]"
proof -
  let ?s = "run_session ''10.0.0.1'' 8080 ()"
  obtain wk0 :: "unit worker" where w: "mk_worker [8080] (Inr (Some [])) () = Inr wk0" "wk_sessions wk0 = []"
      "wk_acceptors wk0 = [(8080, True)]" "\<not> wk_stopped wk0" "wk_manager wk0 = []"
    by (simp add: mk_worker_def Let_def add_signal_handler_def add_accept_handler_def)
  let ?wk = "wk0\<lparr>wk_sessions := [?s, ?s]\<rparr>"
  have a: "accept_handler 0 False sample_socket (accept_completes 0 wk) = Runs (wk\<lparr>wk_sessions := wk_sessions wk @ [?s]\<rparr>)"
    if "wk_acceptors wk = [(8080, True)]" for wk :: "unit worker"
    using that by (cases wk) (simp add: accept_handler_def accept_completes_def add_client_def sample_socket_def
        session_of_socket_def add_accept_handler_def)
  have "worker_run decimal_env [] wk0 [([], False)] (wk0\<lparr>wk_sessions := [?s]\<rparr>)"
    using worker_run.worker_accept [OF worker_run.worker_starts [of _ _ wk0] w(4) _ _ a] w(2,3) by simp
  then have r: "worker_run decimal_env [] wk0 [([], False), ([], False)] ?wk"
    using worker_run.worker_accept [OF _ _ _ _ a, of decimal_env "[]" wk0 "[([], False)]" "wk0\<lparr>wk_sessions := [?s]\<rparr>"] w(3,4) by simp
  obtain s where s: "session_run decimal_env [] [] ?s (print_message login_message) False s" "length (ss_produced s) = 1" "ss_read s = No_read"
    using login_run [of "''10.0.0.1''" "()"] by (elim exE conjE)
  have "session_in ?wk 1 = ?s" by (simp add: session_in_def)
  then have sr: "session_run decimal_env (wk_manager ?wk) [] (session_in ?wk 1) (print_message login_message) False s"
    using s(1) w(5) by simp
  let ?wk' = "session_back ?wk 1 s"
  let ?msgs = "\<lambda>i. if i = 1 then [login_message] else []"
  have r2: "worker_run decimal_env [] wk0 [([], False), (print_message login_message, False)] ?wk'"
    using session_run_in_worker [OF sr r] w(4) by simp
  have ok: "list_all (message_ok decimal_env) (?msgs i)" for i :: nat using login_message_ok by simp
  have al: "fst ([([], False), (print_message login_message, False)] ! i) @ [] = concat (map print_message (?msgs i))"
    if "i < length [([], False), (print_message login_message, False)]" for i
    using that by (auto simp: less_Suc_eq)
  from worker_serves_sequentially [OF w(1) r2 ok al] obtain cs where
    cs: "site_serves [] [] () cs (wk_world ?wk')" "length cs = 2"
      "\<And>i. i < 2 \<Longrightarrow> answers (cs ! i) (?msgs i) [] (snd ([([], False), (print_message login_message, False)] ! i)) (wk_sessions ?wk' ! i)"
    by (auto simp: session_back_def)
  obtain c0 c1 where c: "cs = [c0, c1]" using cs(2) by (auto simp: length_Suc_conv numeral_2_eq_2)
  have "answers c0 [] [] False ?s" "answers c1 [login_message] [] False s"
    using cs(3) [of 0] cs(3) [of 1] by (simp_all add: c session_back_def)
  moreover have "ss_read ?s = Read_until_separator" "ss_produced ?s = []"
    by (simp_all add: run_session_def mk_session_def add_request_handler_def)
  ultimately show ?thesis using cs(1) s(2,3)
    by (intro exI [of _ ?wk'] exI [of _ cs]) (simp add: answers_def c session_back_def)
qed

end
