(* ===== verification/Session_Table.thy ===== *)
theory Session_Table
  imports Logic_Users
begin

text \<open>
  The whole service of the logic, against a table: the operations of \<open>logic/\<close>, each with all its reads
  and writes of the database, do nothing to the sessions but what a table of users and times does in
  one step. What holds of the table holds of the service.
\<close>

section \<open>The service\<close>

text \<open>What the hosts of \<open>host/modules/logic\<close> ask for; \<open>None\<close>: the operation does not return.\<close>

datatype service_op = Account logic_op | List_users string | Add_friend string string
  | Remove_friend string string | User_info string string

definition run_service :: "'w logic_env \<Rightarrow> (32 word \<Rightarrow> 'w \<Rightarrow> nat \<times> 'w) \<Rightarrow> service_op \<Rightarrow> 'w \<Rightarrow> 'w option" where
  "run_service env draw oper w = (case oper of
     Account a \<Rightarrow> Some (run_op env a w)
   | List_users sid \<Rightarrow> Some (snd (list_users env sid w))
   | Add_friend ref sid \<Rightarrow> Some (snd (add_friend_op env ref sid w))
   | Remove_friend ref sid \<Rightarrow> Some (snd (remove_friend_op env ref sid w))
   | User_info ref sid \<Rightarrow> map_option snd (user_info env draw ref sid w))"

fun run_services :: "'w logic_env \<Rightarrow> (32 word \<Rightarrow> 'w \<Rightarrow> nat \<times> 'w) \<Rightarrow> service_op list \<Rightarrow> 'w \<Rightarrow> 'w option" where
  "run_services env draw [] w = Some w"
| "run_services env draw (oper # ops) w = Option.bind (run_service env draw oper w) (run_services env draw ops)"

section \<open>The table\<close>

type_synonym table = "string \<Rightarrow> entry option"

text \<open>
  Between the times \<open>t0\<close> and \<open>t1\<close>: a session of \<open>u\<close> is opened under a name that is free, with a life
  of \<open>life\<close> and a time of \<open>renew\<close> until it is restarted; a session that has not ended yet ends.
\<close>

definition opens :: "millis \<Rightarrow> millis \<Rightarrow> millis \<Rightarrow> millis \<Rightarrow> oid \<Rightarrow> table \<Rightarrow> table \<Rightarrow> bool" where
  "opens life renew t0 t1 u T T' \<longleftrightarrow> (\<exists>sid t. sid \<noteq> [] \<and> T sid = None \<and> t0 \<le> t \<and> t \<le> t1 \<and>
     T' = T(sid := Some (u, t + life, t + renew)))"

definition closes :: "millis \<Rightarrow> millis \<Rightarrow> string \<Rightarrow> table \<Rightarrow> table \<Rightarrow> bool" where
  "closes t0 t1 sid T T' \<longleftrightarrow> (\<exists>u v r t. T sid = Some (u, v, r) \<and> t0 \<le> t \<and> t \<le> t1 \<and> t \<le> v \<and>
     T' = T(sid := Some (u, t, r)))"

text \<open>
  Using a session leaves the table alone, or, when the session is valid and its time for a restart has
  come, ends it and opens another one for the same user; the second step may fail.
\<close>

definition uses :: "millis \<Rightarrow> millis \<Rightarrow> millis \<Rightarrow> millis \<Rightarrow> string \<Rightarrow> table \<Rightarrow> table \<Rightarrow> bool" where
  "uses life renew t0 t1 sid T T' \<longleftrightarrow> T' = T \<or> (\<exists>u v r. T sid = Some (u, v, r) \<and> t0 < v \<and> r \<le> t1 \<and>
     (\<exists>T1. closes t0 t1 sid T T1 \<and> (T' = T1 \<or> opens life renew t0 t1 u T1 T')))"

text \<open>One operation; \<open>cred\<close> says whose email and password a form carries.\<close>

fun table_op :: "millis \<Rightarrow> millis \<Rightarrow> (form \<Rightarrow> oid \<Rightarrow> bool) \<Rightarrow> millis \<Rightarrow> millis \<Rightarrow> service_op \<Rightarrow> table \<Rightarrow> table \<Rightarrow> bool" where
  "table_op life renew cred t0 t1 (Account (Login form)) T T' = (T' = T \<or> (\<exists>u. cred form u \<and> opens life renew t0 t1 u T T'))"
| "table_op life renew cred t0 t1 (Account (Register form)) T T' = (T' = T \<or> (\<exists>u. opens life renew t0 t1 u T T'))"
| "table_op life renew cred t0 t1 (Account (Logout sid)) T T' = (T' = T \<or> closes t0 t1 sid T T')"
| "table_op life renew cred t0 t1 (Account (Continue sid)) T T' = uses life renew t0 t1 sid T T'"
| "table_op life renew cred t0 t1 (List_users sid) T T' = uses life renew t0 t1 sid T T'"
| "table_op life renew cred t0 t1 (Add_friend ref sid) T T' = uses life renew t0 t1 sid T T'"
| "table_op life renew cred t0 t1 (Remove_friend ref sid) T T' = uses life renew t0 t1 sid T T'"
| "table_op life renew cred t0 t1 (User_info ref sid) T T' = uses life renew t0 t1 sid T T'"

definition credentials :: "'w logic_env \<Rightarrow> doc list \<Rightarrow> form \<Rightarrow> oid \<Rightarrow> bool" where
  "credentials env ds form u \<longleftrightarrow> (\<exists>email d. map_of form ''email'' = Some email \<and>
     first_match [(''email'', Bstr email)] ds = Some d \<and>
     map_of form ''password'' = Some (el_str env (map_of d ''password'')) \<and> map_of d ''_id'' = Some (Boid u))"

text \<open>On the table: a session keeps its user and its restart, and is never prolonged.\<close>

definition table_ages :: "table \<Rightarrow> table \<Rightarrow> bool" where
  "table_ages T T' \<longleftrightarrow> (\<forall>sid u v r. T sid = Some (u, v, r) \<longrightarrow> (\<exists>v'\<le>v. T' sid = Some (u, v', r)))"

lemma table_ages_refl [simp]: "table_ages T T"
  by (auto simp: table_ages_def)

lemma table_ages_trans: "table_ages T T1 \<Longrightarrow> table_ages T1 T' \<Longrightarrow> table_ages T T'"
  unfolding table_ages_def by (meson order_trans)

lemma opens_ages: "opens life renew t0 t1 u T T' \<Longrightarrow> table_ages T T'"
  by (auto simp: opens_def table_ages_def)

lemma closes_ages: "closes t0 t1 sid T T' \<Longrightarrow> table_ages T T'"
  by (auto simp: closes_def table_ages_def)

lemma table_op_ages: "table_op life renew cred t0 t1 oper T T' \<Longrightarrow> table_ages T T'"
proof -
  have uses: "uses life renew t0 t1 sid T T' \<Longrightarrow> table_ages T T'" for sid
    unfolding uses_def by (blast intro: table_ages_refl table_ages_trans closes_ages opens_ages)
  assume "table_op life renew cred t0 t1 oper T T'"
  then show ?thesis
    by (cases "(life, renew, cred, t0, t1, oper, T, T')" rule: table_op.cases)
      (auto intro: opens_ages closes_ages uses)
qed

lemma opens_mono:
  assumes "opens life renew t0 t1 u T T'" "s0 \<le> t0" "t1 \<le> s1"
  shows "opens life renew s0 s1 u T T'"
proof -
  obtain sid t where st: "sid \<noteq> []" "T sid = None" "t0 \<le> t" "t \<le> t1" "T' = T(sid := Some (u, t + life, t + renew))"
    using assms(1) unfolding opens_def by (elim exE conjE)
  show ?thesis unfolding opens_def
    using st order_trans [OF assms(2) st(3)] order_trans [OF st(4) assms(3)] by (intro exI [of _ sid] exI [of _ t]) simp
qed

lemma closes_mono:
  assumes "closes t0 t1 sid T T'" "s0 \<le> t0" "t1 \<le> s1"
  shows "closes s0 s1 sid T T'"
proof -
  obtain u v r t where st: "T sid = Some (u, v, r)" "t0 \<le> t" "t \<le> t1" "t \<le> v" "T' = T(sid := Some (u, t, r))"
    using assms(1) unfolding closes_def by (elim exE conjE)
  show ?thesis unfolding closes_def
    using st order_trans [OF assms(2) st(2)] order_trans [OF st(3) assms(3)]
    by (intro exI [of _ u] exI [of _ v] exI [of _ r] exI [of _ t]) simp
qed

lemma uses_mono:
  assumes "uses life renew t0 t1 sid T T'" "t1 \<le> s1"
  shows "uses life renew t0 s1 sid T T'"
proof (cases "T' = T")
  case False
  then obtain u v r T1 where a: "T sid = Some (u, v, r)" "t0 < v" "r \<le> t1" "closes t0 t1 sid T T1"
      "T' = T1 \<or> opens life renew t0 t1 u T1 T'"
    using assms(1) unfolding uses_def by blast
  have "r \<le> s1" using a(3) assms(2) by (rule order_trans)
  then show ?thesis unfolding uses_def
    using a(1,2,5) closes_mono [OF a(4) order_refl assms(2)] opens_mono [OF _ order_refl assms(2)] by blast
qed (simp add: uses_def)

text \<open>Drawing a random index does not touch the database.\<close>

definition quiet_draw :: "('w \<Rightarrow> string \<Rightarrow> doc list) \<Rightarrow> ('w \<Rightarrow> millis) \<Rightarrow> ('w \<Rightarrow> nat \<times> 'w) \<Rightarrow> bool" where
  "quiet_draw coll now draw \<longleftrightarrow> (\<forall>w. coll (snd (draw w)) = coll w \<and> now w \<le> now (snd (draw w)))"

section \<open>The operations on the table\<close>

context mongo_store
begin

abbreviation table_at :: "'w \<Rightarrow> table" where
  "table_at \<equiv> session_at env coll"

abbreviation uses_at :: "string \<Rightarrow> 'w \<Rightarrow> 'w \<Rightarrow> bool" where
  "uses_at sid w w' \<equiv> uses (session_lifetime env) (session_restart_after env) (now w) (now w') sid (table_at w) (table_at w')"

lemma started_opens: "started w u sid t w' \<Longrightarrow>
    opens (session_lifetime env) (session_restart_after env) (now w) (now w') u (table_at w) (table_at w')"
  unfolding opens_def session_started_def by blast

lemma wp_keeps: "keeps m \<Longrightarrow> db_ok w \<Longrightarrow> wp m Q w \<Longrightarrow> wp m (\<lambda>r w'. Q r w' \<and> db_ok w' \<and> now w \<le> now w') w"
  using keepsD [of m w] by (simp add: wp_def ages_def)

lemma wp_finish_closes:
  assumes "db_ok w"
  shows "wp (finish_session env sid) (\<lambda>r w'. case r of
      Inl e \<Rightarrow> table_at w' = table_at w | Inr _ \<Rightarrow> closes (now w) (now w') sid (table_at w) (table_at w')) w"
  by (rule wp_finish_session [OF assms]) (auto simp: session_at_def closes_def)

lemma wp_start_opens:
  assumes "db_ok w" "el_oid env (field d ''_id'') = Inr u"
  shows "wp (start_session_for_obj_without_password_check env d) (\<lambda>r w'. table_at w' = table_at w \<or>
    opens (session_lifetime env) (session_restart_after env) (now w) (now w') u (table_at w) (table_at w')) w"
  by (rule wp_start_session [OF assms]) (auto simp: session_at_def dest: started_opens)

definition restarts_at :: "string \<Rightarrow> oid \<Rightarrow> 'w \<Rightarrow> 'w \<Rightarrow> bool" where
  "restarts_at sid u w w' \<longleftrightarrow> table_at w' = table_at w \<or>
    (\<exists>T1. closes (now w) (now w') sid (table_at w) T1 \<and> (table_at w' = T1 \<or>
      opens (session_lifetime env) (session_restart_after env) (now w) (now w') u T1 (table_at w')))"

lemma restarts_at_mono:
  assumes "restarts_at sid u w1 w'" "table_at w1 = table_at w" "now w \<le> now w1"
  shows "restarts_at sid u w w'"
  using assms(1) closes_mono [OF _ assms(3) order_refl] opens_mono [OF _ assms(3) order_refl]
  unfolding restarts_at_def assms(2) by blast

lemma wp_restart_table:
  assumes ok: "db_ok w" and d0: "field d0 ''user_id'' = Some (Boid u)"
  shows "wp (restart_session env sid d0) (\<lambda>r w'. restarts_at sid u w w') w"
  unfolding restart_session_def d0 el_oid_spec
proof (rule wp_bindI, unfold wp_lift sum.case, rule wp_bindI, rule wp_find_one, unfold sum.case, goal_cases)
  case (1 w1)
  have c1: "table_at w1 = table_at w" "db_ok w1" "now w \<le> now w1" using 1 ok by (simp_all add: session_at_def db_ok_def)
  show ?case
  proof (cases "first_match [(''_id'', Boid u)] (users w)")
    case None
    then show ?thesis using c1 by (simp add: found_doc_def wp_throw restarts_at_def)
  next
    case (Some d)
    then have id: "map_of d ''_id'' = Some (Boid u)" by (auto dest: first_match_Some)
    then have f: "found_doc [(''_id'', Boid u)] [] (users w) = d" "d \<noteq> []" using Some by (auto simp: found_doc_def project_def)
    have el: "el_oid env (field d ''_id'') = Inr u" by (simp add: field_def id)
    show ?thesis unfolding f(1) if_not_P [OF f(2)]
    proof (rule wp_bindI, rule wp_mono [OF wp_keeps [OF keeps_finish_session c1(2) wp_finish_closes [OF c1(2)]]])
      fix r w2
      assume a: "(case r of Inl e \<Rightarrow> table_at w2 = table_at w1 | Inr _ \<Rightarrow> closes (now w1) (now w2) sid (table_at w1) (table_at w2)) \<and>
        db_ok w2 \<and> now w1 \<le> now w2"
      show "case r of Inl e \<Rightarrow> restarts_at sid u w w2
        | Inr _ \<Rightarrow> wp (start_session_for_obj_without_password_check env d) (\<lambda>r w'. restarts_at sid u w w') w2"
      proof (cases r)
        case (Inr x)
        then have a: "closes (now w1) (now w2) sid (table_at w1) (table_at w2)" "db_ok w2" "now w1 \<le> now w2" using a by simp_all
        have "wp (start_session_for_obj_without_password_check env d) (\<lambda>r w'. restarts_at sid u w w') w2"
        proof (rule wp_mono [OF wp_keeps [OF keeps_start_session a(2) wp_start_opens [OF a(2) el]]])
          fix r w3
          assume b: "(table_at w3 = table_at w2 \<or> opens (session_lifetime env) (session_restart_after env) (now w2) (now w3) u
              (table_at w2) (table_at w3)) \<and> db_ok w3 \<and> now w2 \<le> now w3"
          have "closes (now w) (now w3) sid (table_at w) (table_at w2)"
            using closes_mono [OF a(1) c1(3)] b c1(1) by simp
          moreover have "now w \<le> now w2" using c1(3) a(3) by (rule order_trans)
          ultimately show "restarts_at sid u w w3"
            using b opens_mono [OF _ \<open>now w \<le> now w2\<close> order_refl] unfolding restarts_at_def by blast
        qed
        then show ?thesis using Inr by simp
      qed (use a c1 in \<open>simp add: restarts_at_def\<close>)
    qed
  qed
qed

lemma wp_continue_uses:
  assumes ok: "db_ok w"
  shows "wp (continue_session env sid) (\<lambda>r w'. uses_at sid w w') w"
proof (rule wp_continue_session [OF ok])
  fix d u v r w1
  assume a: "sessions_of (sessions w) sid = Some (u, v, r)" "now w < v" "r \<le> now w1" "field d ''user_id'' = Some (Boid u)"
    "sessions w1 = sessions w" "users w1 = users w" "db_ok w1" "now w \<le> now w1"
  have t: "table_at w1 = table_at w" "table_at w sid = Some (u, v, r)" using a(1,5) by (simp_all add: session_at_def)
  show "wp (restart_session env sid d) (\<lambda>r w'. uses_at sid w w') w1"
  proof (rule wp_mono [OF wp_keeps [OF keeps_restart_session a(7) wp_restart_table [OF a(7,4), of sid]]])
    fix x w'
    assume b: "restarts_at sid u w1 w' \<and> db_ok w' \<and> now w1 \<le> now w'"
    then have "r \<le> now w'" using a(3) by (blast intro: order_trans)
    moreover have "restarts_at sid u w w'" using b restarts_at_mono [OF _ t(1) a(8)] by blast
    ultimately show "uses_at sid w w'" using t(2) a(2) unfolding uses_def restarts_at_def by blast
  qed
qed (simp_all add: uses_def session_at_def)

text \<open>What follows the session in an operation leaves the table alone.\<close>

definition still :: "('w, 'a) lx \<Rightarrow> bool" where
  "still m \<longleftrightarrow> (\<forall>w. db_ok w \<longrightarrow> wp m (\<lambda>r w'. table_at w' = table_at w \<and> db_ok w' \<and> now w \<le> now w') w)"

lemma stillI: "(\<And>w. db_ok w \<Longrightarrow> wp m (\<lambda>r w'. table_at w' = table_at w \<and> db_ok w' \<and> now w \<le> now w') w) \<Longrightarrow> still m"
  by (simp add: still_def)

lemma still_bind:
  assumes "still m" "\<And>x. still (f x)"
  shows "still (sbind m f)"
proof (rule stillI)
  fix w assume "db_ok w"
  then have "wp m (\<lambda>r w'. table_at w' = table_at w \<and> db_ok w' \<and> now w \<le> now w') w" using assms(1) by (simp add: still_def)
  then show "wp (sbind m f) (\<lambda>r w'. table_at w' = table_at w \<and> db_ok w' \<and> now w \<le> now w') w"
    unfolding wp_bind
  proof (rule wp_mono)
    fix r s assume s: "table_at s = table_at w \<and> db_ok s \<and> now w \<le> now s"
    show "case r of Inl e \<Rightarrow> table_at s = table_at w \<and> db_ok s \<and> now w \<le> now s
      | Inr x \<Rightarrow> wp (f x) (\<lambda>r w'. table_at w' = table_at w \<and> db_ok w' \<and> now w \<le> now w') s"
    proof (cases r)
      case (Inr x)
      have "wp (f x) (\<lambda>r w'. table_at w' = table_at s \<and> db_ok w' \<and> now s \<le> now w') s" using assms(2) s unfolding still_def by blast
      then show ?thesis using s Inr by (auto elim: wp_mono intro: order_trans)
    qed (simp add: s)
  qed
qed

lemma still_pure: "still (sreturn x)" "still (sthrow e)" "still (slift r)"
  by (simp_all add: still_def wp_simps)

lemma still_if: "(b \<Longrightarrow> still m) \<Longrightarrow> (\<not> b \<Longrightarrow> still m') \<Longrightarrow> still (if b then m else m')"
  by simp

lemma still_quiet:
  assumes "\<And>Q w. (\<And>x w'. coll w' = coll w \<Longrightarrow> now w \<le> now w' \<Longrightarrow> Q (Inr x) w') \<Longrightarrow> wp m Q w"
  shows "still m"
  by (rule stillI, rule assms) (auto simp: db_ok_def session_at_def)

lemma still_reads:
  shows "still (find_one env c q fs)" and "still (query_docs env c q n fs)" and "still (utc_time env)"
proof -
  show "still (find_one env c q fs)" by (rule still_quiet, rule wp_find_one)
  show "still (query_docs env c q n fs)" by (rule still_quiet, rule wp_query)
  show "still (utc_time env)" by (rule still_quiet, rule wp_utc_time) (blast intro: order_trans)
qed

lemma still_modify_users:
  "''_id'' \<notin> set (update_keys u) \<Longrightarrow> still (find_and_modify env (collection_users env) q u fs)"
  using collections_distinct
  by (intro stillI wp_find_and_modify)
    (auto simp: db_ok_def session_at_def intro!: list_all_update_first user_ok_update)

lemmas still_rules = still_bind still_pure still_if still_reads still_modify_users

lemma wp_with_session:
  assumes "db_ok w" "\<And>x. still (f x)"
  shows "wp (sbind (continue_session env sid) f) (\<lambda>r w'. uses_at sid w w' \<and> db_ok w' \<and> now w \<le> now w') w"
  unfolding wp_bind
proof (rule wp_mono [OF wp_keeps [OF keeps_continue_session assms(1) wp_continue_uses [OF assms(1), of sid]]])
  fix r w1 assume a: "uses_at sid w w1 \<and> db_ok w1 \<and> now w \<le> now w1"
  show "case r of Inl e \<Rightarrow> uses_at sid w w1 \<and> db_ok w1 \<and> now w \<le> now w1
    | Inr x \<Rightarrow> wp (f x) (\<lambda>r w'. uses_at sid w w' \<and> db_ok w' \<and> now w \<le> now w') w1"
  proof (cases r)
    case (Inr x)
    have "wp (f x) (\<lambda>r w'. table_at w' = table_at w1 \<and> db_ok w' \<and> now w1 \<le> now w') w1"
      using assms(2) a unfolding still_def by blast
    then have "wp (f x) (\<lambda>r w'. uses_at sid w w' \<and> db_ok w' \<and> now w \<le> now w') w1"
      by (rule wp_mono) (use a uses_mono in \<open>force intro: order_trans\<close>)
    then show ?thesis using Inr by simp
  qed (use a in simp)
qed

lemma list_users_uses: "db_ok w \<Longrightarrow> wp (list_users env sid) (\<lambda>r w'. uses_at sid w w' \<and> db_ok w' \<and> now w \<le> now w') w"
  unfolding list_users_def
  by (rule wp_with_session) (auto split: prod.split option.split intro!: still_rules)

lemma change_friends_uses:
  "oper \<noteq> [] \<Longrightarrow> db_ok w \<Longrightarrow>
   wp (change_friends env oper ref sid) (\<lambda>r w'. uses_at sid w w' \<and> db_ok w' \<and> now w \<le> now w') w"
  unfolding change_friends_def
  by (rule wp_with_session) (auto split: prod.split simp: update_keys_def intro!: still_rules)

lemma login_table:
  assumes ok: "db_ok w"
  shows "wp (login_user env form) (\<lambda>r w'. table_at w' = table_at w \<or> (\<exists>u. credentials env (users w) form u \<and>
    opens (session_lifetime env) (session_restart_after env) (now w) (now w') u (table_at w) (table_at w'))) w"
  by (rule wp_mono [OF wp_login_user [OF ok]])
    (auto simp: credentials_def split: sum.splits prod.splits dest!: started_opens)

lemma register_table:
  assumes ok: "db_ok w"
  shows "wp (register_user env form) (\<lambda>r w'. table_at w' = table_at w \<or>
    (\<exists>u. opens (session_lifetime env) (session_restart_after env) (now w) (now w') u (table_at w) (table_at w'))) w"
proof (rule wp_register_user [OF ok], simp add: session_at_def, goal_cases)
  case (1 u ref t w1)
  then have t1: "table_at w1 = table_at w"
    using collections_distinct by (auto simp: user_added_def session_at_def)
  show ?case
  proof (rule wp_start_session_for_email [OF 1(3)])
    fix d u sid t w'
    assume "started w1 u sid t w'"
    from opens_mono [OF started_opens [OF this] 1(2) order_refl] t1
    show "table_at w' = table_at w \<or> (\<exists>u. opens (session_lifetime env) (session_restart_after env) (now w) (now w') u (table_at w) (table_at w'))"
      by auto
  qed (use t1 in \<open>simp_all add: session_at_def\<close>)
qed

abbreviation quiet :: "('w \<Rightarrow> nat \<times> 'w) \<Rightarrow> bool" where
  "quiet \<equiv> quiet_draw coll now"

lemmas quiet_def = quiet_draw_def [of coll now]

lemma draw_unique_quiet:
  assumes "draw_unique draw seen w = Some y" "quiet draw"
  shows "coll (snd y) = coll w \<and> now w \<le> now (snd y)"
proof -
  have "quiet draw \<longrightarrow> coll (snd y) = coll w \<and> now w \<le> now (snd y)"
  proof (rule draw_unique.raw_induct [where P = "\<lambda>draw seen w y. quiet draw \<longrightarrow> coll (snd y) = coll w \<and> now w \<le> now (snd y)", OF _ assms(1)])
    fix f draw' seen' w' y'
    assume IH: "\<And>a b (c :: 'w) y. f a b c = Some y \<Longrightarrow> quiet a \<longrightarrow> coll (snd y) = coll c \<and> now c \<le> now (snd y)"
      and eq: "(case draw' w' of (i, w) \<Rightarrow> if i \<in> set seen' then f draw' seen' w else Some (i, w)) = Some y'"
    show "quiet draw' \<longrightarrow> coll (snd y') = coll w' \<and> now w' \<le> now (snd y')"
    proof
      assume q: "quiet draw'"
      obtain i w where d: "draw' w' = (i, w)" by fastforce
      then have w: "coll w = coll w'" "now w' \<le> now w" using q unfolding quiet_def by (metis snd_conv)+
      show "coll (snd y') = coll w' \<and> now w' \<le> now (snd y')"
      proof (cases "i \<in> set seen'")
        case True
        then have "f draw' seen' w = Some y'" using eq d by simp
        from IH [OF this] q w show ?thesis by (auto intro: order_trans)
      qed (use eq d w in auto)
    qed
  qed
  then show ?thesis using assms(2) by simp
qed

lemma random_indexes_quiet:
  "random_indexes draw k seen w = Some (js, w') \<Longrightarrow> quiet draw \<Longrightarrow> coll w' = coll w \<and> now w \<le> now w'"
proof (induction k arbitrary: seen w)
  case (Suc k)
  then obtain y where y: "draw_unique draw seen w = Some y" "random_indexes draw k (seen @ [fst y]) (snd y) = Some (js, w')"
    by (auto split: option.splits)
  from draw_unique_quiet [OF y(1) Suc.prems(2)] Suc.IH [OF y(2) Suc.prems(2)] show ?case by (auto intro: order_trans)
qed simp

lemma still_info_for_friend: "still (info_for_friend env sep el)"
  unfolding info_for_friend_def by (intro still_rules)

lemma still_info_for_friends: "still (info_for_friends env els)"
proof (induction els)
  case (Cons el els)
  then show ?case unfolding info_for_friends.simps by (intro still_rules still_info_for_friend)
qed (simp only: info_for_friends.simps still_pure)

lemma friends_info_still:
  assumes "friends_info env draw friends w = Some (r, w')" "\<And>n. quiet (draw n)" "db_ok w"
  shows "table_at w' = table_at w \<and> db_ok w' \<and> now w \<le> now w'"
proof (cases "friends = []")
  case False
  let ?n = "of_nat (length friends) :: 32 word"
  obtain i js w1 where d: "random_indexes (draw (?n - 1)) (min (unat ?n) max_friends) [] w = Some (i # js, w1)"
    and r: "sbind (info_for_friend env CHR ''['' (friends ! i)) (\<lambda>s.
        sbind (info_for_friends env (map (\<lambda>i. friends ! i) js)) (\<lambda>t.
          sreturn ('','' @ quoted ''friends'' @ '':'' @ s @ t @ '']''))) w1 = (r, w')"
      (is "?m w1 = _")
    using assms(1) False by (auto simp: friends_info_def Let_def split: option.splits list.splits)
  have w1: "coll w1 = coll w" "now w \<le> now w1" using random_indexes_quiet [OF d assms(2)] by simp_all
  have "still ?m" by (intro still_rules still_info_for_friend still_info_for_friends)
  moreover have "db_ok w1" using assms(3) w1 by (simp add: db_ok_def)
  ultimately have "wp ?m (\<lambda>r w'. table_at w' = table_at w1 \<and> db_ok w' \<and> now w1 \<le> now w') w1" by (simp add: still_def)
  from wpD [OF this r] w1 show ?thesis by (auto simp: session_at_def intro: order_trans)
qed (use assms in \<open>simp add: friends_info_def\<close>)

lemma user_info_uses:
  assumes r: "user_info env draw ref sid w = Some (x, w')" and q: "\<And>n. quiet (draw n)" and ok: "db_ok w"
  shows "uses_at sid w w' \<and> db_ok w' \<and> now w \<le> now w'"
proof -
  let ?m = "sbind (continue_session env sid) (\<lambda>(current_user_id, session_cookie).
      sbind (find_user env ref current_user_id) (\<lambda>user_obj.
      sbind (slift (user_head env user_obj)) (\<lambda>head.
      sbind (slift (user_kind env current_user_id user_obj)) (\<lambda>kind.
      sbind (slift (el_array env (field user_obj ''friends''))) (\<lambda>friends.
        sreturn (head @ kind, friends, session_cookie))))))"
  have "still (find_user env ref i)" for i
    unfolding find_user_def by (intro still_rules)
  then have "wp ?m (\<lambda>r w'. uses_at sid w w' \<and> db_ok w' \<and> now w \<le> now w') w"
    by (intro wp_with_session [OF ok]) (auto split: prod.split intro!: still_rules)
  moreover obtain y w1 where m: "?m w = (y, w1)" by fastforce
  ultimately have w1: "uses_at sid w w1 \<and> db_ok w1 \<and> now w \<le> now w1" by (rule wpD)
  show ?thesis
  proof (cases y)
    case (Inl e)
    then show ?thesis using r m w1 by (simp add: user_info_def)
  next
    case (Inr z)
    obtain t friends cookie where z: "z = (t, friends, cookie)" by (cases z) auto
    then obtain r2 where f: "friends_info env draw friends w1 = Some (r2, w')"
      using r m Inr by (auto simp: user_info_def split: option.splits sum.splits)
    from friends_info_still [OF f q] w1 have s: "table_at w' = table_at w1" "db_ok w'" "now w1 \<le> now w'" by simp_all
    have "uses_at sid w w'" using w1 uses_mono [OF _ s(3)] s(1) by simp
    moreover have "now w \<le> now w'" using w1 s(3) by (blast intro: order_trans)
    ultimately show ?thesis using s(2) by simp
  qed
qed

lemma run_service_table:
  assumes ok: "db_ok w" and q: "\<And>n. quiet (draw n)" and r: "run_service env draw oper w = Some w'"
  shows "db_ok w' \<and> now w \<le> now w' \<and> table_op (session_lifetime env) (session_restart_after env)
    (credentials env (users w)) (now w) (now w') oper (table_at w) (table_at w')"
proof (cases oper)
  case (Account a)
  have k: "db_ok w'" "now w \<le> now w'"
    using r run_op_ages [OF ok, of a] by (simp_all add: run_service_def Account ages_def)
  show ?thesis
  proof (cases a)
    case (Login form)
    show ?thesis using login_table [OF ok, of form] r k
      by (simp add: run_service_def Account Login run_op_def wp_def)
  next
    case (Logout sid)
    show ?thesis using wp_finish_closes [OF ok, of sid] r k
      by (auto simp: run_service_def Account Logout run_op_def logout_user_def wp_def split: sum.splits)
  next
    case (Continue sid)
    show ?thesis using wp_continue_uses [OF ok, of sid] r k
      by (simp add: run_service_def Account Continue run_op_def wp_def)
  next
    case (Register form)
    show ?thesis using register_table [OF ok, of form] r k
      by (simp add: run_service_def Account Register run_op_def wp_def)
  qed
next
  case (List_users sid)
  show ?thesis using list_users_uses [OF ok, of sid] r by (simp add: run_service_def List_users wp_def)
next
  case (Add_friend ref sid)
  show ?thesis using change_friends_uses [OF _ ok, of "''$push''" ref sid] r
    by (simp add: run_service_def Add_friend add_friend_op_def wp_def)
next
  case (Remove_friend ref sid)
  show ?thesis using change_friends_uses [OF _ ok, of "''$pop''" ref sid] r
    by (simp add: run_service_def Remove_friend remove_friend_op_def wp_def)
next
  case (User_info ref sid)
  then obtain x where "user_info env draw ref sid w = Some (x, w')" using r by (auto simp: run_service_def)
  from user_info_uses [OF this q ok] show ?thesis by (simp add: User_info)
qed

lemma run_services_age:
  assumes "\<And>n. quiet (draw n)"
  shows "db_ok w \<Longrightarrow> run_services env draw ops w = Some w' \<Longrightarrow>
    db_ok w' \<and> now w \<le> now w' \<and> table_ages (table_at w) (table_at w')"
proof (induction ops arbitrary: w)
  case (Cons oper ops)
  then obtain w1 where w1: "run_service env draw oper w = Some w1" "run_services env draw ops w1 = Some w'"
    by (auto simp: bind_eq_Some_conv)
  note s = run_service_table [OF Cons.prems(1) assms w1(1)]
  from s Cons.IH [OF _ w1(2)] show ?case by (auto intro: order_trans table_ages_trans table_op_ages)
qed simp

definition service_later :: "'w \<Rightarrow> 'w \<Rightarrow> bool" where
  "service_later w w' \<longleftrightarrow> (\<exists>draw ops. (\<forall>n. quiet (draw n)) \<and> run_services env draw ops w = Some w')"

lemma service_later_ages: "db_ok w \<Longrightarrow> service_later w w' \<Longrightarrow> db_ok w' \<and> now w \<le> now w' \<and>
    (\<forall>u v r. table_at w sid = Some (u, v, r) \<longrightarrow> (\<exists>v'\<le>v. table_at w' sid = Some (u, v', r)))"
proof -
  assume ok: "db_ok w" and "service_later w w'"
  then obtain draw ops where r: "\<And>n. quiet (draw n)" "run_services env draw ops w = Some w'"
    unfolding service_later_def by blast
  have "\<And>draw. (\<And>n. quiet (draw n)) \<Longrightarrow> run_services env draw ops w = Some w' \<Longrightarrow>
      db_ok w' \<and> now w \<le> now w' \<and> table_ages (table_at w) (table_at w')"
    by (rule run_services_age [OF _ ok])
  from this [OF r] show ?thesis unfolding table_ages_def by blast
qed

end

text \<open>So the contract of the sessions holds with every operation of the service, not only of the accounts.\<close>

sublocale mongo_store \<subseteq> whole: session_service "database_ok env coll" now "session_at env coll" "oid_string env"
    "continue_session env" "finish_session env" service_later
  by unfold_locales (rule continue_valid continue_invalid finish_ends service_later_ages; assumption)+

context mongo_store
begin

lemma service_logged_out: "db_ok w \<Longrightarrow> logout_user env sid w = (Inr (), w1) \<Longrightarrow> service_later w1 w2 \<Longrightarrow>
    fst (continue_session env sid w2) = Inl (Logic (Session_not_found sid))"
  by (rule whole.finished_for_ever) (simp_all add: logout_user_def)

lemma service_keeps_user:
  assumes "started w u sid t w1" "db_ok w1" "service_later w1 w2" "continue_session env sid w2 = (Inr (x, []), w3)"
  shows "x = oid_string env u \<and> now w2 < t + session_lifetime env"
proof -
  have "table_at w1 sid = Some (u, t + session_lifetime env, t + session_restart_after env)"
    using assms(1) by (simp add: session_started_def)
  with service_later_ages [OF assms(2,3)] obtain v where
    v: "db_ok w2" "v \<le> t + session_lifetime env" "table_at w2 sid = Some (u, v, t + session_restart_after env)" by blast
  from wpD [OF wp_continue_outcome [OF v(1)] assms(4)] v(2,3) show ?thesis
    by (auto simp: session_restarted_def session_cookie_text_def intro: less_le_trans)
qed

end

interpretation memory_service: session_service "database_ok memory_env mem_colls" mem_now
    "session_at memory_env mem_colls" "oid_string memory_env" "continue_session memory_env" "finish_session memory_env"
    "mongo_store.service_later memory_env mem_colls mem_now"
  by (rule memory_db.whole.session_service_axioms)

section \<open>The properties\<close>

text \<open>
  C7: Every operation of the logic that returns refines one step of the table of sessions: a login opens at
  most one session, for the user whose email and password the form carries; a registration at most
  one; a logout ends at most the session it names; everything else leaves the table alone, or restarts the
  session it was given, and only when that is valid and due. The documents stay well formed.
\<close>
theorem service_refines_table:
  assumes "mongo_store env coll now" "\<And>n. quiet_draw coll now (draw n)" "database_ok env coll w"
    and "run_service env draw oper w = Some w'"
  shows "database_ok env coll w' \<and> now w \<le> now w' \<and> table_op (session_lifetime env) (session_restart_after env)
    (credentials env (coll w (collection_users env))) (now w) (now w') oper (session_at env coll w) (session_at env coll w')"
  by (rule mongo_store.run_service_table [OF assms(1,3,2,4)])

lemma service_refines_table_witness:
  "\<exists>w' sid u t. run_service memory_env (\<lambda>n w. (0, w)) (Account (Login sample_form)) sample_memory = Some w' \<and>
     session_at memory_env mem_colls sample_memory sid = None \<and> session_at memory_env mem_colls w' sid = Some (u, t, one_month div 2) \<and>
     table_op one_month (one_month div 2) (credentials memory_env (mem_colls sample_memory (collection_users memory_env)))
       (mem_now sample_memory) (mem_now w') (Account (Login sample_form))
       (session_at memory_env mem_colls sample_memory) (session_at memory_env mem_colls w')"
proof -
  obtain x w where s: "session_started memory_env mem_colls mem_now sample_memory 7 x 0 w"
    "login_user memory_env sample_form sample_memory = (Inr (''a0'', session_cookie_text memory_env x 0), w)"
    by (rule sample_session)
  have q: "quiet_draw mem_colls mem_now (\<lambda>w. (0, w))" by (simp add: quiet_draw_def)
  have r: "run_service memory_env (\<lambda>n w. (0, w)) (Account (Login sample_form)) sample_memory = Some w"
    by (simp add: run_service_def run_op_def s(2))
  have l: "session_lifetime memory_env = one_month" "session_restart_after memory_env = one_month div 2"
    by (simp_all add: memory_env_def default_parameters_def)
  from service_refines_table [OF memory_db.mongo_store_axioms q sample_memory_ok r] s(1) r l show ?thesis
    by (auto simp: session_started_def)
qed

text \<open>
  C8: After a successful logout the session is over for ever: whatever the service is asked afterwards, by
  whomever and in whatever order, \<open>continue_session\<close> answers that there is no such session.
\<close>
theorem logged_out_of_service:
  assumes "mongo_store env coll now" "\<And>n. quiet_draw coll now (draw n)" "database_ok env coll w"
    and "logout_user env sid w = (Inr (), w1)" "run_services env draw ops w1 = Some w2"
  shows "fst (continue_session env sid w2) = Inl (Logic (Session_not_found sid))"
proof (rule mongo_store.service_logged_out [OF assms(1,3,4)])
  show "mongo_store.service_later env coll now w1 w2"
    unfolding mongo_store.service_later_def [OF assms(1)] using assms(2,5) by blast
qed

lemma logged_out_of_service_witness:
  "\<exists>x w w1 w2. logout_user memory_env x w = (Inr (), w1) \<and>
     run_services memory_env (\<lambda>n w. (0, w)) [Account (Login sample_form), List_users x, Add_friend ''b1'' x] w1 = Some w2 \<and>
     fst (continue_session memory_env x w2) = Inl (Logic (Session_not_found x))"
proof -
  obtain x w where s: "database_ok memory_env mem_colls w" "fst (logout_user memory_env x w) = Inr ()"
    by (rule sample_session)
  then have l: "logout_user memory_env x w = (Inr (), snd (logout_user memory_env x w))" by (simp add: prod_eq_iff)
  have q: "quiet_draw mem_colls mem_now (\<lambda>w. (0, w))" by (simp add: quiet_draw_def)
  obtain w2 where r: "run_services memory_env (\<lambda>n w. (0, w)) [Account (Login sample_form), List_users x, Add_friend ''b1'' x]
      (snd (logout_user memory_env x w)) = Some w2"
    by (simp add: run_service_def)
  from logged_out_of_service [OF memory_db.mongo_store_axioms q s(1) l r] l r show ?thesis by blast
qed

text \<open>
  A session that was started for a user is that user's as long as it lives: whatever the service is asked
  afterwards, by whomever and in whatever order, if \<open>continue_session\<close> accepts it without a restart, it names
  this user, and the lifetime it was given is not over.
\<close>
theorem session_keeps_user:
  assumes "mongo_store env coll now" "\<And>n. quiet_draw coll now (draw n)" "database_ok env coll w1"
    and "session_started env coll now w u sid t w1" "run_services env draw ops w1 = Some w2"
    and "continue_session env sid w2 = (Inr (x, []), w3)"
  shows "x = oid_string env u \<and> now w2 < t + session_lifetime env"
proof (rule mongo_store.service_keeps_user [OF assms(1,4,3) _ assms(6)])
  show "mongo_store.service_later env coll now w1 w2"
    unfolding mongo_store.service_later_def [OF assms(1)] using assms(2,5) by blast
qed

lemma session_keeps_user_witness:
  "\<exists>x w w3. session_started memory_env mem_colls mem_now sample_memory 7 x 0 w \<and>
     run_services memory_env (\<lambda>n w. (0, w)) [] w = Some w \<and>
     continue_session memory_env x w = (Inr (mem_oid_string 7, []), w3) \<and> mem_now w < one_month"
proof -
  obtain x w where s: "session_started memory_env mem_colls mem_now sample_memory 7 x 0 w" "database_ok memory_env mem_colls w"
      "fst (continue_session memory_env x w) = Inr (mem_oid_string 7, [])"
    by (rule sample_session)
  then have c: "continue_session memory_env x w = (Inr (mem_oid_string 7, []), snd (continue_session memory_env x w))"
    by (simp add: prod_eq_iff)
  have q: "quiet_draw mem_colls mem_now (\<lambda>w. (0, w))" by (simp add: quiet_draw_def)
  have r: "run_services memory_env (\<lambda>n w. (0, w)) [] w = Some w" by simp
  from session_keeps_user [OF memory_db.mongo_store_axioms q s(2,1) r c] c s(1) show ?thesis by auto
qed

end
