(* ===== verification/Logger.thy ===== *)
theory Logger
  imports Prelude
begin

text \<open>
  \<open>logger\<close>: the levels, the lines that go to \<open>syslog\<close>, the stream that writes one line when it is
  destroyed, and the object whose life is the life of the log. What \<open>syslog\<close> does with a line is the
  system's; the model keeps the calls.
\<close>

section \<open>Levels\<close>

text \<open>The priorities of \<open>syslog.h\<close>; a level is a regular or a security one.\<close>

definition LOG_CRIT :: int where "LOG_CRIT = 2"
definition LOG_ERR :: int where "LOG_ERR = 3"
definition LOG_WARNING :: int where "LOG_WARNING = 4"
definition LOG_NOTICE :: int where "LOG_NOTICE = 5"
definition LOG_INFO :: int where "LOG_INFO = 6"
definition LOG_DEBUG :: int where "LOG_DEBUG = 7"

datatype level = Regular int | Security int

definition regular_levels :: "(string \<times> level) list" where
  "regular_levels =
     [(''debug'', Regular LOG_DEBUG),
      (''info'', Regular LOG_INFO),
      (''warning'', Regular LOG_WARNING),
      (''error'', Regular LOG_ERR),
      (''critical'', Regular LOG_CRIT),
      (''other'', Regular LOG_NOTICE)]"

definition security_levels :: "(string \<times> level) list" where
  "security_levels =
     [(''sec_debug'', Security LOG_DEBUG),
      (''sec_info'', Security LOG_INFO),
      (''sec_warning'', Security LOG_WARNING),
      (''sec_error'', Security LOG_ERR),
      (''sec_critical'', Security LOG_CRIT),
      (''sec_other'', Security LOG_NOTICE)]"

abbreviation level_info :: level where "level_info \<equiv> Regular LOG_INFO"
abbreviation level_error :: level where "level_error \<equiv> Regular LOG_ERR"
abbreviation level_sec_info :: level where "level_sec_info \<equiv> Security LOG_INFO"
abbreviation level_sec_warning :: level where "level_sec_warning \<equiv> Security LOG_WARNING"

section \<open>Writing lines\<close>

text \<open>What \<open>printf\<close> sees of \<open>data.c_str()\<close> with \<open>%s\<close>: everything up to the first NUL.\<close>

definition c_str :: "string \<Rightarrow> string" where
  "c_str s = takeWhile (\<lambda>c. c \<noteq> CHR 0x00) s"

type_synonym line = "int \<times> string"

definition log_security_prefix :: string where
  "log_security_prefix = ''<Security>: ''"

fun log :: "level \<Rightarrow> string \<Rightarrow> line" where
  "log (Regular priority) data = (priority, c_str data)"
| "log (Security priority) data = (priority, log_security_prefix @ c_str data)"

text \<open>\<open>log_stream\<close>: what was inserted becomes one line in the destructor, if it is not empty.\<close>

definition log_stream :: "level \<Rightarrow> string \<Rightarrow> line list" where
  "log_stream lvl str = (if str \<noteq> [] then [log lvl str] else [])"

section \<open>The log of the process\<close>

record syslog_state =
  sl_ident :: "string option"              \<comment> \<open>since \<open>openlog\<close>, the name that marks the lines\<close>
  sl_lines :: "(string option \<times> line) list"

definition openlog :: "string \<Rightarrow> syslog_state \<Rightarrow> syslog_state" where
  "openlog ident s = s\<lparr>sl_ident := Some (c_str ident)\<rparr>"

definition closelog :: "syslog_state \<Rightarrow> syslog_state" where
  "closelog s = s\<lparr>sl_ident := None\<rparr>"

definition syslog :: "line \<Rightarrow> syslog_state \<Rightarrow> syslog_state" where
  "syslog l s = s\<lparr>sl_lines := sl_lines s @ [(sl_ident s, l)]\<rparr>"

definition start_log :: "string \<Rightarrow> syslog_state \<Rightarrow> syslog_state" where
  "start_log log_name s = syslog (log level_info ''Log started...'') (openlog log_name s)"

text \<open>Both constructors of \<open>global_instance\<close> store the name and start the log.\<close>

definition logger_instance :: "string \<Rightarrow> syslog_state \<Rightarrow> string \<times> syslog_state" where
  "logger_instance log_name s = (log_name, start_log log_name s)"

definition end_instance :: "syslog_state \<Rightarrow> syslog_state" where
  "end_instance s = closelog (syslog (log level_info ''End of log.'') s)"

section \<open>Laws\<close>

lemma c_str_no_nul: "CHR 0x00 \<notin> set s \<Longrightarrow> c_str s = s"
  by (auto simp: c_str_def takeWhile_eq_all_conv)

lemma c_str_append: "CHR 0x00 \<notin> set s \<Longrightarrow> c_str (s @ t) = s @ c_str t"
  unfolding c_str_def by (rule takeWhile_all) auto

lemma c_str_nul: "c_str (CHR 0x00 # s) = []"
  by (simp add: c_str_def)

lemma set_c_str: "set (c_str s) \<subseteq> set s"
  by (auto simp: c_str_def dest: set_takeWhileD)

lemma levels_distinct: "distinct (map snd (regular_levels @ security_levels))"
  by (simp add: regular_levels_def security_levels_def LOG_CRIT_def LOG_ERR_def LOG_WARNING_def LOG_NOTICE_def
      LOG_INFO_def LOG_DEBUG_def)

text \<open>A line of a regular level never looks like a security line of the same text, unless the text does.\<close>

lemma log_sel [simp]:
  "fst (log (Regular p) s) = p" "fst (log (Security p) s) = p"
  "snd (log (Regular p) s) = c_str s" "snd (log (Security p) s) = log_security_prefix @ c_str s"
  by simp_all

text \<open>
  The log of a process brackets what is written while the object lives: the first line says that it
  has started, the last that it ends, and every line in between carries the name it was opened with.
\<close>
theorem log_bracketed:
  "end_instance (fold syslog written (snd (logger_instance log_name \<lparr>sl_ident = None, sl_lines = []\<rparr>))) = \<lparr>sl_ident = None,
    sl_lines = map (\<lambda>l. (Some (c_str log_name), l))
      ([(LOG_INFO, ''Log started...'')] @ written @ [(LOG_INFO, ''End of log.'')])\<rparr>"
proof -
  have f: "fold syslog ls s = s\<lparr>sl_lines := sl_lines s @ map (\<lambda>l. (sl_ident s, l)) ls\<rparr>" for ls s
    by (induction ls arbitrary: s) (simp_all add: syslog_def)
  show ?thesis
    by (simp add: f logger_instance_def start_log_def end_instance_def closelog_def openlog_def syslog_def c_str_no_nul)
qed

end
