(* ===== verification/Session_Log.thy ===== *)
theory Session_Log
  imports Session Http_Message Logger
begin

text \<open>
  What a session writes to the log: the request itself (\<open>operator<<\<close> of \<open>http/request.cpp\<close>), and the
  lines of \<open>session\<close> and of \<open>host::manager\<close>. The functions here are those of \<open>Session\<close> with their log; that
  the log changes nothing else is proved, not assumed.
\<close>

section \<open>The request as a line\<close>

text \<open>
  The containers of the headers and of the cookies are hashed: the order in which they are written is
  a parameter, of which only one thing is known, that it is an order of the same elements.
\<close>

type_synonym order = "(string \<times> string) list \<Rightarrow> (string \<times> string) list"

definition reorders :: "order \<Rightarrow> bool" where
  "reorders ord \<longleftrightarrow> (\<forall>ps. set (ord ps) = set ps)"

definition pair_text :: "string \<times> string \<Rightarrow> string" where
  "pair_text = (\<lambda>(k, v). '' ['' @ k @ '': '' @ v @ '']'')"

definition pairs_text :: "order \<Rightarrow> string \<Rightarrow> (string \<times> string) list \<Rightarrow> string" where
  "pairs_text ord title ps = (if ps = [] then [] else title @ concat (map pair_text (ord ps)) @ ''.'')"

definition request_text :: "order \<Rightarrow> request \<Rightarrow> string" where
  "request_text ord rq =
     ''Client: '' @ rq_client_address rq @ '': '' @ str_HTTP @ str_slash @ version_to_str (rq_version rq) @
     '', '' @ method_to_str (rq_method rq) @ '', Path: '' @ [DQUOTE] @ rq_path rq @
     [DQUOTE] @ ''. Host: '' @ [DQUOTE] @ rq_host rq @ [DQUOTE] @ '', port: '' @ to_string (unat (rq_port rq)) @ ''.'' @
     pairs_text ord '' Parsed headers:'' (rq_parsed_headers rq) @
     pairs_text ord '' Unparsed headers:'' (rq_unparsed_headers rq) @
     pairs_text ord '' Cookies:'' (rq_cookies rq) @
     (if rq_content_length rq \<noteq> 0 then '' Content length: '' @ to_string (unat (rq_content_length rq)) @ ''.'' else [])"

section \<open>Processing a request, with its log\<close>

definition manager_host_log :: "'w manager \<Rightarrow> string \<Rightarrow> port_type \<Rightarrow> line list" where
  "manager_host_log m n port = (case find_host n m of
     None \<Rightarrow> log_stream level_sec_info (''Host manager: Requested access to nonexistent host: '' @ [DQUOTE] @ n @ [DQUOTE] @
       '', port: '' @ to_string (unat port) @ ''.'')
   | Some h \<Rightarrow> if \<not> port_allowed (vh_base h) port then
       log_stream level_sec_warning (''Host manager: Requested access to non-allowed port: host: '' @ [DQUOTE] @ n @ [DQUOTE] @
         '', port: '' @ to_string (unat port) @ ''.'')
     else [])"

definition port_warning :: "request \<Rightarrow> line list" where
  "port_warning rq = log_stream level_sec_warning (''Client: '' @ rq_client_address rq @ '': '' @
     what (Http (Incorrect_port (to_string (unat (rq_port rq))))) @ ''.'')"

text \<open>
  What a host writes while it answers depends on the host: \<open>hlog\<close> is a parameter here, \<open>Worker_Log\<close>
  has that of the site.
\<close>

type_synonym 'w host_log = "'w vhost \<Rightarrow> string \<Rightarrow> request \<Rightarrow> 'w \<Rightarrow> line list"

text \<open>Every round of the loop writes the request before it looks at it.\<close>

partial_function (option) dispatch_logged ::
  "order \<Rightarrow> 'w host_log \<Rightarrow> 'w manager \<Rightarrow> port_type \<Rightarrow> string \<Rightarrow> request \<Rightarrow> 'w \<Rightarrow> line list \<Rightarrow>
    (((exn + response) \<times> request \<times> 'w) \<times> line list) option" where
  [code]: "dispatch_logged ord hlog mgr server_port server_name rq w ls =
     (let ls = ls @ log_stream level_info (request_text ord rq) in
      if rq_port rq \<noteq> server_port
      then Some ((Inl (Http (Incorrect_port (to_string (unat (rq_port rq))))), rq, w), ls @ port_warning rq)
      else (let ls = ls @ manager_host_log mgr (rq_host rq) (rq_port rq) in
        case manager_host mgr (rq_host rq) (rq_port rq) of
          Inl e \<Rightarrow> Some ((Inl e, rq, w), ls)
        | Inr host \<Rightarrow>
           (let ls = ls @ hlog host server_name rq w in
            case vh_response host server_name rq w of
              (Inl e, rq, w) \<Rightarrow> Some ((Inl e, rq, w), ls)
            | (Inr (Some r), rq, w) \<Rightarrow> Some ((Inr r, rq, w), ls)
            | (Inr None, rq, w) \<Rightarrow> dispatch_logged ord hlog mgr server_port server_name rq w ls)))"

definition error_line :: "request \<Rightarrow> exn \<Rightarrow> line list" where
  "error_line rq e = log_stream level_error (''Client: '' @ rq_client_address rq @ '': '' @
     (if is_std_exception e then what e else ''Unknown error'') @ '' => '' @
     code_str (session_error_status e) @ '' '' @ description (session_error_status e) @ ''.'')"

definition process_request_logged ::
  "order \<Rightarrow> 'w host_log \<Rightarrow> req_env \<Rightarrow> 'w manager \<Rightarrow> string \<Rightarrow> 'w session \<Rightarrow> ('w session \<times> line list) option" where
  "process_request_logged ord hlog env mgr server_name s =
     (case read_request env s of
        (Inl e, s) \<Rightarrow> Some (session_handle_error server_name e s, error_line (ss_request s) e)
      | (Inr required_body_size, s) \<Rightarrow>
         if required_body_size \<noteq> 0 then
           Some (s\<lparr>ss_processing_new_request := False, ss_read := Read_at_least (unat required_body_size)\<rparr>, [])
         else
           (let s = s\<lparr>ss_processing_new_request := True\<rparr> in
            case dispatch_logged ord hlog mgr (ss_server_port s) server_name (ss_request s) (ss_world s) [] of
              None \<Rightarrow> None
            | Some ((Inl e, rq, w), ls) \<Rightarrow>
                Some (session_handle_error server_name e (s\<lparr>ss_request := rq, ss_world := w\<rparr>), ls @ error_line rq e)
            | Some ((Inr r, rq, w), ls) \<Rightarrow>
                (let s = send_response r (s\<lparr>ss_request := rq, ss_world := w\<rparr>) in
                 Some (if rq_keep_alive (ss_request s) then add_request_handler s else s, ls))))"

text \<open>The lines of the handlers: the message of an error code, or the end of the stream.\<close>

datatype read_error = Eof | Read_failed string

definition connected_line :: "string \<Rightarrow> line list" where
  "connected_line client_address = log_stream level_info (''Client: '' @ client_address @ '': Connected.'')"

fun request_handler_line :: "string \<Rightarrow> read_error \<Rightarrow> line list" where
  "request_handler_line client_address Eof =
     log_stream level_info (''Client: '' @ client_address @ '': Disconnected.'')"
| "request_handler_line client_address (Read_failed message) =
     log_stream level_error (''Client: '' @ client_address @ '': '' @ message @ ''.'')"

definition response_handler_line :: "string \<Rightarrow> string \<Rightarrow> line list" where
  "response_handler_line client_address message =
     log_stream level_error (''Client: '' @ client_address @ '': Error sending response: '' @ message @ ''.'')"

section \<open>The log changes nothing\<close>

lemma dispatch_logged_dispatch:
  assumes "dispatch_logged ord hlog mgr port sn rq w ls = Some y"
  shows "dispatch mgr port sn rq w = Some (fst y) \<and> (\<exists>more. snd y = ls @ log_stream level_info (request_text ord rq) @ more)"
proof (rule dispatch_logged.raw_induct [where P = "\<lambda>ord hlog mgr port sn rq w ls y. dispatch mgr port sn rq w = Some (fst y) \<and>
      (\<exists>more. snd y = ls @ log_stream level_info (request_text ord rq) @ more)", OF _ assms])
  fix f ord hlog mgr port sn rq w ls y
  assume IH: "\<And>ord hlog mgr port sn rq (w :: 'a) ls y. f ord hlog mgr port sn rq w ls = Some y \<Longrightarrow>
      dispatch mgr port sn rq w = Some (fst y) \<and> (\<exists>more. snd y = ls @ log_stream level_info (request_text ord rq) @ more)"
    and body: "(let ls = ls @ log_stream level_info (request_text ord rq) in
      if rq_port rq \<noteq> port
      then Some ((Inl (Http (Incorrect_port (to_string (unat (rq_port rq))))), rq, w), ls @ port_warning rq)
      else (let ls = ls @ manager_host_log mgr (rq_host rq) (rq_port rq) in
        case manager_host mgr (rq_host rq) (rq_port rq) of
          Inl e \<Rightarrow> Some ((Inl e, rq, w), ls)
        | Inr host \<Rightarrow>
           (let ls = ls @ hlog host sn rq w in
            case vh_response host sn rq w of
              (Inl e, rq, w) \<Rightarrow> Some ((Inl e, rq, w), ls)
            | (Inr None, rq, w) \<Rightarrow> f ord hlog mgr port sn rq w ls
            | (Inr (Some r), rq, w) \<Rightarrow> Some ((Inr r, rq, w), ls)))) = Some y"
  let ?ls = "ls @ log_stream level_info (request_text ord rq)"
  show "dispatch mgr port sn rq w = Some (fst y) \<and> (\<exists>more. snd y = ls @ log_stream level_info (request_text ord rq) @ more)"
  proof (cases "rq_port rq \<noteq> port")
    case True
    then show ?thesis using body by (subst dispatch.simps) (auto simp: Let_def)
  next
    case False
    show ?thesis
    proof (cases "manager_host mgr (rq_host rq) (rq_port rq)")
      case (Inl e)
      then show ?thesis using body False by (subst dispatch.simps) (auto simp: Let_def)
    next
      case (Inr host)
      obtain x rq1 w1 where v: "vh_response host sn rq w = (x, rq1, w1)" by (metis prod_cases3)
      consider e where "x = Inl e" | "x = Inr None" | r where "x = Inr (Some r)"
        by (metis option.exhaust sum.exhaust)
      then show ?thesis
      proof cases
        case 2
        then have "f ord hlog mgr port sn rq1 w1 ((?ls @ manager_host_log mgr (rq_host rq) (rq_port rq)) @ hlog host sn rq w) = Some y"
          using body False Inr v by (simp add: Let_def)
        from IH [OF this] show ?thesis using False Inr v 2 by (subst dispatch.simps) auto
      next
        case (3 r)
        then show ?thesis using body False Inr v by (subst dispatch.simps) (simp add: Let_def, auto)
      qed (use body False Inr v in \<open>subst dispatch.simps, auto simp: Let_def\<close>)
    qed
  qed
qed

lemma dispatch_dispatch_logged:
  assumes "dispatch mgr port sn rq w = Some y"
  shows "\<exists>ls'. dispatch_logged ord hlog mgr port sn rq w ls = Some (y, ls')"
proof -
  have "\<forall>ls. \<exists>ls'. dispatch_logged ord hlog mgr port sn rq w ls = Some (y, ls')"
  proof (rule dispatch.raw_induct [where P = "\<lambda>mgr port sn rq w y.
        \<forall>ls. \<exists>ls'. dispatch_logged ord hlog mgr port sn rq w ls = Some (y, ls')", OF _ assms], intro allI)
    fix f mgr port sn rq w y ls
    assume IH: "\<And>mgr port sn rq (w :: 'a) y. f mgr port sn rq w = Some y \<Longrightarrow>
        \<forall>ls. \<exists>ls'. dispatch_logged ord hlog mgr port sn rq w ls = Some (y, ls')"
      and body: "(if rq_port rq \<noteq> port
        then Some (Inl (Http (Incorrect_port (to_string (unat (rq_port rq))))), rq, w)
        else case manager_host mgr (rq_host rq) (rq_port rq) of
          Inl e \<Rightarrow> Some (Inl e, rq, w)
        | Inr host \<Rightarrow>
           (case vh_response host sn rq w of
              (Inl e, rq, w) \<Rightarrow> Some (Inl e, rq, w)
            | (Inr None, rq, w) \<Rightarrow> f mgr port sn rq w
            | (Inr (Some r), rq, w) \<Rightarrow> Some (Inr r, rq, w))) = Some y"
    show "\<exists>ls'. dispatch_logged ord hlog mgr port sn rq w ls = Some (y, ls')"
    proof (cases "rq_port rq \<noteq> port")
      case True
      then show ?thesis using body by (subst dispatch_logged.simps) (auto simp: Let_def)
    next
      case False
      show ?thesis
      proof (cases "manager_host mgr (rq_host rq) (rq_port rq)")
        case (Inl e)
        then show ?thesis using body False by (subst dispatch_logged.simps) (auto simp: Let_def)
      next
        case (Inr host)
        obtain x rq1 w1 where v: "vh_response host sn rq w = (x, rq1, w1)" by (metis prod_cases3)
        consider e where "x = Inl e" | "x = Inr None" | r where "x = Inr (Some r)"
          by (metis option.exhaust sum.exhaust)
        then show ?thesis
        proof cases
          case 2
          then have "f mgr port sn rq1 w1 = Some y" using body False Inr v by simp
          from IH [OF this] show ?thesis using False Inr v 2 by (subst dispatch_logged.simps) (simp add: Let_def)
        next
          case (3 r)
          then show ?thesis using body False Inr v by (subst dispatch_logged.simps) (simp add: Let_def)
        qed (use body False Inr v in \<open>subst dispatch_logged.simps, auto simp: Let_def\<close>)
      qed
    qed
  qed
  then show ?thesis by blast
qed

lemma dispatch_logged_forget:
  "map_option fst (dispatch_logged ord hlog mgr port sn rq w ls) = dispatch mgr port sn rq w"
proof (cases "dispatch mgr port sn rq w")
  case None
  then show ?thesis using dispatch_logged_dispatch [of ord hlog mgr port sn rq w ls]
    by (cases "dispatch_logged ord hlog mgr port sn rq w ls") auto
next
  case (Some y)
  from dispatch_dispatch_logged [OF this, of ord hlog ls] show ?thesis using Some by (cases y) auto
qed

text \<open>
  Logging is only logging: with the lines it writes, a session processes a request exactly as
  without them, whether it answers, fails, waits for more, or never returns.
\<close>
theorem logging_is_transparent:
  "map_option fst (process_request_logged ord hlog env mgr sn s) = process_request env mgr sn s"
proof -
  obtain r s1 where rd: "read_request env s = (r, s1)" by fastforce
  show ?thesis
  proof (cases r)
    case (Inr n)
    show ?thesis
    proof (cases "n = 0")
      case True
      let ?d = "dispatch_logged ord hlog mgr (ss_server_port s1) sn (ss_request s1) (ss_world s1) []"
      have "dispatch mgr (ss_server_port s1) sn (ss_request s1) (ss_world s1) = map_option fst ?d"
        by (simp add: dispatch_logged_forget)
      then show ?thesis using rd Inr True
        by (cases ?d) (auto simp: process_request_logged_def process_request_def Let_def split: prod.splits sum.splits)
    qed (simp add: rd Inr process_request_logged_def process_request_def)
  qed (simp add: rd process_request_logged_def process_request_def)
qed

section \<open>One request, one line\<close>

text \<open>Every group that is captured inside the groups \<open>i\<close> of an expression keeps to their characters.\<close>

primrec only :: "(char \<Rightarrow> bool) \<Rightarrow> regex \<Rightarrow> bool" where
  "only P Eps \<longleftrightarrow> True"
| "only P (Cls Q) \<longleftrightarrow> (\<forall>c. Q c \<longrightarrow> P c)"
| "only P (Sq a b) \<longleftrightarrow> only P a \<and> only P b"
| "only P (Alt a b) \<longleftrightarrow> only P a \<and> only P b"
| "only P (Star r) \<longleftrightarrow> only P r"
| "only P (Grp i r) \<longleftrightarrow> only P r"
| "only P Bol \<longleftrightarrow> True"
| "only P Eol \<longleftrightarrow> True"

primrec groups_only :: "(char \<Rightarrow> bool) \<Rightarrow> regex \<Rightarrow> bool" where
  "groups_only P Eps \<longleftrightarrow> True"
| "groups_only P (Cls Q) \<longleftrightarrow> True"
| "groups_only P (Sq a b) \<longleftrightarrow> groups_only P a \<and> groups_only P b"
| "groups_only P (Alt a b) \<longleftrightarrow> groups_only P a \<and> groups_only P b"
| "groups_only P (Star r) \<longleftrightarrow> groups_only P r"
| "groups_only P (Grp i r) \<longleftrightarrow> only P r"
| "groups_only P Bol \<longleftrightarrow> True"
| "groups_only P Eol \<longleftrightarrow> True"

definition caps_only :: "(char \<Rightarrow> bool) \<Rightarrow> caps \<Rightarrow> bool" where
  "caps_only P c \<longleftrightarrow> (\<forall>(i, s)\<in>set c. list_all P s)"

lemma caps_only_Nil [simp]: "caps_only P []"
  by (simp add: caps_only_def)

lemma caps_only_group: "caps_only P c \<Longrightarrow> list_all P (group i c)"
  by (auto simp: caps_only_def group_def split: option.split dest!: map_of_SomeD)

lemma repeat_invariant:
  assumes "\<And>a b. b \<in> set (f a) \<Longrightarrow> I a \<Longrightarrow> I b"
  shows "st' \<in> set (repeat f k st) \<Longrightarrow> I st \<Longrightarrow> I st'"
proof (induction k arbitrary: st)
  case (Suc k)
  show ?case
  proof (cases "st' = st")
    case False
    with Suc.prems(1) obtain a where a: "a \<in> set (f st)" "st' \<in> set (repeat f k a)" by auto
    from Suc.IH [OF a(2) assms [OF a(1) Suc.prems(2)]] show ?thesis .
  qed (use Suc.prems in simp)
qed simp

lemma only_run:
  "only P r \<Longrightarrow> st' \<in> set (run r st) \<Longrightarrow>
   \<exists>u. mrest st = u @ mrest st' \<and> mpos st' = mpos st + length u \<and> list_all P u"
proof (induction r arbitrary: st st')
  case (Sq a b)
  from Sq.prems(2) obtain st1 where st1: "st1 \<in> set (run a st)" "st' \<in> set (run b st1)" by auto
  from Sq.IH(1) [OF _ st1(1)] Sq.prems(1) obtain u where u: "mrest st = u @ mrest st1" "mpos st1 = mpos st + length u" "list_all P u"
    by auto
  from Sq.IH(2) [OF _ st1(2)] Sq.prems(1) obtain v where v: "mrest st1 = v @ mrest st'" "mpos st' = mpos st1 + length v" "list_all P v"
    by auto
  show ?case using u v by (intro exI [of _ "u @ v"]) simp
next
  case (Star r)
  let ?I = "\<lambda>a. \<exists>u. mrest st = u @ mrest a \<and> mpos a = mpos st + length u \<and> list_all P u"
  show ?case
  proof (rule repeat_invariant [where f = "run r" and I = ?I])
    show "st' \<in> set (repeat (run r) (length (mrest st)) st)" using Star.prems(2) by simp
    show "?I st" by simp
    fix a b assume b: "b \<in> set (run r a)" and "?I a"
    then obtain u where u: "mrest st = u @ mrest a" "mpos a = mpos st + length u" "list_all P u" by blast
    from Star.IH [OF _ b] Star.prems(1) obtain v where v: "mrest a = v @ mrest b" "mpos b = mpos a + length v" "list_all P v"
      by auto
    show "?I b" using u v by (intro exI [of _ "u @ v"]) simp
  qed
next
  case (Alt a b)
  then have "st' \<in> set (run a st) \<or> st' \<in> set (run b st)" by simp
  then show ?case
  proof
    assume "st' \<in> set (run a st)"
    from Alt.IH(1) [OF _ this] Alt.prems(1) show ?thesis by simp
  next
    assume "st' \<in> set (run b st)"
    from Alt.IH(2) [OF _ this] Alt.prems(1) show ?thesis by simp
  qed
next
  case (Grp i r)
  then obtain x where "x \<in> set (run r st)" "mrest st' = mrest x" "mpos st' = mpos x" by auto
  then show ?case using Grp.IH [of x st] Grp.prems(1) by simp
next
  case (Cls Q)
  then show ?case
    by (cases "mrest st") (auto intro!: exI [of _ "[hd (mrest st)]"] split: if_splits)
qed (simp_all split: if_splits)

lemma groups_only_run:
  "groups_only P r \<Longrightarrow> st' \<in> set (run r st) \<Longrightarrow> caps_only P (mcaps st) \<Longrightarrow> caps_only P (mcaps st')"
proof (induction r arbitrary: st st')
  case (Sq a b)
  from Sq.prems(2) obtain st1 where st1: "st1 \<in> set (run a st)" "st' \<in> set (run b st1)" by auto
  show ?case
    by (rule Sq.IH(2) [OF _ st1(2) Sq.IH(1) [OF _ st1(1) Sq.prems(3)]]) (use Sq.prems(1) in simp_all)
next
  case (Star r)
  show ?case
  proof (rule repeat_invariant [where f = "run r" and I = "\<lambda>a. caps_only P (mcaps a)"])
    show "st' \<in> set (repeat (run r) (length (mrest st)) st)" using Star.prems(2) by simp
    show "caps_only P (mcaps b)" if "b \<in> set (run r a)" "caps_only P (mcaps a)" for a b
      by (rule Star.IH [OF _ that]) (use Star.prems(1) in simp)
  qed (rule Star.prems(3))
next
  case (Alt a b)
  then have "st' \<in> set (run a st) \<or> st' \<in> set (run b st)" by simp
  then show ?case
  proof
    assume "st' \<in> set (run a st)"
    from Alt.IH(1) [OF _ this Alt.prems(3)] Alt.prems(1) show ?thesis by simp
  next
    assume "st' \<in> set (run b st)"
    from Alt.IH(2) [OF _ this Alt.prems(3)] Alt.prems(1) show ?thesis by simp
  qed
next
  case (Grp i r)
  then obtain x where x: "x \<in> set (run r st)"
    "mcaps st' = (i, take (mpos x - mpos st) (mrest st)) # mcaps x" by auto
  have o: "only P r" using Grp.prems(1) by simp
  then have "groups_only P r" by (induction r) auto
  from Grp.IH [OF this x(1) Grp.prems(3)] only_run [OF o x(1)] x(2) show ?case by (auto simp: caps_only_def)
next
  case (Cls Q)
  then show ?case by (cases "mrest st") (auto split: if_splits)
qed (simp_all split: if_splits)

lemma groups_only_match: "groups_only P r \<Longrightarrow> regex_match r s = Some m \<Longrightarrow> caps_only P m"
proof -
  assume g: "groups_only P r" and m: "regex_match r s = Some m"
  obtain st where f: "List.find (\<lambda>st. mrest st = []) (run r (0, s, [])) = Some st" "m = mcaps st"
    using m by (auto simp: regex_match_def)
  then have "st \<in> set (run r (0, s, []))" by (auto simp: find_Some_iff)
  from groups_only_run [OF g this] f(2) show ?thesis by simp
qed

lemma search_from_run:
  "search_from r n s = Some (p, l, c, t) \<Longrightarrow> \<exists>st st'. st' \<in> set (run r st) \<and> mcaps st = [] \<and> mcaps st' = c"
proof (induction r n s rule: search_from.induct)
  case (1 r n s)
  show ?case
  proof (cases "run r (n, s, [])")
    case (Cons st sts)
    then have "mcaps st = c" using 1(2) by (simp add: search_from.simps)
    then show ?thesis using Cons by (intro exI [of _ "(n, s, [])"] exI [of _ st]) simp
  next
    case Nil
    then show ?thesis using 1 by (cases s) (auto simp: search_from.simps [of r n])
  qed
qed

lemma groups_only_iterate:
  "groups_only P r \<Longrightarrow> (p, l, c) \<in> set (regex_iterate r n s) \<Longrightarrow> caps_only P c"
proof (induction r n s rule: regex_iterate.induct)
  case (1 r n s)
  have "search_from r n s \<noteq> None"
  proof
    assume "search_from r n s = None"
    then have "regex_iterate r n s = []" by (subst regex_iterate.simps) simp
    then show False using "1.prems"(2) by simp
  qed
  then obtain x where f0: "search_from r n s = Some x" by blast
  obtain p' l' c' t where x: "x = (p', l', c', t)" by (metis prod_cases4)
  note f = f0 [unfolded x]
  have "(p, l, c) \<in> set ((p', l', c') # (if length t < length s then regex_iterate r (p' + l') t else []))"
    using "1.prems"(2) by (subst (asm) regex_iterate.simps) (simp add: f)
  then consider "c = c'" | "length t < length s" "(p, l, c) \<in> set (regex_iterate r (p' + l') t)"
    by (auto split: if_splits)
  then show ?case
  proof cases
    case 1
    from search_from_run [OF f] groups_only_run [OF "1.prems"(1)] show ?thesis unfolding 1 by fastforce
  next
    case 2
    from "1.IH" [OF f refl refl refl 2(1) "1.prems"(1) 2(2)] show ?thesis .
  qed
qed

text \<open>Everything of the request that is written, without the address of the client.\<close>

definition one_line :: "string \<Rightarrow> bool" where
  "one_line s \<longleftrightarrow> list_all not_newline s"

definition clean_pairs :: "(string \<times> string) list \<Rightarrow> bool" where
  "clean_pairs ps \<longleftrightarrow> (\<forall>(k, v)\<in>set ps. one_line k \<and> one_line v)"

lemma clean_pairs_simps [simp]:
  "clean_pairs []" "clean_pairs (p # ps) \<longleftrightarrow> one_line (fst p) \<and> one_line (snd p) \<and> clean_pairs ps"
  "clean_pairs (ps @ qs) \<longleftrightarrow> clean_pairs ps \<and> clean_pairs qs"
  by (auto simp: clean_pairs_def case_prod_beta)

definition clean :: "request \<Rightarrow> bool" where
  "clean rq \<longleftrightarrow> one_line (rq_uri rq) \<and> one_line (rq_path rq) \<and> one_line (rq_host rq) \<and>
     clean_pairs (rq_parsed_headers rq) \<and> clean_pairs (rq_unparsed_headers rq) \<and> clean_pairs (rq_cookies rq)"

lemma one_line_append: "one_line (s @ t) \<longleftrightarrow> one_line s \<and> one_line t"
  by (simp add: one_line_def)

lemma one_line_sub: "one_line s \<Longrightarrow> set t \<subseteq> set s \<Longrightarrow> one_line t"
  by (auto simp: one_line_def list_all_iff)

lemma clean_reset: "clean (reset rq)"
  by (simp add: clean_def reset_def one_line_def)

lemma clean_start: "process_start_string str rq = (r, rq') \<Longrightarrow> clean rq \<Longrightarrow> clean rq'"
proof -
  assume p: "process_start_string str rq = (r, rq')" and c: "clean rq"
  have u: "one_line u" if "scan_start str = Some (m, u, q)" for m u q
  proof -
    have "\<forall>x\<in>set u. not_space x"
      using that by (auto simp: scan_start_def Let_def split: if_splits dest: set_takeWhileD)
    then show ?thesis by (auto simp: one_line_def list_all_iff is_space_def not_newline_def)
  qed
  show ?thesis using p c u
    by (auto simp: process_start_scan Let_def clean_def split: option.splits if_splits)
qed

lemma clean_emplace:
  "clean_pairs cs \<Longrightarrow> one_line k \<Longrightarrow> one_line v \<Longrightarrow> clean_pairs (emplace k v cs)"
  by (simp add: emplace_def)

lemma clean_cookies:
  assumes "clean rq" "one_line value" "process_header_cookie value rq = (r, rq')"
  shows "clean rq'"
proof -
  have g: "groups_only not_newline cookie_regex"
    by (auto simp: cookie_regex_def Plus_def Lit_def is_name_start_def is_name_def char_class_defs not_newline_def)
  have "clean_pairs (fold (\<lambda>(position, len, m). emplace (group 1 m) (group 2 m)) ms cs)"
    if "\<forall>(p, l, m)\<in>set ms. caps_only not_newline m" "clean_pairs cs" for ms cs
    using that
  proof (induction ms arbitrary: cs)
    case (Cons x ms)
    obtain p l m where x: "x = (p, l, m)" by (metis prod_cases3)
    have "one_line (group 1 m)" "one_line (group 2 m)"
      using Cons.prems(1) x caps_only_group by (auto simp: one_line_def)
    from clean_emplace [OF Cons.prems(2) this] Cons.IH Cons.prems(1) show ?case by (simp add: x)
  qed simp
  moreover have "\<forall>(p, l, m)\<in>set (regex_iterate cookie_regex 0 value). caps_only not_newline m"
    using groups_only_iterate [OF g] by blast
  ultimately show ?thesis using assms(1,3) by (auto simp: process_header_cookie_def clean_def)
qed

lemma clean_header_fn:
  assumes "map_of (process_header_fn_map env) header = Some fn" "fn value rq = (r, rq')" "clean rq" "one_line value"
  shows "clean rq'"
  using assms(1)
proof (cases rule: header_fn_cases)
  case 3
  have h: "one_line (takeWhile not_colon value)"
    using assms(4) by (rule one_line_sub) (auto dest: set_takeWhileD)
  show ?thesis using assms(2,3) h unfolding 3
    by (auto simp: process_header_host_scan Let_def clean_def split: if_splits option.splits)
next
  case 4
  show ?thesis using clean_cookies [OF assms(3,4)] assms(2) unfolding 4 by blast
qed (use assms(2,3) in \<open>auto simp: process_header_content_length_def process_header_connection_def clean_def split: option.splits\<close>)

lemma clean_header_string:
  assumes "process_header_string env str rq = (r, rq')" "clean rq"
  shows "clean rq'"
proof (cases "regex_match header_regex str")
  case (Some m)
  have g: "groups_only not_newline header_regex"
    by (auto simp: header_regex_def Plus_def Lit_def is_space_def not_newline_def)
  have kv: "one_line (group 1 m)" "one_line (group 2 m)"
    using caps_only_group [OF groups_only_match [OF g Some]] by (simp_all add: one_line_def)
  show ?thesis
  proof (cases "map_of (process_header_fn_map env) (group 1 m)")
    case (Some fn)
    obtain r1 rq1 where f: "fn (group 2 m) rq = (r1, rq1)" by fastforce
    from clean_header_fn [OF Some f assms(2) kv(2)] have "clean rq1" .
    then show ?thesis using assms(1) Some \<open>regex_match header_regex str = Some m\<close> f kv
      by (cases r1) (auto simp: process_header_string_def Let_def clean_def emplace_multi_def)
  qed (use assms Some kv in \<open>auto simp: process_header_string_def clean_def emplace_multi_def Let_def\<close>)
qed (use assms in \<open>auto simp: process_header_string_def split: if_splits\<close>)

lemma clean_headers:
  "process_headers env stream str0 rq = (r, rq', stream') \<Longrightarrow> clean rq \<Longrightarrow> clean rq'"
proof (induction env stream str0 rq arbitrary: r rq' stream' rule: process_headers.induct)
  case (1 env stream str0 rq)
  obtain ok str st where g: "getline stream str0 = (ok, str, st)" by (cases "getline stream str0") auto
  show ?case
  proof (cases "ok \<and> str \<noteq> []")
    case True
    obtain r1 rq1 where h: "process_header_string env str rq = (r1, rq1)" by fastforce
    from clean_header_string [OF this "1.prems"(2)] have s: "clean rq1" .
    show ?thesis
    proof (cases "r1 = Inr True")
      case True
      then have "process_headers env st str rq1 = (r, rq', stream')"
        using "1.prems" g h \<open>ok \<and> str \<noteq> []\<close> by (subst (asm) process_headers.simps) simp
      then show ?thesis
        using "1.IH" [OF g [symmetric] refl \<open>ok \<and> str \<noteq> []\<close> h [symmetric]] True s by blast
    qed (use "1.prems" g h \<open>ok \<and> str \<noteq> []\<close> s in
        \<open>subst (asm) process_headers.simps, auto split: sum.splits if_splits\<close>)
  next
    case False
    then show ?thesis using "1.prems" g by (subst (asm) process_headers.simps) auto
  qed
qed

lemma clean_apply_args: "clean (fold apply_arg us rq) = clean rq"
proof (induction us arbitrary: rq)
  case (Cons u us)
  have "clean (apply_arg u rq) = clean rq" by (cases u) (simp_all add: clean_def)
  then show ?case using Cons.IH by simp
qed simp

lemma clean_uri: "process_uri rq = (r, rq') \<Longrightarrow> clean rq \<Longrightarrow> clean rq'"
proof -
  assume p: "process_uri rq = (r, rq')" and c: "clean rq"
  have "one_line x" if "uri_split (rq_uri rq) = Some (x, y)" for x y
    by (rule one_line_sub [of "rq_uri rq"])
      (use c that in \<open>auto simp: clean_def uri_split_def Let_def split: if_splits dest: set_takeWhileD\<close>)
  then show ?thesis using p c
    by (auto simp: process_uri_scan clean_apply_args split: option.splits) (simp add: clean_def)
qed

lemma clean_again: "process_stream_again stream rq = (n, rq', stream') \<Longrightarrow> clean rq' = clean rq"
  by (auto simp: process_stream_again_def Let_def clean_def split: if_splits prod.splits)

lemma clean_body: "process_body env stream rq = (r, rq', stream') \<Longrightarrow> clean rq' = clean rq"
proof -
  assume b: "process_body env stream rq = (r, rq', stream')"
  have "clean (rq\<lparr>rq_body := x\<rparr>) = clean rq" for x by (simp add: clean_def)
  then show ?thesis using b clean_again
    by (auto simp: process_body_def Let_def split: if_splits option.splits prod.splits)
qed

lemma clean_stream:
  assumes "process_stream env stream rq0 = (r, rq, stream')"
  shows "clean rq"
proof -
  obtain ok str st where g: "getline stream [] = (ok, str, st)" by (metis prod_cases3)
  obtain r1 rq1 where s: "process_start_string str (reset rq0) = (r1, rq1)" by fastforce
  have c1: "clean rq1" by (rule clean_start [OF s clean_reset])
  obtain r2 rq2 st2 where h: "process_headers env st str rq1 = (r2, rq2, st2)" by (metis prod_cases3)
  have c2: "clean rq2" by (rule clean_headers [OF h c1])
  obtain r3 rq3 where u: "process_uri rq2 = (r3, rq3)" by fastforce
  have c3: "clean rq3" by (rule clean_uri [OF u c2])
  obtain r4 rq4 st4 where b: "process_body env st2 rq3 = (r4, rq4, st4)" by (metis prod_cases3)
  have "clean rq4" using clean_body [OF b] c3 by simp
  then show ?thesis using assms g s h u b c1 c2 c3
    by (auto simp: process_stream_def split: sum.splits)
qed

lemma one_line_text:
  assumes "clean rq" "one_line (rq_client_address rq)" "reorders ord"
  shows "one_line (request_text ord rq)"
proof -
  have d: "one_line (to_string n)" for n using to_string_not_space by (auto simp: one_line_def list_all_iff)
  have m: "one_line (method_to_str x)" for x by (cases x) (simp_all add: one_line_def not_newline_def)
  have v: "one_line (version_to_str x)" for x by (cases x) (simp_all add: one_line_def not_newline_def)
  have p: "one_line (pair_text q)" if "one_line (fst q)" "one_line (snd q)" for q
    using that by (cases q) (simp add: pair_text_def one_line_def not_newline_def)
  have "one_line (concat (map pair_text qs))" if "clean_pairs qs" for qs
    using that by (induction qs) (simp_all add: one_line_append p, simp add: one_line_def)
  moreover have "clean_pairs (ord ps)" if "clean_pairs ps" for ps
    using that assms(3) by (auto simp: clean_pairs_def reorders_def)
  ultimately have c: "one_line (pairs_text ord title ps)" if "clean_pairs ps" "one_line title" for title ps
    using that by (simp add: pairs_text_def one_line_append) (simp add: one_line_def not_newline_def)
  have t: "one_line '' Parsed headers:''" "one_line '' Unparsed headers:''" "one_line '' Cookies:''"
    "one_line '' Content length: ''" "one_line ''Client: ''" "one_line '': ''" "one_line str_HTTP" "one_line str_slash"
    "one_line '', ''" "one_line '', Path: ''" "one_line [DQUOTE]" "one_line ''. Host: ''" "one_line '', port: ''" "one_line ''.''" "one_line []"
    by (simp_all add: one_line_def not_newline_def str_defs)
  have cl: "clean_pairs (rq_parsed_headers rq)" "clean_pairs (rq_unparsed_headers rq)" "clean_pairs (rq_cookies rq)"
    "one_line (rq_path rq)" "one_line (rq_host rq)" using assms(1) by (simp_all add: clean_def)
  have l: "one_line ('' Content length: '' @ to_string n @ ''.'')" for n
    unfolding one_line_append by (intro conjI t d)
  show ?thesis
    unfolding request_text_def one_line_append
    by (intro conjI c t d m v cl assms(2)) (use l t in simp)
qed

text \<open>
  C13: Whatever bytes a client sends, the request it becomes, accepted or not, is written to the log in one
  line: no header, cookie or URI can start a line of its own.
\<close>
theorem request_is_one_line:
  assumes "process_stream env stream rq0 = (r, rq, stream')"
    and "CR \<notin> set (rq_client_address rq) \<and> LF \<notin> set (rq_client_address rq)" "reorders ord"
  shows "CR \<notin> set (snd (log level_info (request_text ord rq))) \<and> LF \<notin> set (snd (log level_info (request_text ord rq)))"
proof -
  have "one_line (rq_client_address rq)" using assms(2) by (auto simp: one_line_def list_all_iff not_newline_def)
  from one_line_text [OF clean_stream [OF assms(1)] this assms(3)]
  have "\<forall>x\<in>set (request_text ord rq). not_newline x" by (simp add: one_line_def list_all_iff)
  then show ?thesis using set_c_str [of "request_text ord rq"] by (auto simp: not_newline_def)
qed

lemma request_is_one_line_witness:
  "LF \<notin> set (snd (log level_info (request_text id (parsed ''10.0.0.1'' login_message))))"
  using request_is_one_line [OF message_read_back [OF login_message_ok, of "[]" "new_request ''10.0.0.1''"], of id]
  by (simp add: new_request_def reorders_def)

text \<open>
  C36: A client that puts a NUL into the path of its request hides the rest of the line: what reaches the log
  ends there, so that neither the host nor a header nor a cookie of the request is written.
\<close>
theorem nul_hides_request:
  assumes "message_ok env msg" "takeWhile (\<lambda>c. c \<noteq> CHR ''?'') (ms_uri msg) = p @ CHR 0x00 # q"
    and "CHR 0x00 \<notin> set p" "CHR 0x00 \<notin> set ca"
  shows "log_stream level_info (request_text ord (parsed ca msg)) =
    [(LOG_INFO, ''Client: '' @ ca @ '': HTTP/1.1, '' @ method_to_str (ms_method msg) @ '', Path: '' @ [DQUOTE] @ p)]"
proof -
  let ?rq = "parsed ca msg"
  let ?head = "''Client: '' @ ca @ '': HTTP/1.1, '' @ method_to_str (ms_method msg) @ '', Path: '' @ [DQUOTE] @ p"
  have rq: "rq_version ?rq = V_1_1" "rq_path ?rq = p @ CHR 0x00 # q"
    using assms(2) by (simp_all add: parsed_upto_def fold_apply_arg)
  have "CHR 0x00 \<notin> set (method_to_str m)" for m by (cases m) simp_all
  then have nul: "CHR 0x00 \<notin> set ?head" using assms(3,4) by simp
  obtain rest where t: "request_text ord ?rq = ?head @ CHR 0x00 # rest"
    by (simp add: request_text_def rq str_defs)
  have "c_str (?head @ CHR 0x00 # rest) = ?head" by (subst c_str_append [OF nul]) (simp add: c_str_nul)
  then show ?thesis by (simp only: t log_stream_def log.simps) simp
qed

definition hidden_message :: message where
  "hidden_message = login_message\<lparr>ms_uri := ''/'' @ [CHR 0x00]\<rparr>"

lemma nul_hides_request_witness:
  "\<exists>rq. process_stream decimal_env \<lparr>is_rest = print_message hidden_message, is_good = True\<rparr> (new_request ''10.0.0.1'') =
      (Inr 0, rq, \<lparr>is_rest = [], is_good = True\<rparr>) \<and> rq_host rq = ''localhost'' \<and>
    log_stream level_info (request_text id rq) = [(LOG_INFO, ''Client: 10.0.0.1: HTTP/1.1, POST, Path: '' @ [DQUOTE] @ ''/'')]"
proof -
  have ok: "message_ok decimal_env hidden_message"
    using login_message_ok by (simp add: message_ok_def hidden_message_def request_line_ok_def is_space_def)
  have m: "ms_method hidden_message = POST" "ms_uri hidden_message = ''/'' @ [CHR 0x00]"
    by (simp_all add: hidden_message_def login_message_def)
  have u: "takeWhile (\<lambda>c. c \<noteq> CHR ''?'') (ms_uri hidden_message) = ''/'' @ CHR 0x00 # []" by (simp add: m)
  have a: "segments (tl (dropWhile (\<lambda>c. c \<noteq> CHR ''?'') (ms_uri hidden_message))) = []" by (simp add: m)
  have h: "rq_host (parsed ca hidden_message) = ''localhost''" for ca
    unfolding parsed_upto_def a by (simp add: hidden_message_def login_message_def)
  have n: "CHR 0x00 \<notin> set ''/''" "CHR 0x00 \<notin> set ''10.0.0.1''" by simp_all
  from message_read_back [OF ok, of "[]" "new_request ''10.0.0.1''"] nul_hides_request [OF ok u n, of id] h
  show ?thesis by (simp add: m new_request_def)
qed

end
