(* ===== verification/Acceptor.thy ===== *)
theory Acceptor
  imports Worker Logger
begin

text \<open>
  \<open>server/acceptor\<close>: how the socket of an acceptor comes to listen, call by call. What the kernel
  answers to each call is a parameter, and \<open>bind\<close> may depend on the options that were set before. This
  is what the parameter \<open>listen\<close> of \<open>Worker\<close> stands for.
\<close>

section \<open>The socket\<close>

record tcp_acceptor =
  ac_open :: bool
  ac_reuse_address :: bool
  ac_reuse_port :: bool
  ac_bound :: "port_type option"
  ac_listening :: bool

record kernel =
  k_open :: "exn + unit"
  k_reuse_address :: "exn + unit"
  k_has_reuse_port :: bool                            \<comment> \<open>\<open>SO_REUSEPORT\<close> is defined\<close>
  k_reuse_port :: bool                                \<comment> \<open>whether \<open>setsockopt\<close> succeeds; the code does not ask\<close>
  k_bind :: "tcp_acceptor \<Rightarrow> port_type \<Rightarrow> exn + unit"
  k_listen :: "tcp_acceptor \<Rightarrow> exn + unit"
  k_local_port :: "tcp_acceptor \<Rightarrow> exn + port_type"    \<comment> \<open>\<open>local_endpoint().port()\<close>\<close>

definition closed_acceptor :: tcp_acceptor where
  "closed_acceptor = \<lparr>ac_open = False, ac_reuse_address = False, ac_reuse_port = False, ac_bound = None, ac_listening = False\<rparr>"

type_synonym 'a ax = "(tcp_acceptor, exn, 'a) sx"

text \<open>A call of the library: it throws and changes nothing, or it takes effect.\<close>

definition syscall :: "(tcp_acceptor \<Rightarrow> exn + unit) \<Rightarrow> (tcp_acceptor \<Rightarrow> tcp_acceptor) \<Rightarrow> unit ax" where
  "syscall answer effect a = (case answer a of Inl e \<Rightarrow> (Inl e, a) | Inr _ \<Rightarrow> (Inr (), effect a))"

section \<open>The constructor\<close>

definition configure_socket :: "kernel \<Rightarrow> port_type \<Rightarrow> unit ax" where
  "configure_socket k port =
     sbind (syscall (\<lambda>_. k_open k) (\<lambda>a. a\<lparr>ac_open := True\<rparr>)) (\<lambda>_.
     sbind (syscall (\<lambda>_. k_reuse_address k) (\<lambda>a. a\<lparr>ac_reuse_address := True\<rparr>)) (\<lambda>_.
     sbind (syscall (\<lambda>_. Inr ()) (\<lambda>a. a\<lparr>ac_reuse_port := k_has_reuse_port k \<and> k_reuse_port k\<rparr>)) (\<lambda>_.
     sbind (syscall (\<lambda>a. k_bind k a port) (\<lambda>a. a\<lparr>ac_bound := Some port\<rparr>)) (\<lambda>_.
       syscall (k_listen k) (\<lambda>a. a\<lparr>ac_listening := True\<rparr>)))))"

definition listening_line :: "port_type \<Rightarrow> line list" where
  "listening_line port = log_stream level_info (''Listening on port: '' @ to_string (unat port) @ '': started.'')"

definition accepting_line :: "port_type \<Rightarrow> line list" where
  "accepting_line port = log_stream level_info (''Accepting on port: '' @ to_string (unat port) @ '': started.'')"

text \<open>If the constructor throws, the base class closes the socket.\<close>

definition mk_acceptor :: "kernel \<Rightarrow> port_type \<Rightarrow> (exn + line list) \<times> tcp_acceptor" where
  "mk_acceptor k port =
     (case sbind (configure_socket k port) (\<lambda>_. sbind (\<lambda>a. (k_local_port k a, a)) (\<lambda>p. sreturn (listening_line p))) closed_acceptor of
        (Inl e, a) \<Rightarrow> (Inl e, closed_acceptor)
      | (Inr ls, a) \<Rightarrow> (Inr ls, a))"

definition close_acceptor :: "tcp_acceptor \<Rightarrow> tcp_acceptor" where
  "close_acceptor a = closed_acceptor"

text \<open>What the server sees of it.\<close>

definition acceptor_listen :: "kernel \<Rightarrow> port_type \<Rightarrow> exn + unit" where
  "acceptor_listen k port = rbind (fst (mk_acceptor k port)) (\<lambda>_. Inr ())"

section \<open>Laws\<close>

lemma closed_acceptor_sel [simp]:
  "\<not> ac_open closed_acceptor" "\<not> ac_reuse_address closed_acceptor" "\<not> ac_reuse_port closed_acceptor"
  "ac_bound closed_acceptor = None" "\<not> ac_listening closed_acceptor"
  by (simp_all add: closed_acceptor_def)

lemma configure_socket_eq: "configure_socket k port closed_acceptor =
    (let a1 = closed_acceptor\<lparr>ac_open := True\<rparr>; a2 = a1\<lparr>ac_reuse_address := True\<rparr>;
         a3 = a2\<lparr>ac_reuse_port := k_has_reuse_port k \<and> k_reuse_port k\<rparr>; a4 = a3\<lparr>ac_bound := Some port\<rparr> in
     case k_open k of Inl e \<Rightarrow> (Inl e, closed_acceptor) | Inr _ \<Rightarrow>
     case k_reuse_address k of Inl e \<Rightarrow> (Inl e, a1) | Inr _ \<Rightarrow>
     case k_bind k a3 port of Inl e \<Rightarrow> (Inl e, a3) | Inr _ \<Rightarrow>
     case k_listen k a4 of Inl e \<Rightarrow> (Inl e, a4) | Inr _ \<Rightarrow> (Inr (), a4\<lparr>ac_listening := True\<rparr>))"
  by (simp add: configure_socket_def sbind_def syscall_def Let_def split: sum.split)

text \<open>
  An acceptor that was constructed listens on its port, with the address marked for reuse before it was
  bound, and says so in the log; one that was not leaves no socket open.
\<close>
theorem mk_acceptor_outcome:
  assumes "mk_acceptor k port = (r, a)"
  shows "case r of
      Inl e \<Rightarrow> \<not> ac_open a \<and> acceptor_listen k port = Inl e
    | Inr ls \<Rightarrow> ac_open a \<and> ac_reuse_address a \<and> ac_bound a = Some port \<and> ac_listening a \<and>
        (\<exists>p. k_local_port k a = Inr p \<and> ls = listening_line p) \<and> acceptor_listen k port = Inr ()"
  using assms
  by (auto simp: mk_acceptor_def acceptor_listen_def configure_socket_eq sbind_def Let_def
      split: sum.splits prod.splits)

text \<open>
  A kernel that lets an address be bound once it is marked for reuse, as the comments of the code expect:
  every port of the server is then listened to, whatever became of \<open>SO_REUSEPORT\<close>.
\<close>

definition kernel_willing :: "kernel \<Rightarrow> bool" where
  "kernel_willing k \<longleftrightarrow> k_open k = Inr () \<and> k_reuse_address k = Inr () \<and>
     (\<forall>a port. ac_reuse_address a \<longrightarrow> k_bind k a port = Inr ()) \<and>
     (\<forall>a. ac_bound a \<noteq> None \<longrightarrow> k_listen k a = Inr ()) \<and>
     (\<forall>a port. ac_bound a = Some port \<longrightarrow> k_local_port k a = Inr port)"

lemma willing_acceptor: "kernel_willing k \<Longrightarrow> acceptor_listen k port = Inr ()"
  by (simp add: acceptor_listen_def mk_acceptor_def configure_socket_eq sbind_def Let_def kernel_willing_def)

lemma willing_acceptors: "kernel_willing k \<Longrightarrow> mk_acceptors (acceptor_listen k) ps = Inr ()"
  by (induction ps) (simp_all add: willing_acceptor)

end
