(* ===== verification/Program.thy ===== *)
theory Program
  imports Site Application Acceptor
begin

text \<open>
  The program from its configuration files to the workers: \<open>host/generator\<close> with the logic of the hosts
  (\<open>manager_generator\<close>, \<open>host_manager_with_logic\<close>), and the files of \<open>config/\<close> as JSON values. The process
  that is started builds the server; hosts and the connection to the database are built in the
  children.
\<close>

section \<open>The generator of the host manager\<close>

text \<open>
  A manager with its logic: the global instance first, which parses its part of the configuration and
  connects to the database, then every host. \<open>logic\<close> is the constructor of \<open>global_instance\<close>.
\<close>

definition manager_generator ::
  "('j, 'm) json_edit_scheme \<Rightarrow> ('j \<Rightarrow> exn + 'e) \<Rightarrow> ('e \<Rightarrow> ('j, 'v) host_generator) \<Rightarrow> 'j \<Rightarrow> 'j \<Rightarrow>
     (exn + 'v manager) option" where
  "manager_generator lib logic gen hosts_config logic_config = (case logic logic_config of
     Inl e \<Rightarrow> Some (Inl e)
   | Inr env \<Rightarrow> (case js_items lib hosts_config of
       Inl e \<Rightarrow> Some (Inl e)
     | Inr hosts \<Rightarrow> generate_manager (gen env) hosts []))"

text \<open>What a worker is built from; \<open>None\<close>: the generator does not return.\<close>

definition generated_worker :: "port_type list \<Rightarrow> (exn + 'v manager) option \<Rightarrow> 'v \<Rightarrow> (exn + 'v worker) option" where
  "generated_worker listening generated w = map_option (\<lambda>g. mk_worker listening (map_sum id Some g) w) generated"

section \<open>The configuration of the repository\<close>

definition server_json :: json where
  "server_json = Jobj [
     (''hosts'', Jarr [site_config]),
     (''server'', Jobj [
       (''ports'', Jarr [Jnum 8080]),
       (''server_names'', Jarr (map Jstr default_server_names)),
       (''workers'', Jnum 3)])]"

definition logic_json :: json where
  "logic_json = Jobj [
     (''mongo'', Jobj [
       (''collection_sessions'', Jstr ''unitrack.sessions''),
       (''collection_users'', Jstr ''unitrack.users''),
       (''uri'', Jstr ''mongodb://localhost:27017'')])]"

text \<open>Conversions of \<open>nlohmann::json\<close>, for values in memory.\<close>

fun jm_word :: "json \<Rightarrow> exn + 'l::len word" where
  "jm_word (Jnum n) = Inr (of_nat n)"
| "jm_word _ = Inl (Std_logic ''type must be number'')"

fun jm_strings :: "json \<Rightarrow> exn + string list" where
  "jm_strings (Jarr xs) = Inr (map (\<lambda>j. case j of Jstr s \<Rightarrow> s | _ \<Rightarrow> []) xs)"
| "jm_strings _ = Inl (Std_logic ''type must be array'')"

abbreviation json_values :: "json json_lib" where
  "json_values \<equiv> json_lib.truncate json_memory"

abbreviation program_config ::
  "(string \<Rightarrow> string option) \<Rightarrow> (string \<Rightarrow> exn + json) \<Rightarrow> string \<Rightarrow> exn + json \<times> json \<times> json" where
  "program_config \<equiv> app_config json_values"

abbreviation program_start :: "json system \<Rightarrow> exn + json \<times> json \<times> json \<Rightarrow> (application + child_end) option" where
  "program_start \<equiv> mk_application json_values jm_word jm_strings"

definition site_logic :: "string option \<Rightarrow> (string \<Rightarrow> connection) \<Rightarrow> 'w logic_env \<Rightarrow> json \<Rightarrow> exn + 'w logic_env" where
  "site_logic client_status connect env0 config =
     global_instance jm_at jm_string jm_word jm_word client_status connect config env0"

text \<open>The files, where the build has them, hold the configuration of the repository.\<close>

definition shipped :: "(string \<Rightarrow> string option) \<Rightarrow> (string \<Rightarrow> exn + json) \<Rightarrow> string \<Rightarrow> bool" where
  "shipped open_file parse dir \<longleftrightarrow>
     json_from_file open_file parse (config_file dir ''server.json'') = Inr server_json \<and>
     json_from_file open_file parse (config_file dir ''logic.json'') = Inr logic_json"

section \<open>The process that is started\<close>

lemma shipped_config: "shipped open_file parse dir \<Longrightarrow> \<exists>sc. program_config open_file parse dir = Inr (sc, Jarr [site_config], logic_json) \<and>
    configure json_values jm_word jm_strings sc = Inr (new_server\<lparr>sv_ports := [8080], sv_workers := 3, sv_names := default_server_names\<rparr>)"
proof -
  assume s: "shipped open_file parse dir"
  let ?sc = "Jobj [(''ports'', Jarr [Jnum 8080]), (''server_names'', Jarr (map Jstr default_server_names)), (''workers'', Jnum 3)]"
  have "program_config open_file parse dir = Inr (?sc, Jarr [site_config], logic_json)"
    using s by (simp add: app_config_def shipped_def server_json_def)
  moreover have "map ((\<lambda>j. case j of Jstr s \<Rightarrow> s | _ \<Rightarrow> []) \<circ> Jstr) ns = ns" for ns by (induction ns) simp_all
  then have "configure json_values jm_word jm_strings ?sc = Inr (new_server\<lparr>sv_ports := [8080], sv_workers := 3, sv_names := default_server_names\<rparr>)"
    by (simp add: configure_def json_extract_def json_get_def new_server_def)
  ultimately show ?thesis by blast
qed

lemma create_all_workers:
  "(\<And>i. i < k + n \<Longrightarrow> 0 < sint (forks i)) \<Longrightarrow> create_workers forks strerror worker_main k n s =
     Inl (Inr (), s\<lparr>sv_processes := sv_processes s @ map forks [k..<k + n]\<rparr>)"
proof (induction n arbitrary: k s)
  case (Suc n)
  have "0 < sint (forks k)" using Suc.prems [of k] by simp
  then have "mk_process (forks k) strerror worker_main = Inl (Inr (forks k))" by (auto simp: mk_process_def)
  then show ?case using Suc.IH [of "Suc k"] Suc.prems by (simp add: upt_conv_Cons del: upt_Suc)
qed simp

lemma shipped_program_starts:
  assumes "shipped open_file parse dir" "kernel_willing k" "os_listen os = acceptor_listen k"
    and "\<forall>i<3. 0 < sint (os_fork os i)"
  shows "program_start os (program_config open_file parse dir) = Some (Inl \<lparr>ap_status = 0, ap_server = Some
    (new_server\<lparr>sv_ports := [8080], sv_workers := 3, sv_names := default_server_names, sv_processes := map (os_fork os) [0..<3]\<rparr>)\<rparr>)"
proof -
  obtain sc where c: "program_config open_file parse dir = Inr (sc, Jarr [site_config], logic_json)"
    "configure json_values jm_word jm_strings sc = Inr (new_server\<lparr>sv_ports := [8080], sv_workers := 3, sv_names := default_server_names\<rparr>)"
    using shipped_config [OF assms(1)] by blast
  have "create_workers (os_fork os) (os_strerror os) wm 0 3 s = Inl (Inr (), s\<lparr>sv_processes := sv_processes s @ map (os_fork os) [0..<3]\<rparr>)" for wm s
    using create_all_workers [of 0 3 "os_fork os"] assms(4) by simp
  then show ?thesis
    by (simp add: mk_application_def c Let_def start_server_def assms(3) willing_acceptor [OF assms(2)] new_server_def)
qed

section \<open>Its children\<close>

lemma site_logic_connected: "connect ''mongodb://localhost:27017'' = Connected \<Longrightarrow>
   site_logic None connect env0 logic_json = Inr ((default_parameters env0)\<lparr>collection_users := ''unitrack.users'',
     collection_sessions := ''unitrack.sessions''\<rparr>)"
  by (simp add: site_logic_def global_instance_def logic_json_def extract_required_def extract_optional_def json_extract_def
      json_get_def Let_def default_parameters_def)

lemma site_logic_fails: "connect ''mongodb://localhost:27017'' = Not_connected message \<Longrightarrow>
   site_logic None connect env0 logic_json = Inl (Logic (Mongodb_connection_error message))"
  by (simp add: site_logic_def global_instance_def logic_json_def extract_required_def extract_optional_def json_extract_def
      json_get_def Let_def default_parameters_def)

text \<open>Any configuration of the process that is started decides what its children are built from.\<close>

definition site_worker ::
  "(string \<Rightarrow> exn + regex) \<Rightarrow> shell \<Rightarrow> file_system \<Rightarrow> (string \<Rightarrow> connection) \<Rightarrow> 'w logic_env \<Rightarrow> (32 word \<Rightarrow> 'w \<Rightarrow> nat \<times> 'w) \<Rightarrow> nat \<Rightarrow>
     port_type list \<Rightarrow> json \<Rightarrow> json \<Rightarrow> 'w site_state \<Rightarrow> (exn + 'w site_state worker) option" where
  "site_worker compile popen fs connect env0 draw fuel listening hosts_config logic_config v =
     generated_worker listening
       (manager_generator json_memory (site_logic None connect env0)
         (\<lambda>env. site_generator compile popen fs env draw fuel) hosts_config logic_config) v"

lemma js_items_memory: "js_items json_memory = jm_items"
  by (simp add: json_memory_def)

text \<open>
  C2: With the configuration of the repository the program comes up: if the ports can be opened, the
  processes forked, the files are there and the database answers, the constructor of the application
  leaves a server with three workers and the status 0, and each worker has the host of the configuration
  at its port, whose responses are all framed; whatever its clients send and whatever signals arrive, none of its
  handlers runs for ever, and it can always clear its caches.
\<close>
theorem shipped_program_serves:
  assumes "shipped open_file parse dir" "kernel_willing k" "os_listen os = acceptor_listen k"
    and "\<forall>i<3. 0 < sint (os_fork os i)"
    and "site_files_ready compile fs root allow" "connect ''mongodb://localhost:27017'' = Connected"
    and "\<And>n. fair (draw n) (unat n + 1)" "countable_arrays env0"
  shows "\<exists>app s sc hc lc wk. program_config open_file parse dir = Inr (sc, hc, lc) \<and>
    program_start os (Inr (sc, hc, lc)) = Some (Inl app) \<and> ap_status app = 0 \<and> ap_server app = Some s \<and>
    sv_processes s = map (os_fork os) [0..<3] \<and>
    site_worker compile popen fs connect env0 draw (Suc (Suc fuel)) (sv_ports s) hc lc v = Some (Inr wk) \<and>
    map fst (wk_acceptors wk) = [8080] \<and>
    (\<exists>h. manager_host (wk_manager wk) ''localhost'' 8080 = Inr h) \<and> hosts_framed (wk_manager wk) \<and>
    (\<forall>st. worker_reachable renv (sv_names s) (Runs wk) st \<longrightarrow>
       st \<noteq> Hangs \<and> (\<forall>wk'. st = Runs wk' \<longrightarrow> manager_clear_cache (wk_manager wk') (wk_world wk') \<noteq> None))"
proof -
  let ?env = "(default_parameters env0)\<lparr>collection_users := ''unitrack.users'', collection_sessions := ''unitrack.sessions''\<rparr>"
  let ?site = "site popen fs ?env draw root allow"
  let ?mgr = "[hierarchy_vhost ?site]"
  obtain sc where c: "program_config open_file parse dir = Inr (sc, Jarr [site_config], logic_json)"
    using shipped_config [OF assms(1)] by blast
  note st = shipped_program_starts [where os = os and k = k, OF assms(1-4), unfolded c]
  obtain wk where wk: "mk_worker [8080] (Inr (Some ?mgr)) v = Inr wk" "map fst (wk_acceptors wk) = [8080]" "wk_manager wk = ?mgr"
    by (simp add: mk_worker_def Let_def add_signal_handler_def add_accept_handler_def)
  have m: "site_worker compile popen fs connect env0 draw (Suc (Suc fuel)) [8080] (Jarr [site_config]) logic_json v = Some (Inr wk)"
    using site_manager [OF assms(5), of popen ?env draw fuel] wk(1)
    by (simp add: site_worker_def generated_worker_def manager_generator_def site_logic_connected [of connect, OF assms(6)] js_items_memory
        del: generate_manager.simps)
  have ca: "countable_arrays ?env" using assms(8) by (simp add: countable_arrays_def default_parameters_def)
  have "hosts_framed ?mgr"
    using site_responder [where popen = popen and fs = fs and root = root and allow = allow, OF assms(7) ca]
    by (simp add: hosts_framed_def hierarchy_vhost_def)
  moreover obtain h where "manager_host (wk_manager wk) ''localhost'' 8080 = Inr h"
    by (simp add: wk(3) manager_host_def find_host_def port_allowed_def hierarchy_vhost_def site_def site_base_def)
  moreover have "st \<noteq> Hangs \<and> (\<forall>wk'. st = Runs wk' \<longrightarrow> manager_clear_cache (wk_manager wk') (wk_world wk') \<noteq> None)"
    if "worker_reachable renv names (Runs wk) st" for names st
    by (rule site_worker_never_hangs [OF assms(7) ca wk(1) that])
  ultimately show ?thesis using c st m wk(2,3)
    by (intro exI conjI) (assumption | simp)+
qed

text \<open>
  C38: Without a database no worker survives, but the program does not notice: it starts as usual, with three
  processes, and whatever it reads it ends with the status 0, although each of its children aborts with
  the exception that the connection throws.
\<close>
theorem no_database_no_workers:
  assumes "shipped open_file parse dir" "kernel_willing k" "os_listen os = acceptor_listen k"
    and "\<forall>i<3. 0 < sint (os_fork os i)" "connect ''mongodb://localhost:27017'' = Not_connected message"
  shows "\<exists>app s sc hc lc. program_config open_file parse dir = Inr (sc, hc, lc) \<and>
    program_start os (Inr (sc, hc, lc)) = Some (Inl app) \<and> ap_server app = Some s \<and> length (sv_processes s) = 3 \<and>
    (\<forall>input. fst (run_application (os_kill os) input app) = 0) \<and>
    site_worker compile popen fs connect env0 draw fuel (sv_ports s) hc lc v = Some (Inl (Logic (Mongodb_connection_error message))) \<and>
    mk_process 0 (os_strerror os) (Inl (Logic (Mongodb_connection_error message))) = Inr Abort"
proof -
  obtain sc where c: "program_config open_file parse dir = Inr (sc, Jarr [site_config], logic_json)"
    using shipped_config [OF assms(1)] by blast
  note st = shipped_program_starts [where os = os and k = k, OF assms(1-4), unfolded c]
  have "site_worker compile popen fs connect env0 draw fuel [8080] (Jarr [site_config]) logic_json v =
      Some (Inl (Logic (Mongodb_connection_error message)))"
    by (simp add: site_worker_def generated_worker_def manager_generator_def site_logic_fails [of connect message, OF assms(5)] mk_worker_def)
  with c st show ?thesis
    by (intro exI conjI) (assumption | simp add: mk_process_def run_application_def run_interactive_def app_stop_def Let_def)+
qed

section \<open>Examples\<close>

definition willing_kernel :: kernel where
  "willing_kernel = \<lparr>k_open = Inr (), k_reuse_address = Inr (), k_has_reuse_port = True, k_reuse_port = True,
     k_bind = (\<lambda>a port. Inr ()), k_listen = (\<lambda>a. Inr ()),
     k_local_port = (\<lambda>a. case ac_bound a of Some port \<Rightarrow> Inr port | None \<Rightarrow> Inl (Std_exception ''not bound''))\<rparr>"

lemma willing_kernel: "kernel_willing willing_kernel"
  by (simp add: kernel_willing_def willing_kernel_def)

definition sample_os :: "json system" where
  "sample_os = \<lparr>os_listen = acceptor_listen willing_kernel, os_fork = (\<lambda>i. 41 + of_nat i), os_strerror = [],
     os_kill = (\<lambda>p sig. 0), os_worker_main = (\<lambda>hc lc. Inr 0)\<rparr>"

definition sample_open :: "string \<Rightarrow> string option" where
  "sample_open path = (if path = config_file ''config'' ''server.json'' then Some ''s''
     else if path = config_file ''config'' ''logic.json'' then Some ''l'' else None)"

definition sample_parse :: "string \<Rightarrow> exn + json" where
  "sample_parse text = (if text = ''s'' then Inr server_json else if text = ''l'' then Inr logic_json else Inl (Std_exception ''parse error''))"

lemma sample_shipped: "shipped sample_open sample_parse ''config''"
  by (simp add: shipped_def json_from_file_def sample_open_def sample_parse_def config_file_def)

lemma sample_forks: "\<forall>i<3. 0 < sint (os_fork sample_os i)"
  by (simp add: sample_os_def numeral_3_eq_3 less_Suc_eq)

lemma sample_listen: "os_listen sample_os = acceptor_listen willing_kernel"
  by (simp add: sample_os_def)

lemma shipped_program_serves_witness:
  "\<exists>app s sc hc lc wk. program_config sample_open sample_parse ''config'' = Inr (sc, hc, lc) \<and>
    program_start sample_os (Inr (sc, hc, lc)) = Some (Inl app) \<and> ap_status app = 0 \<and> ap_server app = Some s \<and>
    sv_processes s = [41, 42, 43] \<and>
    site_worker (\<lambda>s. Inr any_chars) (\<lambda>c. None) site_fs (\<lambda>uri. Connected) short_arrays_env counting_draw 2 (sv_ports s) hc lc ([], sample_users) = Some (Inr wk) \<and>
    map fst (wk_acceptors wk) = [8080] \<and> hosts_framed (wk_manager wk)"
proof -
  have a: "site_files_ready (\<lambda>s. Inr any_chars) site_fs ''/var/unitrack/www'' any_chars"
    by (simp add: site_files_ready_def site_fs_def)
  have u: "map (os_fork sample_os) [0..<3] = [41, 42, 43]" by (simp add: sample_os_def upt_rec)
  from shipped_program_serves [where renv = decimal_env and os = sample_os and draw = counting_draw and connect = "\<lambda>uri. Connected" and fuel = 0,
      OF sample_shipped willing_kernel sample_listen sample_forks a refl counting_draw_fair short_arrays,
      unfolded u, of "\<lambda>c. None" "([], sample_users)"]
  show ?thesis unfolding numeral_2_eq_2 by (elim exE conjE) (intro exI conjI; assumption)
qed

lemma no_database_no_workers_witness:
  "\<exists>app s sc hc lc. program_config sample_open sample_parse ''config'' = Inr (sc, hc, lc) \<and>
    program_start sample_os (Inr (sc, hc, lc)) = Some (Inl app) \<and> ap_server app = Some s \<and> length (sv_processes s) = 3 \<and>
    fst (run_application (os_kill sample_os) [LF] app) = 0 \<and>
    site_worker (\<lambda>s. Inr any_chars) (\<lambda>c. None) site_fs (\<lambda>uri. Not_connected ''refused'') short_arrays_env counting_draw 2 (sv_ports s) hc lc ([], sample_users) =
      Some (Inl (Logic (Mongodb_connection_error ''refused'')))"
  using no_database_no_workers [where os = sample_os and connect = "\<lambda>uri. Not_connected ''refused''",
      OF sample_shipped willing_kernel sample_listen sample_forks refl,
      of "\<lambda>s. Inr any_chars" "\<lambda>c. None" site_fs short_arrays_env counting_draw 2 "([], sample_users)"] by blast

end
