(* ===== verification/Site_Service.thy ===== *)
theory Site_Service
  imports Site Session_Table Worker_Serves
begin

text \<open>
  From requests to the service of the logic: what a request can do to the sessions. Every host
  performs at most one operation of the service for a request, and the operation is one the request
  asks for: its form, or the session in its cookie. So the laws of the table of sessions hold of
  requests, of the whole site, and of the life of a worker.
\<close>

section \<open>What a request asks for\<close>

fun asks :: "request \<Rightarrow> service_op \<Rightarrow> bool" where
  "asks rq (Account (Login form)) \<longleftrightarrow> rq_method rq = POST \<and> sid_cookie rq = None \<and> parse_form (rq_body rq) = (True, form)"
| "asks rq (Account (Register form)) \<longleftrightarrow> rq_method rq = POST \<and> sid_cookie rq = None \<and> parse_form (rq_body rq) = (True, form)"
| "asks rq (Account (Logout sid)) \<longleftrightarrow> rq_method rq = POST \<and> sid_cookie rq = Some sid"
| "asks rq (Account (Continue sid)) \<longleftrightarrow> False"
| "asks rq (List_users sid) \<longleftrightarrow> sid_cookie rq = Some sid"
| "asks rq (Add_friend ref sid) \<longleftrightarrow> rq_method rq = POST \<and> sid_cookie rq = Some sid"
| "asks rq (Remove_friend ref sid) \<longleftrightarrow> rq_method rq = POST \<and> sid_cookie rq = Some sid"
| "asks rq (User_info ref sid) \<longleftrightarrow> sid_cookie rq = Some sid"

text \<open>A request that is handed on is the same but for its path.\<close>

definition same_but_path :: "request \<Rightarrow> request \<Rightarrow> bool" where
  "same_but_path rq rq' \<longleftrightarrow> rq_method rq' = rq_method rq \<and> rq_cookies rq' = rq_cookies rq \<and> rq_body rq' = rq_body rq"

lemma asks_same: "same_but_path rq rq' \<Longrightarrow> asks rq' oper = asks rq oper"
  by (cases "(rq, oper)" rule: asks.cases) (auto simp: same_but_path_def sid_cookie_def)

lemma same_but_path_refl [simp]: "same_but_path rq rq" "same_but_path rq (rq\<lparr>rq_path := p\<rparr>)"
  by (simp_all add: same_but_path_def)

lemma same_but_path_trans: "same_but_path rq rq1 \<Longrightarrow> same_but_path rq1 rq2 \<Longrightarrow> same_but_path rq rq2"
  by (simp add: same_but_path_def)

text \<open>One operation or none, on the part \<open>db\<close> of a state.\<close>

definition asked :: "'w logic_env \<Rightarrow> (32 word \<Rightarrow> 'w \<Rightarrow> nat \<times> 'w) \<Rightarrow> request \<Rightarrow> 'w \<Rightarrow> 'w \<Rightarrow> bool" where
  "asked env draw rq w w' \<longleftrightarrow> w' = w \<or> (\<exists>oper. asks rq oper \<and> run_service env draw oper w = Some w')"

lemma asked_refl [simp]: "asked env draw rq w w"
  by (simp add: asked_def)

lemma asked_same: "same_but_path rq rq' \<Longrightarrow> asked env draw rq' w w' = asked env draw rq w w'"
  by (simp add: asked_def asks_same)

section \<open>The interface of a host to the service\<close>

locale service_client =
  fixes env :: "'w logic_env" and draw :: "32 word \<Rightarrow> 'w \<Rightarrow> nat \<times> 'w" and db :: "'v \<Rightarrow> 'w" and respond :: "'v respond"
  assumes one_operation: "respond sn rq v = (res, rq', v') \<Longrightarrow> asked env draw rq (db v) (db v')"
    and hands_on: "respond sn rq v = (Inr None, rq', v') \<Longrightarrow> db v' = db v \<and> same_but_path rq rq'"

interpretation login_client: service_client env draw "\<lambda>w. w" "login_response env"
proof
  fix sn rq w res rq' w'
  assume r: "login_response env sn rq w = (res, rq', w')"
  show "asked env draw rq w w'"
  proof (cases "w' = w")
    case False
    then obtain form where f: "rq_method rq = POST" "sid_cookie rq = None" "parse_form (rq_body rq) = (True, form)"
      "w' = snd (login_user env form w)"
      using r by (auto simp: login_response_def Let_def split: if_splits prod.splits sum.splits)
    then show ?thesis unfolding asked_def
      by (intro disjI2 exI [of _ "Account (Login form)"]) (simp add: run_service_def run_op_def)
  qed simp
qed (auto simp: login_response_def Let_def split: if_splits prod.splits sum.splits)

interpretation registration_client: service_client env draw "\<lambda>w. w" "registration_response env"
proof
  fix sn rq w res rq' w'
  assume r: "registration_response env sn rq w = (res, rq', w')"
  show "asked env draw rq w w'"
  proof (cases "w' = w")
    case False
    then obtain form where f: "rq_method rq = POST" "sid_cookie rq = None" "parse_form (rq_body rq) = (True, form)"
      "w' = snd (register_user env form w)"
      using r by (auto simp: registration_response_def Let_def split: if_splits prod.splits sum.splits)
    then show ?thesis unfolding asked_def
      by (intro disjI2 exI [of _ "Account (Register form)"]) (simp add: run_service_def run_op_def)
  qed simp
qed (auto simp: registration_response_def Let_def split: if_splits prod.splits sum.splits)

interpretation logout_client: service_client env draw "\<lambda>w. w" "logout_response env"
proof
  fix sn rq w res rq' w'
  assume r: "logout_response env sn rq w = (res, rq', w')"
  show "asked env draw rq w w'"
  proof (cases "w' = w")
    case False
    then obtain sid where f: "rq_method rq = POST" "sid_cookie rq = Some sid" "w' = snd (logout_user env sid w)"
      using r by (auto simp: logout_response_def split: if_splits prod.splits sum.splits option.splits)
    then show ?thesis unfolding asked_def
      by (intro disjI2 exI [of _ "Account (Logout sid)"]) (simp add: run_service_def run_op_def)
  qed simp
qed (auto simp: logout_response_def split: if_splits prod.splits sum.splits option.splits)

interpretation users_client: service_client env draw "\<lambda>w. w" "users_response env"
proof
  fix sn rq w res rq' w'
  assume r: "users_response env sn rq w = (res, rq', w')"
  show "asked env draw rq w w'"
  proof (cases "w' = w")
    case False
    then obtain sid where f: "sid_cookie rq = Some sid" "w' = snd (list_users env sid w)"
      using r by (auto simp: users_response_def split: if_splits prod.splits sum.splits option.splits)
    then show ?thesis unfolding asked_def
      by (intro disjI2 exI [of _ "List_users sid"]) (simp add: run_service_def)
  qed simp
qed (auto simp: users_response_def split: if_splits prod.splits sum.splits option.splits)

lemma friend_operation:
  assumes "friend_response oper sn rq w = (res, rq', w')" "w' \<noteq> w"
  shows "\<exists>ref sid. rq_method rq = POST \<and> sid_cookie rq = Some sid \<and> w' = snd (oper ref sid w)"
  using assms by (auto simp: friend_response_def split: if_splits prod.splits sum.splits option.splits) (metis snd_conv)+

lemma friend_hands_on: "friend_response oper sn rq w = (Inr None, rq', w') \<Longrightarrow> False"
  by (auto simp: friend_response_def split: if_splits prod.splits sum.splits option.splits)

interpretation add_friend_client: service_client env draw "\<lambda>w. w" "add_friend_response env"
proof
  fix sn rq w res rq' w'
  assume r: "add_friend_response env sn rq w = (res, rq', w')"
  show "asked env draw rq w w'"
  proof (cases "w' = w")
    case False
    then obtain ref sid where "rq_method rq = POST" "sid_cookie rq = Some sid" "w' = snd (add_friend_op env ref sid w)"
      using friend_operation r unfolding add_friend_response_def by metis
    then show ?thesis unfolding asked_def
      by (intro disjI2 exI [of _ "Add_friend ref sid"]) (simp add: run_service_def)
  qed simp
qed (auto simp: add_friend_response_def dest: friend_hands_on)

interpretation remove_friend_client: service_client env draw "\<lambda>w. w" "remove_friend_response env"
proof
  fix sn rq w res rq' w'
  assume r: "remove_friend_response env sn rq w = (res, rq', w')"
  show "asked env draw rq w w'"
  proof (cases "w' = w")
    case False
    then obtain ref sid where "rq_method rq = POST" "sid_cookie rq = Some sid" "w' = snd (remove_friend_op env ref sid w)"
      using friend_operation r unfolding remove_friend_response_def by metis
    then show ?thesis unfolding asked_def
      by (intro disjI2 exI [of _ "Remove_friend ref sid"]) (simp add: run_service_def)
  qed simp
qed (auto simp: remove_friend_response_def dest: friend_hands_on)

text \<open>The host of a user has to return: a fair generator, and arrays that can be counted.\<close>

lemma section_root_operation:
  assumes "section_root env draw ref sid sn rq w = Some (res, rq', w')"
  shows "run_service env draw (User_info ref sid) w = Some w' \<and> res \<noteq> Inr None"
  using assms
  by (auto simp: section_root_def run_service_def split: option.splits sum.splits exn.splits logic_error.splits if_splits)

lemma user_path_same: "user_path rq = (r, rq') \<Longrightarrow> same_but_path rq rq'"
  by (auto simp: user_path_def Let_def same_but_path_def split: sum.splits prod.splits if_splits)

lemma user_client:
  assumes "\<And>n. fair (draw n) (unat n + 1)" "countable_arrays env"
  shows "service_client env draw (\<lambda>w. w) (user_respond env draw)"
proof -
  have s: "section_root env draw ref sid sn rq w \<noteq> None" for ref sid sn rq w
    using user_info_defined [OF assms, of ref sid w]
    by (auto simp: section_root_def split: option.splits sum.splits exn.splits logic_error.splits)
  have c: "user_path rq = (Inr (ref, []), rq1) \<and> has_json_arg rq1 \<and> sid_cookie rq1 = Some sid \<and>
      section_root env draw ref sid sn rq1 w = Some (res, rq', w') \<Longrightarrow>
      asked env draw rq w w' \<and> res \<noteq> Inr None" for ref sid sn rq rq1 w res rq' w'
    using section_root_operation [of env draw ref sid sn rq1 w res rq' w'] asks_same [OF user_path_same, of rq "Inr (ref, [])" rq1 "User_info ref sid"]
    by (auto simp: asked_def)
  have "asked env draw rq w w' \<and> (res = Inr None \<longrightarrow> w' = w \<and> same_but_path rq rq')"
    if r: "user_respond env draw sn rq w = (res, rq', w')" for sn rq w res rq' w'
  proof -
    obtain x rq1 where u: "user_path rq = (x, rq1)" by fastforce
    note p = user_path_same [OF u]
    show ?thesis
    proof (cases "\<exists>ref sid. x = Inr (ref, []) \<and> has_json_arg rq1 \<and> \<not> (rq_method rq1 \<noteq> GET \<and> rq_method rq1 \<noteq> HEAD) \<and> sid_cookie rq1 = Some sid")
      case True
      then obtain ref sid where x: "x = Inr (ref, [])" "has_json_arg rq1" "\<not> (rq_method rq1 \<noteq> GET \<and> rq_method rq1 \<noteq> HEAD)" "sid_cookie rq1 = Some sid" by blast
      obtain y where y: "section_root env draw ref sid sn rq1 w = Some y" using s by blast
      then have "y = (res, rq', w')" using r u x by (auto simp: user_respond_def user_response_def)
      then show ?thesis using c [of rq ref rq1 sid sn w res rq' w'] u x y by auto
    next
      case False
      then show ?thesis using r u p
        by (auto simp: user_respond_def user_response_def split: sum.splits if_splits option.splits)
    qed
  qed
  then show ?thesis by unfold_locales blast+
qed

section \<open>Sites, and the loop of the session\<close>

lemma client_on_part:
  assumes "service_client env draw (\<lambda>w. w) respond" "\<And>w v. get (put w v) = w"
  shows "service_client env draw get (lift_respond get put respond)"
proof
  fix sn rq v res rq' v'
  assume "lift_respond get put respond sn rq v = (res, rq', v')"
  then obtain w' where "respond sn rq (get v) = (res, rq', w')" "v' = put w' v"
    by (auto simp: lift_respond_def split: prod.splits)
  then show "asked env draw rq (get v) (get v')"
    using service_client.one_operation [OF assms(1)] by (simp add: assms(2))
next
  fix sn rq v rq' v'
  assume "lift_respond get put respond sn rq v = (Inr None, rq', v')"
  then obtain w' where "respond sn rq (get v) = (Inr None, rq', w')" "v' = put w' v"
    by (auto simp: lift_respond_def split: prod.splits)
  then show "get v' = get v \<and> same_but_path rq rq'"
    using service_client.hands_on [OF assms(1)] by (simp add: assms(2))
qed

text \<open>A host that works on another part of the state, and answers.\<close>

lemma client_elsewhere:
  assumes "final_responder respond" "\<And>w v. db (put w v) = db v"
  shows "service_client env draw db (lift_respond get put respond)"
proof
  fix sn rq v res rq' v'
  assume "lift_respond get put respond sn rq v = (res, rq', v')"
  then show "asked env draw rq (db v) (db v')" by (auto simp: lift_respond_def assms(2) split: prod.splits)
next
  fix sn rq v rq' v'
  assume "lift_respond get put respond sn rq v = (Inr None, rq', v')"
  then obtain w' where "respond sn rq (get v) = (Inr None, rq', w')" by (auto simp: lift_respond_def split: prod.splits)
  then show "db v' = db v \<and> same_but_path rq rq'" using final_responder.never_again [OF assms(1)] by (metis fst_conv)
qed

lemma hierarchy_client:
  assumes "\<And>s h. (s, h) \<in> set (hi_hosts hi) \<Longrightarrow> service_client env draw db (vh_response h)"
    and "\<And>h. hi_default hi = Some h \<Longrightarrow> service_client env draw db (vh_response h)"
  shows "service_client env draw db (hierarchy_response hi)"
proof -
  have "asked env draw rq (db v) (db v') \<and> (res = Inr None \<longrightarrow> db v' = db v \<and> same_but_path rq rq')"
    if r: "hierarchy_response hi sn rq v = (res, rq', v')" for sn rq v res rq' v'
  proof (cases "split_first_section (rq_path rq)")
    case (Inl e)
    then show ?thesis using r by (auto simp: hierarchy_response_def)
  next
    case (Inr st)
    obtain s t where st: "st = (s, t)" by (cases st)
    show ?thesis
    proof (cases "map_of (hi_hosts hi) s")
      case None
      show ?thesis
      proof (cases "hi_default hi")
        case (Some h)
        have "vh_response h sn rq v = (res, rq', v')" using r Inr st None Some by (simp add: hierarchy_response_def)
        then show ?thesis
          using service_client.one_operation [OF assms(2) [OF Some]] service_client.hands_on [OF assms(2) [OF Some]] by blast
      qed (use r Inr st None in \<open>auto simp: hierarchy_response_def\<close>)
    next
      case (Some h)
      have h: "vh_response h sn (rq\<lparr>rq_path := section_path t\<rparr>) v = (res, rq', v')"
        using r Inr st Some by (simp add: hierarchy_response_def)
      note c = assms(1) [OF map_of_SomeD [OF Some]]
      have "asked env draw rq (db v) (db v')"
        using service_client.one_operation [OF c h] by (simp add: asked_same [OF same_but_path_refl(2)])
      moreover have "db v' = db v \<and> same_but_path rq rq'" if "res = Inr None"
        using service_client.hands_on [OF c h [unfolded that]] same_but_path_trans [OF same_but_path_refl(2)] by blast
      ultimately show ?thesis by blast
    qed
  qed
  then show ?thesis by unfold_locales blast+
qed

lemma site_client:
  assumes "\<And>n. fair (draw n) (unat n + 1)" "countable_arrays env"
  shows "service_client env draw snd (hierarchy_response (site popen fs env draw root allow))"
proof (rule hierarchy_client)
  have l: "service_client env draw (\<lambda>w. w) respond \<Longrightarrow>
      service_client env draw snd (lift_respond snd (apsnd \<circ> (\<lambda>w _. w)) respond)" for respond
    by (erule client_on_part) simp
  fix s h assume "(s, h) \<in> set (hi_hosts (site popen fs env draw root allow))"
  then show "service_client env draw snd (vh_response h)"
    using l [OF user_client [OF assms]] l [OF login_client.service_client_axioms] l [OF logout_client.service_client_axioms]
      l [OF registration_client.service_client_axioms] l [OF users_client.service_client_axioms]
      l [OF add_friend_client.service_client_axioms] l [OF remove_friend_client.service_client_axioms]
    by (auto simp: site_def logic_host_def lift_vhost_def)
next
  fix h assume "hi_default (site popen fs env draw root allow) = Some h"
  then show "service_client env draw snd (vh_response h)"
    by (auto simp: site_def lift_vhost_def file_vhost_def intro!: client_elsewhere [OF site_files_final])
qed

text \<open>However often a request is handed on, one operation is performed in the end, or none.\<close>

lemma dispatch_one_operation:
  assumes d: "dispatch mgr port sn rq v = Some y" and h: "\<And>h. h \<in> set mgr \<Longrightarrow> service_client env draw db (vh_response h)"
  shows "asked env draw rq (db v) (db (snd (snd y)))"
proof -
  let ?h = "\<lambda>mgr. \<forall>h\<in>set mgr. service_client env draw db (vh_response h)"
  have "?h mgr \<longrightarrow> asked env draw rq (db v) (db (snd (snd y)))"
  proof (rule dispatch.raw_induct [where P = "\<lambda>mgr port sn rq v y. ?h mgr \<longrightarrow> asked env draw rq (db v) (db (snd (snd y)))", OF _ d], intro impI)
    fix f mgr' port' sn' rq' v' y'
    assume IH: "\<And>a b c d e (y :: (exn + response) \<times> request \<times> 'a). f a b c d e = Some y \<Longrightarrow>
        ?h a \<longrightarrow> asked env draw d (db e) (db (snd (snd y)))"
      and body: "(if rq_port rq' \<noteq> port'
        then Some (Inl (Http (Incorrect_port (to_string (unat (rq_port rq'))))), rq', v')
        else case manager_host mgr' (rq_host rq') (rq_port rq') of
          Inl e \<Rightarrow> Some (Inl e, rq', v')
        | Inr host \<Rightarrow>
           (case vh_response host sn' rq' v' of
              (Inl e, rq, w) \<Rightarrow> Some (Inl e, rq, w)
            | (Inr None, rq, w) \<Rightarrow> f mgr' port' sn' rq w
            | (Inr (Some r), rq, w) \<Rightarrow> Some (Inr r, rq, w))) = Some y'"
      and hs: "?h mgr'"
    show "asked env draw rq' (db v') (db (snd (snd y')))"
    proof (cases "rq_port rq' \<noteq> port' \<or> isl (manager_host mgr' (rq_host rq') (rq_port rq'))")
      case True
      then show ?thesis using body by (auto split: sum.splits if_splits)
    next
      case False
      then obtain hst where m: "manager_host mgr' (rq_host rq') (rq_port rq') = Inr hst"
        by (cases "manager_host mgr' (rq_host rq') (rq_port rq')") auto
      have c: "service_client env draw db (vh_response hst)"
        using hs manager_host_in [OF m] by (simp add: hierarchy_vhost_def)
      obtain x rq1 v1 where r: "vh_response hst sn' rq' v' = (x, rq1, v1)" by (metis prod_cases3)
      show ?thesis
      proof (cases "x = Inr None")
        case True
        then have "f mgr' port' sn' rq1 v1 = Some y'" using body False m r by simp
        with IH hs have "asked env draw rq1 (db v1) (db (snd (snd y')))" by blast
        then show ?thesis using service_client.hands_on [OF c r [unfolded True]] asked_same by metis
      next
        case no: False
        then have "snd (snd y') = v1" using body False m r by (auto split: sum.splits option.splits)
        then show ?thesis using service_client.one_operation [OF c r] by simp
      qed
    qed
  qed
  then show ?thesis using h by blast
qed

section \<open>The rows of the table\<close>

fun op_session :: "service_op \<Rightarrow> string option" where
  "op_session (Account (Login form)) = None"
| "op_session (Account (Register form)) = None"
| "op_session (Account (Logout sid)) = Some sid"
| "op_session (Account (Continue sid)) = Some sid"
| "op_session (List_users sid) = Some sid"
| "op_session (Add_friend ref sid) = Some sid"
| "op_session (Remove_friend ref sid) = Some sid"
| "op_session (User_info ref sid) = Some sid"

lemma asks_session: "asks rq oper \<Longrightarrow> op_session oper = Some sid \<Longrightarrow> sid_cookie rq = Some sid"
  by (cases "(rq, oper)" rule: asks.cases) auto

lemma opens_row: "opens life renew t0 t1 u T T' \<Longrightarrow> T sid = Some e \<Longrightarrow> T' sid = Some e"
  by (auto simp: opens_def)

lemma opens_new: "opens life renew t0 t1 u T T' \<Longrightarrow> T sid = None \<Longrightarrow> T' sid = Some (u', e) \<Longrightarrow> u' = u"
  by (auto simp: opens_def split: if_splits)

lemma closes_row: "closes t0 t1 sid' T T' \<Longrightarrow> sid \<noteq> sid' \<Longrightarrow> T' sid = T sid"
  by (auto simp: closes_def)

lemma closes_new: "closes t0 t1 sid' T T' \<Longrightarrow> T sid = None \<Longrightarrow> T' sid = None"
  by (auto simp: closes_def)

lemma uses_row: "uses life renew t0 t1 sid' T T' \<Longrightarrow> T sid = Some e \<Longrightarrow> sid \<noteq> sid' \<Longrightarrow> T' sid = Some e"
  unfolding uses_def by (metis closes_row opens_row)

lemma uses_new: "uses life renew t0 t1 sid' T T' \<Longrightarrow> T sid = None \<Longrightarrow> T' sid = Some (u, e) \<Longrightarrow>
    \<exists>v r. T sid' = Some (u, v, r) \<and> t0 < v"
  unfolding uses_def by (metis closes_new opens_new option.distinct(1))

text \<open>An operation changes no row but that of the session it was given.\<close>

lemma table_op_row:
  assumes "table_op life renew cred t0 t1 oper T T'" "T sid = Some e" "op_session oper \<noteq> Some sid"
  shows "T' sid = Some e"
  using assms
  by (cases "(life, renew, cred, t0, t1, oper, T, T')" rule: table_op.cases)
    (auto intro: opens_row uses_row simp: closes_row)

lemma table_op_new:
  assumes "table_op life renew cred t0 t1 oper T T'" "T sid = None" "T' sid = Some (u, e)"
  shows "(\<exists>form. oper = Account (Login form) \<and> cred form u) \<or> (\<exists>form. oper = Account (Register form)) \<or>
    (\<exists>sid' v r. op_session oper = Some sid' \<and> T sid' = Some (u, v, r) \<and> t0 < v)"
  using assms
  by (cases "(life, renew, cred, t0, t1, oper, T, T')" rule: table_op.cases)
    (auto dest: opens_new uses_new simp: closes_new)

text \<open>
  Between two states of the collection of users, \<open>u\<close> has registered with the form: nobody had its email, the
  collection has grown by exactly the document of \<open>u\<close> with the data of the form and a reference nobody had, and
  the session was entered in it. (The identifier is what the driver generated; that it is new is the driver's promise.)
\<close>

definition has_registered :: "form \<Rightarrow> oid \<Rightarrow> doc list \<Rightarrow> doc list \<Rightarrow> bool" where
  "has_registered form u us us' \<longleftrightarrow> form_complete form \<and>
     first_match [(''email'', Bstr (the (map_of form ''email'')))] us = None \<and>
     (\<exists>ref t. ref \<noteq> [] \<and> first_match [(''ref'', Bstr ref)] us = None \<and> visited (us @ [user_doc u ref (form_doc form) t]) u us')"

text \<open>
  What a form has to hold for a session of \<open>u\<close>: the email and the password in the document of \<open>u\<close>, or the data of a
  user who was not there before.
\<close>

definition proves :: "'w logic_env \<Rightarrow> form \<Rightarrow> oid \<Rightarrow> doc list \<Rightarrow> doc list \<Rightarrow> bool" where
  "proves env form u us us' \<longleftrightarrow> credentials env us form u \<or> has_registered form u us us'"

context mongo_store
begin

lemma registered_proves:
  assumes add: "user_added env coll w form u ref t w1"
    and d: "first_match [(''email'', Bstr (the (map_of form ''email'')))] (users w1) = Some d" "map_of d ''_id'' = Some (Boid i)"
      "el_str env (map_of d ''password'') = the (map_of form ''password'')"
    and v: "visited (users w1) i us'"
  shows "proves env form i (users w) us'"
proof -
  let ?q = "[(''email'', Bstr (the (map_of form ''email'')))]"
  have a: "form_complete form" "ref \<noteq> []" "first_match [(''ref'', Bstr ref)] (users w) = None"
      "users w1 = users w @ [user_doc u ref (form_doc form) t]"
    using add by (simp_all add: user_added_def)
  obtain email pw where f: "map_of form ''email'' = Some email" "map_of form ''password'' = Some pw"
    using a(1) by (auto simp: form_complete_def form_keys_def)
  show ?thesis
  proof (cases "first_match ?q (users w)")
    case None
    then have "d = user_doc u ref (form_doc form) t"
      using d(1) a(4) by (auto simp: first_match_append first_match_Cons split: if_splits)
    then have "i = u" using d(2) by (simp add: user_doc_def)
    then show ?thesis using None a v by (auto simp: proves_def has_registered_def)
  next
    case (Some d')
    then have "d' = d" using d(1) a(4) by (simp add: first_match_append)
    then show ?thesis using Some d f by (auto simp: proves_def credentials_def)
  qed
qed

lemma register_credentials:
  assumes ok: "db_ok w"
  shows "wp (register_user env form) (\<lambda>r w'. \<forall>sid u e. table_at w sid = None \<and> table_at w' sid = Some (u, e) \<longrightarrow>
    proves env form u (users w) (users w')) w"
proof (rule wp_register_user [OF ok])
  fix e w' assume "coll w' = coll w"
  then have "table_at w' = table_at w" by (simp add: session_at_def)
  then show "\<forall>sid u e. table_at w sid = None \<and> table_at w' sid = Some (u, e) \<longrightarrow> proves env form u (users w) (users w')" by auto
next
  fix u ref t w1 assume 1: "user_added env coll w form u ref t w1" "now w \<le> now w1" "db_ok w1"
  then have t1: "table_at w1 = table_at w"
    using collections_distinct by (auto simp: user_added_def session_at_def)
  show "wp (start_session_for_email env (the (map_of form ''email'')) (the (map_of form ''password'')))
      (\<lambda>r w'. \<forall>sid u e. table_at w sid = None \<and> table_at w' sid = Some (u, e) \<longrightarrow> proves env form u (users w) (users w')) w1"
  proof (rule wp_start_session_for_email_visits [OF 1(3)])
    fix d i sid t' w'
    assume a: "first_match [(''email'', Bstr (the (map_of form ''email'')))] (users w1) = Some d" "map_of d ''_id'' = Some (Boid i)"
      "el_str env (map_of d ''password'') = the (map_of form ''password'')" "started w1 i sid t' w'" "visited (users w1) i (users w')"
    from registered_proves [OF 1(1) a(1-3,5)] show "\<forall>sid u e. table_at w sid = None \<and> table_at w' sid = Some (u, e) \<longrightarrow>
        proves env form u (users w) (users w')"
      using opens_new [OF started_opens [OF a(4)]] t1 by metis
  qed (use t1 in \<open>auto simp: session_at_def\<close>)
qed

text \<open>One operation of the service, as a request sees it.\<close>

lemma asked_sessions:
  assumes ok: "db_ok w" and q: "\<And>n. quiet (draw n)" and a: "asked env draw rq w w'"
  shows "db_ok w' \<and> now w \<le> now w' \<and> table_ages (table_at w) (table_at w') \<and>
    (sid_cookie rq \<noteq> Some sid \<and> table_at w sid = Some e \<longrightarrow> table_at w' sid = Some e) \<and>
    (table_at w sid = None \<and> table_at w' sid = Some (u, e') \<longrightarrow>
      (\<exists>form. rq_method rq = POST \<and> sid_cookie rq = None \<and> parse_form (rq_body rq) = (True, form) \<and>
         proves env form u (users w) (users w')) \<or>
      (\<exists>sid' v r. sid_cookie rq = Some sid' \<and> table_at w sid' = Some (u, v, r) \<and> now w < v))"
proof (cases "w' = w")
  case False
  then obtain oper where oper: "asks rq oper" "run_service env draw oper w = Some w'" using a by (auto simp: asked_def)
  note t = run_service_table [OF ok q oper(2)]
  then have top: "table_op (session_lifetime env) (session_restart_after env) (credentials env (users w)) (now w) (now w')
      oper (table_at w) (table_at w')" by simp
  have "table_at w' sid = Some e" if "sid_cookie rq \<noteq> Some sid" "table_at w sid = Some e"
    using table_op_row [OF top that(2)] asks_session [OF oper(1)] that(1) by blast
  moreover have "(\<exists>form. rq_method rq = POST \<and> sid_cookie rq = None \<and> parse_form (rq_body rq) = (True, form) \<and>
         proves env form u (users w) (users w')) \<or>
      (\<exists>sid' v r. sid_cookie rq = Some sid' \<and> table_at w sid' = Some (u, v, r) \<and> now w < v)"
    if new: "table_at w sid = None" "table_at w' sid = Some (u, e')"
  proof -
    consider form where "oper = Account (Login form)" "credentials env (users w) form u"
      | form where "oper = Account (Register form)"
      | sid' v r where "op_session oper = Some sid'" "table_at w sid' = Some (u, v, r)" "now w < v"
      using table_op_new [OF top new] by blast
    then show ?thesis
    proof cases
      case (1 form)
      then show ?thesis using oper(1) by (auto simp: proves_def)
    next
      case (2 form)
      have "w' = snd (register_user env form w)" using oper(2) 2 by (simp add: run_service_def run_op_def)
      then have "proves env form u (users w) (users w')"
        using register_credentials [OF ok, of form] new by (cases e') (fastforce simp: wp_def)
      then show ?thesis using oper(1) 2 by auto
    next
      case 3
      then show ?thesis using asks_session [OF oper(1)] by blast
    qed
  qed
  ultimately show ?thesis using t table_op_ages [OF top] by blast
qed (use ok in auto)

end

section \<open>Properties\<close>

text \<open>
  C5: Nobody acts for another user. A request to the site, whatever its bytes, leaves every session alone but
  the one in its cookie; and a session of a user is opened only by a form that carries the email and the
  password in the document of this user, by the registration that has added this user, of an email nobody had,
  to the collection, or for the owner of a session in the cookie that is still valid. The documents stay well
  formed, and no session changes its user or lives longer.
\<close>
theorem sessions_need_proof:
  assumes "mongo_store env coll now" "\<And>n. quiet_draw coll now (draw n)"
    and "\<And>n. fair (draw n) (unat n + 1)" "countable_arrays env" "database_ok env coll (snd v)"
    and "dispatch [hierarchy_vhost (site popen fs env draw root allow)] port sn rq v = Some (res, rq', v')"
  shows "database_ok env coll (snd v') \<and>
    table_ages (session_at env coll (snd v)) (session_at env coll (snd v')) \<and>
    (sid_cookie rq \<noteq> Some sid \<and> session_at env coll (snd v) sid = Some e \<longrightarrow> session_at env coll (snd v') sid = Some e) \<and>
    (session_at env coll (snd v) sid = None \<and> session_at env coll (snd v') sid = Some (u, e') \<longrightarrow>
      (\<exists>form. rq_method rq = POST \<and> sid_cookie rq = None \<and> parse_form (rq_body rq) = (True, form) \<and>
         proves env form u (coll (snd v) (collection_users env)) (coll (snd v') (collection_users env))) \<or>
      (\<exists>sid' x r. sid_cookie rq = Some sid' \<and> session_at env coll (snd v) sid' = Some (u, x, r) \<and> now (snd v) < x))"
proof -
  have c: "service_client env draw snd (vh_response h)" if "h \<in> set [hierarchy_vhost (site popen fs env draw root allow)]" for h
    using that site_client [OF assms(3,4)] by (simp add: hierarchy_vhost_def)
  have "asked env draw rq (snd v) (snd v')" using dispatch_one_operation [OF assms(6) c] by simp
  from mongo_store.asked_sessions [OF assms(1,5,2) this] show ?thesis by blast
qed

section \<open>The life of a worker\<close>

lemma site_clear_cache: "manager_clear_cache [hierarchy_vhost (site popen fs env draw root allow)] v = Some v' \<Longrightarrow> snd v' = snd v"
  by (auto simp: manager_clear_cache_def hierarchy_vhost_def hierarchy_clear_cache_def site_def logic_host_def
      lift_vhost_def file_vhost_def error_host_def mk_base_vhost_def split: option.splits)

lemma process_request_world:
  assumes "process_request renv mgr sn s = Some s'"
  shows "ss_world s' = ss_world s \<or> (\<exists>port rq y. dispatch mgr port sn rq (ss_world s) = Some y \<and> ss_world s' = snd (snd y))"
proof -
  obtain r s1 where rd: "read_request renv s = (r, s1)" by fastforce
  then have w: "ss_world s1 = ss_world s" by (auto simp: read_request_def Let_def split: prod.splits)
  have send: "ss_world (send_response x z) = ss_world z" for x and z :: "'a session"
    by (simp add: send_response_def add_response_handler_def)
  show ?thesis
  proof (cases "r = Inr 0")
    case True
    let ?s = "s1\<lparr>ss_processing_new_request := True\<rparr>"
    obtain ans rq v where d: "dispatch mgr (ss_server_port ?s) sn (ss_request ?s) (ss_world ?s) = Some (ans, rq, v)"
      using assms rd True by (auto simp: process_request_def Let_def split: option.splits prod.splits)
    have "ss_world s' = v" using assms rd True d
      by (auto simp: process_request_def Let_def session_handle_error_def send_phony_def send add_request_handler_def
          split: sum.splits if_splits)
    then show ?thesis using d w by (intro disjI2 exI [of _ "ss_server_port ?s"] exI [of _ "ss_request ?s"] exI [of _ "(ans, rq, v)"]) simp
  next
    case False
    then have "ss_world s' = ss_world s1" using assms rd
      by (auto simp: process_request_def session_handle_error_def send_phony_def send split: sum.splits if_splits)
    then show ?thesis using w by simp
  qed
qed

lemma session_step_world:
  assumes "session_step renv mgr names s s'"
  shows "ss_world s' = ss_world s \<or> (\<exists>port sn rq y. dispatch mgr port sn rq (ss_world s) = Some y \<and> ss_world s' = snd (snd y))"
  using assms
proof (cases rule: session_step.cases)
  case (read_ok arrived sn)
  then have "process_request renv mgr sn (s\<lparr>ss_read := No_read, ss_stream_buffer := ss_stream_buffer s @ arrived\<rparr>) = Some s'"
    by (simp add: request_handler_def)
  from process_request_world [OF this] show ?thesis by auto
qed (simp_all add: response_handler_def add_response_handler_def Let_def)

lemma site_worker_step:
  assumes f: "\<And>n. fair (draw n) (unat n + 1)" "countable_arrays env"
    and m: "wk_manager wk = [hierarchy_vhost (site popen fs env draw root allow)]"
    and st: "worker_step renv names wk (Runs wk')"
  shows "\<exists>rq. asked env draw rq (snd (wk_world wk)) (snd (wk_world wk'))"
  using st
proof (cases rule: worker_step.cases)
  case (signal err sig)
  have "wk_world wk' = wk_world wk \<or> manager_clear_cache (wk_manager wk) (wk_world wk) = Some (wk_world wk')"
    using signal_handler_world [OF signal(1) [symmetric]] by simp
  then have "snd (wk_world wk') = snd (wk_world wk)" using site_clear_cache unfolding m by metis
  then show ?thesis by simp
next
  case (accept k err sk)
  from accept_handler_world [OF accept(1) [symmetric]] show ?thesis by (simp add: accept_completes_def)
next
  case (client i s')
  have c: "service_client env draw snd (vh_response h)" if "h \<in> set (wk_manager wk)" for h
    using that site_client [OF f] by (simp add: m hierarchy_vhost_def)
  have w: "wk_world wk' = ss_world s'" using client(1) by (simp add: session_back_def)
  have "ss_world (session_in wk i) = wk_world wk" by (simp add: session_in_def)
  with session_step_world [OF client(4)] dispatch_one_operation [OF _ c] w show ?thesis by (metis asked_refl)
qed

text \<open>
  C6: Over the life of a worker the sessions only age: whatever its clients send and in whatever order it
  serves them, the documents stay well formed, a session keeps its user and is never prolonged, and one
  whose time is over, by itself or by a logout, is never accepted again.
\<close>
theorem worker_sessions_age:
  assumes "mongo_store env coll now" "\<And>n. quiet_draw coll now (draw n)"
    and "\<And>n. fair (draw n) (unat n + 1)" "countable_arrays env" "database_ok env coll (snd (wk_world wk))"
    and "wk_manager wk = [hierarchy_vhost (site popen fs env draw root allow)]"
    and "worker_reachable renv names (Runs wk) (Runs wk')"
  shows "database_ok env coll (snd (wk_world wk')) \<and>
    table_ages (session_at env coll (snd (wk_world wk))) (session_at env coll (snd (wk_world wk'))) \<and>
    (\<forall>sid u t r. session_at env coll (snd (wk_world wk)) sid = Some (u, t, r) \<and> t \<le> now (snd (wk_world wk)) \<longrightarrow>
       fst (continue_session env sid (snd (wk_world wk'))) = Inl (Logic (Session_not_found sid)))"
proof -
  let ?I = "\<lambda>wk2. wk_manager wk2 = wk_manager wk \<and> database_ok env coll (snd (wk_world wk2)) \<and>
    now (snd (wk_world wk)) \<le> now (snd (wk_world wk2)) \<and>
    table_ages (session_at env coll (snd (wk_world wk))) (session_at env coll (snd (wk_world wk2)))"
  have inv: "?I wk'"
  proof (rule worker_reachable_inv [OF assms(7)])
    fix wk1 wk2 assume st: "worker_step renv names wk1 (Runs wk2)" and I: "?I wk1"
    have "wk_manager wk1 = [hierarchy_vhost (site popen fs env draw root allow)]" using I assms(6) by simp
    from site_worker_step [OF assms(3,4) this st] obtain rq where
      a: "asked env draw rq (snd (wk_world wk1)) (snd (wk_world wk2))" by blast
    have ok: "database_ok env coll (snd (wk_world wk1))" using I by blast
    note s = mongo_store.asked_sessions [OF assms(1) ok assms(2) a]
    have m: "wk_manager wk2 = wk_manager wk1" using worker_step_Runs [OF st] by blast
    have "now (snd (wk_world wk)) \<le> now (snd (wk_world wk1))" "now (snd (wk_world wk1)) \<le> now (snd (wk_world wk2))"
      using I s by blast+
    then have n: "now (snd (wk_world wk)) \<le> now (snd (wk_world wk2))" by (rule order_trans)
    show "?I wk2" using I s m n table_ages_trans by auto
  qed (use assms(5) in simp)
  moreover have "fst (continue_session env sid (snd (wk_world wk'))) = Inl (Logic (Session_not_found sid))"
    if "session_at env coll (snd (wk_world wk)) sid = Some (u, t, r)" "t \<le> now (snd (wk_world wk))" for sid u t r
  proof -
    from inv have "table_ages (session_at env coll (snd (wk_world wk))) (session_at env coll (snd (wk_world wk')))" by blast
    with that(1) have "\<exists>x\<le>t. session_at env coll (snd (wk_world wk')) sid = Some (u, x, r)" by (auto simp: table_ages_def)
    then obtain x where x: "x \<le> t" "session_at env coll (snd (wk_world wk')) sid = Some (u, x, r)" by blast
    have "now (snd (wk_world wk)) \<le> now (snd (wk_world wk'))" using inv by blast
    then have "x \<le> now (snd (wk_world wk'))" using x(1) that(2) by (meson order_trans)
    moreover have "database_ok env coll (snd (wk_world wk'))" using inv by blast
    ultimately show ?thesis
      using mongo_store.continue_invalid_session [OF assms(1)] x(2) by (simp add: session_at_def)
  qed
  ultimately show ?thesis by blast
qed

section \<open>Witnesses\<close>

text \<open>The database in memory, whose driver refuses arrays that cannot be counted.\<close>

interpretation short_db: mongo_store short_arrays_env mem_colls mem_now
  by unfold_locales (simp_all add: short_arrays_env_def memory_env_def mem_find_def mem_string_oid_string mem_now_def)

lemma counting_draw_quiet: "quiet_draw mem_colls mem_now (counting_draw n)"
  by (simp add: quiet_draw_def counting_draw_def mem_now_def)

lemma short_arrays_db: "database_ok short_arrays_env mem_colls = database_ok memory_env mem_colls"
    "session_at short_arrays_env mem_colls = session_at memory_env mem_colls"
  by (simp_all add: fun_eq_iff database_ok_def session_at_def short_arrays_env_def)

lemma sessions_need_proof_witness:
  "\<exists>res rq' v' w x. dispatch [hierarchy_vhost (site (\<lambda>c. None) site_fs short_arrays_env counting_draw ''/'' any_chars)] 8080 []
      (sample_login_request\<lparr>rq_host := ''localhost'', rq_port := 8080, rq_path := ''/login''\<rparr>) ([], w) = Some (res, rq', v') \<and>
    session_at memory_env mem_colls w x = Some (7, one_month, one_month div 2) \<and>
    session_at memory_env mem_colls (snd v') x = Some (7, one_month, one_month div 2)"
proof -
  let ?mgr = "[hierarchy_vhost (site (\<lambda>c. None) site_fs short_arrays_env counting_draw ''/'' any_chars)]"
  let ?rq = "sample_login_request\<lparr>rq_host := ''localhost'', rq_port := 8080, rq_path := ''/login''\<rparr>"
  obtain x w where s: "session_started memory_env mem_colls mem_now sample_memory 7 x 0 w" "database_ok memory_env mem_colls w"
    by (rule sample_session)
  have "descends (vh_response h)" if "h \<in> set ?mgr" for h
    using that site_descends [of counting_draw short_arrays_env, OF counting_draw_fair short_arrays] by (simp add: hierarchy_vhost_def)
  then obtain res rq' v' where d: "dispatch ?mgr 8080 [] ?rq ([], w) = Some (res, rq', v')"
    using dispatch_ends [of ?mgr 8080 "[]" ?rq "([], w)"] by auto
  have r: "session_at memory_env mem_colls w x = Some (7, one_month, one_month div 2)" "sid_cookie ?rq = None"
    using s(1) by (simp_all add: session_started_def memory_env_def default_parameters_def sample_login_request_def
        sid_cookie_def new_request_def)
  then have "session_at memory_env mem_colls (snd v') x = Some (7, one_month, one_month div 2)"
    using sessions_need_proof [OF short_db.mongo_store_axioms counting_draw_quiet counting_draw_fair short_arrays _ d,
        unfolded short_arrays_db] s(2) by simp
  then show ?thesis using d r by blast
qed

lemma worker_sessions_age_witness:
  "\<exists>(wk :: memory site_state worker) x u t r. worker_reachable decimal_env [] (Runs wk) (Runs wk) \<and>
     session_at memory_env mem_colls (snd (wk_world wk)) x = Some (u, t, r) \<and> t \<le> mem_now (snd (wk_world wk)) \<and>
     fst (continue_session short_arrays_env x (snd (wk_world wk))) = Inl (Logic (Session_not_found x))"
proof -
  let ?mgr = "[hierarchy_vhost (site (\<lambda>c. None) site_fs short_arrays_env counting_draw ''/'' any_chars)]"
  obtain x w where s: "database_ok memory_env mem_colls w" "fst (logout_user memory_env x w) = Inr ()"
    by (rule sample_session)
  obtain w1 where w1: "logout_user memory_env x w = (Inr (), w1)" using s(2) by (cases "logout_user memory_env x w") simp
  obtain u t r where e: "database_ok memory_env mem_colls w1" "session_at memory_env mem_colls w1 x = Some (u, t, r)"
      "t \<le> mem_now w1"
    using memory_db.finish_ends_session [OF s(1), of x w1] w1 by (auto simp: logout_user_def)
  obtain wk where w: "mk_worker [] (Inr (Some ?mgr)) ([], w1) = Inr wk" "\<not> wk_stopped wk" "wk_waiting wk"
      "wk_manager wk = ?mgr" "wk_world wk = ([], w1)"
    by (simp add: mk_worker_def Let_def add_signal_handler_def)
  have "signal_handler False SIGHUP (wk\<lparr>wk_waiting := False\<rparr>) = Runs wk"
    using w(3) by (simp add: signal_handler_def signal_handlers_def add_signal_handler_def)
  then have "worker_step decimal_env [] wk (Runs wk)" using worker_step.signal [OF w(2,3), of decimal_env "[]" False SIGHUP] by simp
  then have reach: "worker_reachable decimal_env [] (Runs wk) (Runs wk)" by (intro worker_reachable.intros)
  have "fst (continue_session short_arrays_env x (snd (wk_world wk))) = Inl (Logic (Session_not_found x))"
    using worker_sessions_age [OF short_db.mongo_store_axioms counting_draw_quiet counting_draw_fair short_arrays _ w(4) reach,
        unfolded short_arrays_db] e w(5) by auto
  then show ?thesis using reach e w(5)
    by (intro exI [of _ wk] exI [of _ x] exI [of _ u] exI [of _ t] exI [of _ r]) simp
qed

end
