(* ===== verification/Host_Log.thy ===== *)
theory Host_Log
  imports Host_Logic File_Host Logger
begin

text \<open>
  What the hosts write to the log. A host answers an error and writes one line about it; the functions
  here are the lines that belong to the responses of \<open>Host_Logic\<close> and \<open>File_Host\<close>, with the same
  conditions. The interface \<open>log_keeper\<close> says how a line and an answer go together, and every host
  that logs is an instance; then what the line of a refused login tells.
  The host of logouts writes nothing. The warning of \<open>user_info\<close> about more friends than an index can
  count is no line of a host and not included.
\<close>

section \<open>The lines of the hosts\<close>

text \<open>\<open>log_error\<close> with the status: the line ends with the code that is answered.\<close>

definition log_error :: "host_base \<Rightarrow> request \<Rightarrow> string \<Rightarrow> status \<Rightarrow> line list" where
  "log_error h rq what_arg st = log_stream level_error (log_error_line h rq what_arg st)"

text \<open>The lambda \<open>handle_error\<close> of the hosts of the logic: \<open>200\<close> whatever happened.\<close>

definition refused_line :: "host_base \<Rightarrow> request \<Rightarrow> exn + 'a \<Rightarrow> line list" where
  "refused_line h rq r = (case r of
     Inl e \<Rightarrow> if is_std_exception e then log_error h rq (what e) status_ok else []
   | Inr x \<Rightarrow> [])"

definition login_log :: "host_base \<Rightarrow> 'w logic_env \<Rightarrow> request \<Rightarrow> 'w \<Rightarrow> line list" where
  "login_log h env rq w =
     (if rq_method rq \<noteq> POST \<or> sid_cookie rq \<noteq> None then []
      else
        (let data = rq_body rq; (parsed, form) = parse_form data in
         if length data \<noteq> length (rq_body rq) then log_error h rq ''Non-string-convertible data in login request body'' status_ok
         else if \<not> parsed then log_error h rq (''Can'' @ [CHR 0x27] @ ''t decode login request body'') status_ok
         else refused_line h rq (fst (login_user env form w))))"

definition registration_log :: "host_base \<Rightarrow> 'w logic_env \<Rightarrow> request \<Rightarrow> 'w \<Rightarrow> line list" where
  "registration_log h env rq w =
     (if rq_method rq \<noteq> POST \<or> sid_cookie rq \<noteq> None then []
      else
        (let data = rq_body rq; (parsed, form) = parse_form data in
         if length data \<noteq> length (rq_body rq) then log_error h rq ''Non-string-convertible data in registration request body'' status_ok
         else if \<not> parsed then log_error h rq (''Can'' @ [CHR 0x27] @ ''t decode registration request body'') status_ok
         else refused_line h rq (fst (register_user env form w))))"

definition users_log :: "host_base \<Rightarrow> 'w logic_env \<Rightarrow> request \<Rightarrow> 'w \<Rightarrow> line list" where
  "users_log h env rq w =
     (if (rq_method rq \<noteq> GET \<and> rq_method rq \<noteq> HEAD) \<or> \<not> has_json_arg rq then []
      else (case sid_cookie rq of None \<Rightarrow> [] | Some sid \<Rightarrow> refused_line h rq (fst (list_users env sid w))))"

definition friend_log :: "(string \<Rightarrow> string \<Rightarrow> ('w, string) lx) \<Rightarrow> host_base \<Rightarrow> request \<Rightarrow> 'w \<Rightarrow> line list" where
  "friend_log oper h rq w =
     (if rq_method rq \<noteq> POST then []
      else (case sid_cookie rq of None \<Rightarrow> [] | Some sid \<Rightarrow> (case split_first_section (rq_path rq) of
          Inl e \<Rightarrow> []
        | Inr (friend_ref, trailing_path) \<Rightarrow>
            if trailing_path \<noteq> [] \<and> trailing_path \<noteq> ''/'' then []
            else refused_line h rq (fst (oper friend_ref sid w)))))"

text \<open>A session that is not found is no error for \<open>section_root\<close>: it is redirected without a line.\<close>

definition section_root_log :: "host_base \<Rightarrow> 'w logic_env \<Rightarrow> (32 word \<Rightarrow> 'w \<Rightarrow> nat \<times> 'w) \<Rightarrow>
    string \<Rightarrow> string \<Rightarrow> request \<Rightarrow> 'w \<Rightarrow> line list" where
  "section_root_log h env draw user_ref sid rq w = (case user_info env draw user_ref sid w of
     None \<Rightarrow> []
   | Some (Inl (Logic (Session_not_found _)), _) \<Rightarrow> []
   | Some (r, _) \<Rightarrow> refused_line h rq r)"

definition user_log :: "host_base \<Rightarrow> 'w logic_env \<Rightarrow> (32 word \<Rightarrow> 'w \<Rightarrow> nat \<times> 'w) \<Rightarrow> request \<Rightarrow> 'w \<Rightarrow> line list" where
  "user_log h env draw rq w = (case user_path rq of
     (Inl e, rq) \<Rightarrow> []
   | (Inr (user_ref, section), rq) \<Rightarrow>
       if \<not> has_json_arg rq \<or> (rq_method rq \<noteq> GET \<and> rq_method rq \<noteq> HEAD) then []
       else (case sid_cookie rq of
          None \<Rightarrow> []
        | Some sid \<Rightarrow> if section \<noteq> [] then [] else section_root_log h env draw user_ref sid rq w))"

text \<open>The \<open>catch\<close> clauses of \<open>file::response\<close> log what they answer, the last one a text of its own.\<close>

definition file_log :: "file_system \<Rightarrow> file_host \<Rightarrow> 'w handler \<Rightarrow> string \<Rightarrow> request \<Rightarrow> 'w \<Rightarrow> line list" where
  "file_log fs h handler server_name rq w =
     (case (case locate fs h rq of Inl e \<Rightarrow> Inl e | Inr path \<Rightarrow> fst (handler server_name rq path w)) of
        Inl e \<Rightarrow> log_error (fh_base h) rq (if is_std_exception e then what e else ''Unknown error'') (error_status e)
      | Inr r \<Rightarrow> [])"

section \<open>A line and an answer\<close>

definition answers_with :: "status \<Rightarrow> request \<Rightarrow> response \<Rightarrow> bool" where
  "answers_with st rq r \<longleftrightarrow> (\<exists>hs. headers r = render (status_line st (rq_version rq)) hs [])"

lemma repr_answers: "repr (status_line st (rq_version rq)) hs body r \<Longrightarrow> answers_with st rq r"
  by (auto simp: answers_with_def repr_def)

lemma answers_phony [simp]: "answers_with st rq (handle_error sn rq st)"
  unfolding handle_error_def by (rule repr_answers [OF repr_phony])

lemma answers_json [simp]: "answers_with status_ok rq (json_reply sn rq body)"
  unfolding json_reply_def response_with_json_body_def by (rule repr_answers [OF repr_response_with_body])

lemma log_error_eq: "log_error h rq m st = [(LOG_ERR, c_str (log_error_line h rq m st))]"
  by (simp add: log_error_def log_stream_def log_error_line_def)

lemma log_error_not_Nil [simp]: "log_error h rq m st \<noteq> []"
  by (simp add: log_error_eq)

text \<open>
  A host that keeps a log writes nothing for a request that it hands on or that makes it throw; and when
  it writes, then the line names the status of its answer.
\<close>

locale log_keeper =
  fixes respond :: "string \<Rightarrow> request \<Rightarrow> 'w \<Rightarrow> ((exn + response option) \<times> request \<times> 'w) option"
    and log_of :: "string \<Rightarrow> request \<Rightarrow> 'w \<Rightarrow> line list" and host :: host_base
  assumes line: "log_of sn rq w \<noteq> [] \<Longrightarrow> \<exists>m st r rq' w'. log_of sn rq w = log_error host rq m st \<and>
    respond sn rq w = Some (Inr (Some r), rq', w') \<and> answers_with st rq' r"
begin

lemma silent: "respond sn rq w = Some (res, rq', w') \<Longrightarrow> \<forall>r. res \<noteq> Inr (Some r) \<Longrightarrow> log_of sn rq w = []"
  using line by fastforce

lemma one_line: "log_of sn rq w = [] \<or> (\<exists>text_of. log_of sn rq w = [(LOG_ERR, text_of)])"
  using line [of sn rq w] log_error_eq by metis

end

lemma refused_lineD:
  "refused_line h rq r \<noteq> [] \<Longrightarrow> \<exists>e. r = Inl e \<and> is_std_exception e \<and> refused_line h rq r = log_error h rq (what e) status_ok"
  by (auto simp: refused_line_def split: sum.splits if_splits)

interpretation login_keeper: log_keeper "\<lambda>sn rq w. Some (login_response env sn rq w)" "\<lambda>sn. login_log h env" h
proof
  fix sn rq w assume "login_log h env rq w \<noteq> []"
  then show "\<exists>m st r rq' w'. login_log h env rq w = log_error h rq m st \<and>
      Some (login_response env sn rq w) = Some (Inr (Some r), rq', w') \<and> answers_with st rq' r"
    by (auto simp: login_log_def login_response_def Let_def split: if_splits prod.splits sum.splits
        dest!: refused_lineD) (use answers_json in \<open>blast+\<close>)
qed

interpretation registration_keeper:
  log_keeper "\<lambda>sn rq w. Some (registration_response env sn rq w)" "\<lambda>sn. registration_log h env" h
proof
  fix sn rq w assume "registration_log h env rq w \<noteq> []"
  then show "\<exists>m st r rq' w'. registration_log h env rq w = log_error h rq m st \<and>
      Some (registration_response env sn rq w) = Some (Inr (Some r), rq', w') \<and> answers_with st rq' r"
    by (auto simp: registration_log_def registration_response_def Let_def split: if_splits prod.splits sum.splits
        dest!: refused_lineD) (use answers_json in \<open>blast+\<close>)
qed

interpretation users_keeper: log_keeper "\<lambda>sn rq w. Some (users_response env sn rq w)" "\<lambda>sn. users_log h env" h
proof
  fix sn rq w assume "users_log h env rq w \<noteq> []"
  then show "\<exists>m st r rq' w'. users_log h env rq w = log_error h rq m st \<and>
      Some (users_response env sn rq w) = Some (Inr (Some r), rq', w') \<and> answers_with st rq' r"
    by (auto simp: users_log_def users_response_def split: if_splits option.splits prod.splits sum.splits
        dest!: refused_lineD) (use answers_json in \<open>blast+\<close>)
qed

interpretation friend_keeper: log_keeper "\<lambda>sn rq w. Some (friend_response oper sn rq w)" "\<lambda>sn. friend_log oper h" h
proof
  fix sn rq w assume "friend_log oper h rq w \<noteq> []"
  then show "\<exists>m st r rq' w'. friend_log oper h rq w = log_error h rq m st \<and>
      Some (friend_response oper sn rq w) = Some (Inr (Some r), rq', w') \<and> answers_with st rq' r"
    by (auto simp: friend_log_def friend_response_def split: if_splits option.splits prod.splits sum.splits
        dest!: refused_lineD) (use answers_json in \<open>blast+\<close>)
qed

lemma user_path_client: "user_path rq = (r, rq') \<Longrightarrow> rq_client_address rq' = rq_client_address rq"
  by (auto simp: user_path_def Let_def split: sum.splits prod.splits if_splits)

lemma log_error_client: "rq_client_address rq' = rq_client_address rq \<Longrightarrow> log_error h rq' m st = log_error h rq m st"
  by (simp add: log_error_def log_error_line_def)

lemma section_root_keeper:
  assumes "section_root_log h env draw user_ref sid rq w \<noteq> []"
  shows "\<exists>m st r w'. section_root_log h env draw user_ref sid rq w = log_error h rq m st \<and>
    section_root env draw user_ref sid sn rq w = Some (Inr (Some r), rq, w') \<and> answers_with st rq r"
  using assms
  by (auto simp: section_root_log_def section_root_def split: option.splits prod.splits sum.splits exn.splits logic_error.splits
      dest!: refused_lineD) (use answers_json in \<open>blast+\<close>)

interpretation user_keeper: log_keeper "user_response env draw" "\<lambda>sn. user_log h env draw" h
proof
  fix sn rq w assume l: "user_log h env draw rq w \<noteq> []"
  obtain x rq1 where p: "user_path rq = (x, rq1)" by fastforce
  then obtain user_ref sect sid where x: "x = Inr (user_ref, sect)" "has_json_arg rq1"
      "rq_method rq1 = GET \<or> rq_method rq1 = HEAD" "sid_cookie rq1 = Some sid" "sect = []"
    using l by (auto simp: user_log_def split: sum.splits prod.splits if_splits option.splits)
  then have "user_log h env draw rq w = section_root_log h env draw user_ref sid rq1 w"
    using p by (auto simp: user_log_def)
  moreover have "user_response env draw sn rq w = section_root env draw user_ref sid sn rq1 w"
    using p x by (auto simp: user_response_def)
  ultimately show "\<exists>m st r rq' w'. user_log h env draw rq w = log_error h rq m st \<and>
      user_response env draw sn rq w = Some (Inr (Some r), rq', w') \<and> answers_with st rq' r"
    using section_root_keeper [of h env draw user_ref sid rq1 w sn] l log_error_client [OF user_path_client [OF p]] by metis
qed

interpretation file_keeper: log_keeper "\<lambda>sn rq w. Some (file_response fs fh handler sn rq w)" "file_log fs fh handler" "fh_base fh"
proof
  fix sn rq w assume l: "file_log fs fh handler sn rq w \<noteq> []"
  show "\<exists>m st r rq' w'. file_log fs fh handler sn rq w = log_error (fh_base fh) rq m st \<and>
      Some (file_response fs fh handler sn rq w) = Some (Inr (Some r), rq', w') \<and> answers_with st rq' r"
  proof (cases "locate fs fh rq")
    case (Inl e)
    then show ?thesis using answers_phony by (fastforce simp: file_log_def file_response_def)
  next
    case (Inr path)
    obtain x w1 where h: "handler sn rq path w = (x, w1)" by fastforce
    then show ?thesis using l Inr answers_phony by (cases x) (fastforce simp: file_log_def file_response_def)+
  qed
qed

section \<open>What a refused login tells\<close>

lemma code_ok: "to_string (code status_ok) = ''200''"
  by code_simp

lemma login_log_encoded:
  assumes "rq_method rq = POST" "sid_cookie rq = None" "rq_body rq = encode_form [(''email'', email), (''password'', pw)]"
  shows "login_log h env rq w = refused_line h rq (fst (start_session_for_email env email pw w))"
proof -
  have "parse_form (rq_body rq) = (True, [(''email'', email), (''password'', pw)])"
    by (simp add: assms(3) parse_form_def decode_uri_args_form form_action_def emplace_def)
  then show ?thesis using assms(1,2) by (simp add: login_log_def login_user_def form_at_def sbind_def slift_def)
qed

text \<open>
  C37: What a login that is refused leaves in the log, byte by byte, when the driver finds nobody with the email
  and when the password is another: the password the client sent, in clear text. Email and password are
  what the percent-encoded form stands for, so they may hold any byte, a line feed too; only what follows a
  NUL would be cut off. After the email there is neither the quotation mark that the line opened nor a space.
\<close>
theorem login_log_tells_password:
  assumes "rq_method rq = POST" "sid_cookie rq = None" "rq_body rq = encode_form [(''email'', email), (''password'', pw)]"
    and "find_one env (collection_users env) [(''email'', Bstr email)] (fields_to_return [''_id'', ''ref'', ''password'']) w = (Inr d, w1)"
    and "CHR 0x00 \<notin> set (rq_client_address rq @ name h @ email @ pw)"
  shows "(d = [] \<longrightarrow> login_log h env rq w = [(LOG_ERR, ''Client: '' @ rq_client_address rq @ '': Host: '' @ quoted (name h) @
      '': Logic: User not found: For email: '' @ [DQUOTE] @ email @ ''and password: '' @ quoted pw @ '' => 200.'')]) \<and>
    (d \<noteq> [] \<and> el_str env (field d ''password'') \<noteq> pw \<and> el_oid env (field d ''_id'') = Inr i \<and> CHR 0x00 \<notin> set (oid_string env i) \<longrightarrow>
      login_log h env rq w = [(LOG_ERR, ''Client: '' @ rq_client_address rq @ '': Host: '' @ quoted (name h) @
        '': Logic: Password not match for id: '' @ quoted (oid_string env i) @ '' and password: '' @ quoted pw @ '' => 200.'')])"
proof (intro conjI impI)
  note start = start_session_for_email_def sbind_def assms(4) log_error_eq log_error_line_def logic_what_def code_ok
    login_log_encoded [OF assms(1-3)] refused_line_def quoted_def
  show "login_log h env rq w = [(LOG_ERR, ''Client: '' @ rq_client_address rq @ '': Host: '' @ quoted (name h) @
      '': Logic: User not found: For email: '' @ [DQUOTE] @ email @ ''and password: '' @ quoted pw @ '' => 200.'')]" if "d = []"
    using assms(5) that by (simp add: start c_str_no_nul)
  show "login_log h env rq w = [(LOG_ERR, ''Client: '' @ rq_client_address rq @ '': Host: '' @ quoted (name h) @
        '': Logic: Password not match for id: '' @ quoted (oid_string env i) @ '' and password: '' @ quoted pw @ '' => 200.'')]"
    if "d \<noteq> [] \<and> el_str env (field d ''password'') \<noteq> pw \<and> el_oid env (field d ''_id'') = Inr i \<and> CHR 0x00 \<notin> set (oid_string env i)"
    using assms(5) that by (simp add: start c_str_no_nul start_session_for_obj_def slift_def)
qed

text \<open>A line feed in the email: the second line of the message is the client's own.\<close>

lemma login_log_tells_password_witness:
  "login_log (\<lparr>name = ''login'', ports = []\<rparr>) memory_env ((new_request ''10.0.0.1'')\<lparr>rq_method := POST,
      rq_body := encode_form [(''email'', ''eve'' @ [CHR 0x0A] @ ''Stopped.''), (''password'', ''pw'')]\<rparr>) sample_memory =
    [(LOG_ERR, ''Client: 10.0.0.1: Host: '' @ quoted ''login'' @ '': Logic: User not found: For email: '' @ [DQUOTE] @
       ''eve'' @ [CHR 0x0A] @ ''Stopped.and password: '' @ quoted ''pw'' @ '' => 200.'')]"
proof -
  let ?email = "''eve'' @ [CHR 0x0A] @ ''Stopped.''"
  let ?rq = "(new_request ''10.0.0.1'')\<lparr>rq_method := POST, rq_body := encode_form [(''email'', ?email), (''password'', ''pw'')]\<rparr>"
  have "mem_find ''users'' [(''email'', Bstr ?email)] (fields_to_return [''_id'', ''ref'', ''password'']) sample_memory = (Inr [], sample_memory)"
    by (simp add: mem_find_def sample_memory_def found_doc_def first_match_def sample_user_def)
  then have f: "find_one memory_env (collection_users memory_env) [(''email'', Bstr ?email)]
      (fields_to_return [''_id'', ''ref'', ''password'']) sample_memory = (Inr [], sample_memory)"
    by simp
  have q: "rq_method ?rq = POST" "sid_cookie ?rq = None" "rq_body ?rq = encode_form [(''email'', ?email), (''password'', ''pw'')]"
    by (simp_all add: new_request_def sid_cookie_def)
  have n: "CHR 0x00 \<notin> set (rq_client_address ?rq @ name \<lparr>name = ''login'', ports = []\<rparr> @ ?email @ ''pw'')"
    by (simp add: new_request_def)
  show ?thesis
    using login_log_tells_password [OF q f n] by (simp add: new_request_def)
qed

end
