(* ===== verification/Worker_Log.thy ===== *)
theory Worker_Log
  imports Session_Log Host_Log Site
begin

text \<open>
  What a worker of the site writes to the log: the lines of \<open>run\<close>, of signals, of accepts, of the
  sessions it serves and of the hosts that answer, each together with the step that writes it. The
  steps are those of \<open>Worker\<close>, whatever is logged; and what the log tells of the life of a worker.
  A line is one entry of the log, that is, one call of \<open>syslog\<close>. Not included are the lines of the
  constructors (\<open>Acceptor\<close>), that of \<open>user_info\<close> about more friends than an \<open>unsigned int\<close> counts, and
  \<open>Failed:\<close> in \<open>run\<close>: no handler that is modelled throws into the event loop.
\<close>

section \<open>The lines of the site\<close>

type_synonym 'w respond_log = "string \<Rightarrow> request \<Rightarrow> 'w \<Rightarrow> line list"

text \<open>A hierarchy writes nothing itself; what is written is up to the host it hands the request to.\<close>

definition hierarchy_log :: "(string \<times> 'w respond_log) list \<Rightarrow> 'w respond_log option \<Rightarrow> 'w respond_log" where
  "hierarchy_log logs default_log server_name rq w = (case split_first_section (rq_path rq) of
     Inl _ \<Rightarrow> []
   | Inr (first_section, trailing_path) \<Rightarrow>
      (case map_of logs first_section of
         None \<Rightarrow> (case default_log of Some l \<Rightarrow> l server_name rq w | None \<Rightarrow> [])
       | Some l \<Rightarrow> l server_name (rq\<lparr>rq_path := section_path trailing_path\<rparr>) w))"

definition lift_log :: "('v \<Rightarrow> 'w) \<Rightarrow> 'w respond_log \<Rightarrow> 'v respond_log" where
  "lift_log get l server_name rq v = l server_name rq (get v)"

definition site_log ::
  "shell \<Rightarrow> file_system \<Rightarrow> 'w logic_env \<Rightarrow> (32 word \<Rightarrow> 'w \<Rightarrow> nat \<times> 'w) \<Rightarrow> string \<Rightarrow> regex \<Rightarrow> 'w site_state respond_log" where
  "site_log popen fs env draw root allow = hierarchy_log [
       (''add_friend'', lift_log snd (\<lambda>sn. friend_log (add_friend_op env) site_base)),
       (''login'', lift_log snd (\<lambda>sn. login_log site_base env)),
       (''logout'', lift_log snd (\<lambda>sn rq w. [])),
       (''registration'', lift_log snd (\<lambda>sn. registration_log site_base env)),
       (''remove_friend'', lift_log snd (\<lambda>sn. friend_log (remove_friend_op env) site_base)),
       (''user'', lift_log snd (\<lambda>sn. user_log site_base env draw)),
       (''users'', lift_log snd (\<lambda>sn. users_log site_base env))]
     (Some (lift_log fst (file_log fs (site_files root allow) (files_only popen fs))))"

text \<open>The lines go with the answers of the site, as for every single host.\<close>

abbreviation keeper :: "'w respond \<Rightarrow> 'w respond_log \<Rightarrow> bool" where
  "keeper respond l \<equiv> log_keeper (\<lambda>sn rq w. Some (respond sn rq w)) l site_base"

lemma keeper_lift: "keeper respond l \<Longrightarrow> keeper (lift_respond get put respond) (lift_log get l)"
  unfolding log_keeper_def lift_respond_def lift_log_def by (fastforce split: prod.split)

lemma keeper_user: "keeper (user_respond env draw) (\<lambda>sn. user_log site_base env draw)"
proof
  fix sn rq w assume "user_log site_base env draw rq w \<noteq> []"
  from user_keeper.line [OF this, of sn] obtain m st r rq' w' where
    u: "user_log site_base env draw rq w = log_error site_base rq m st" "answers_with st rq' r"
      "user_response env draw sn rq w = Some (Inr (Some r), rq', w')" by blast
  then have "user_respond env draw sn rq w = (Inr (Some r), rq', w')" by (simp add: user_respond_def)
  with u show "\<exists>m st r rq' w'. user_log site_base env draw rq w = log_error site_base rq m st \<and>
      Some (user_respond env draw sn rq w) = Some (Inr (Some r), rq', w') \<and> answers_with st rq' r" by blast
qed

lemma keeper_silent: "keeper respond (\<lambda>sn rq w. [])"
  by unfold_locales simp

lemma keeper_hierarchy:
  assumes hosts: "\<And>s. rel_option (\<lambda>h l. keeper (vh_response h) l) (map_of (hi_hosts hi) s) (map_of logs s)"
    and default: "rel_option (\<lambda>h l. keeper (vh_response h) l) (hi_default hi) default_log"
  shows "keeper (hierarchy_response hi) (hierarchy_log logs default_log)"
proof
  fix sn rq w assume n: "hierarchy_log logs default_log sn rq w \<noteq> []"
  then obtain s t where s: "split_first_section (rq_path rq) = Inr (s, t)"
    by (auto simp: hierarchy_log_def split: sum.splits)
  show "\<exists>m st r rq' w'. hierarchy_log logs default_log sn rq w = log_error site_base rq m st \<and>
      Some (hierarchy_response hi sn rq w) = Some (Inr (Some r), rq', w') \<and> answers_with st rq' r"
  proof (cases "map_of (hi_hosts hi) s")
    case None
    then have m: "map_of logs s = None" using hosts [of s] by simp
    then obtain l where l: "default_log = Some l" "l sn rq w \<noteq> []"
      using n s by (auto simp: hierarchy_log_def split: option.splits)
    then obtain h where h: "hi_default hi = Some h" "keeper (vh_response h) l" using default by (auto simp: option_rel_Some2)
    from log_keeper.line [OF h(2) l(2)] show ?thesis using s m None l(1) h(1)
      by (simp add: hierarchy_log_def hierarchy_response_def)
  next
    case (Some h)
    then obtain l where l: "map_of logs s = Some l" "keeper (vh_response h) l" using hosts [of s] by (auto simp: option_rel_Some1)
    let ?rq = "rq\<lparr>rq_path := section_path t\<rparr>"
    have e: "hierarchy_log logs default_log sn rq w = l sn ?rq w" "hierarchy_response hi sn rq w = vh_response h sn ?rq w"
      using s l Some by (simp_all add: hierarchy_log_def hierarchy_response_def)
    have "log_error site_base ?rq m st = log_error site_base rq m st" for m st by (rule log_error_client) simp
    with log_keeper.line [OF l(2), of sn ?rq w] n show ?thesis unfolding e by simp
  qed
qed

interpretation site_keeper: log_keeper "\<lambda>sn rq v. Some (hierarchy_response (site popen fs env draw root allow) sn rq v)"
    "site_log popen fs env draw root allow" site_base
proof -
  let ?hi = "site popen fs env draw root allow"
  have l: "keeper (vh_response (logic_host respond)) (lift_log snd l)" if "keeper respond l" for respond :: "'a respond" and l
    using keeper_lift [OF that] by (simp add: logic_host_def lift_vhost_def)
  have b: "fh_base (site_files root allow) = site_base" by (simp add: site_files_def new_file_host_def)
  have f: "keeper (file_response fs (site_files root allow) (files_only popen fs)) (file_log fs (site_files root allow) (files_only popen fs))"
    using file_keeper.log_keeper_axioms [of fs "site_files root allow" "files_only popen fs"] unfolding b .
  have h: "rel_option (\<lambda>h l. keeper (vh_response h) l) (map_of (hi_hosts ?hi) s) (map_of [
       (''add_friend'', lift_log snd (\<lambda>sn. friend_log (add_friend_op env) site_base)),
       (''login'', lift_log snd (\<lambda>sn. login_log site_base env)),
       (''logout'', lift_log snd (\<lambda>sn rq w. [])),
       (''registration'', lift_log snd (\<lambda>sn. registration_log site_base env)),
       (''remove_friend'', lift_log snd (\<lambda>sn. friend_log (remove_friend_op env) site_base)),
       (''user'', lift_log snd (\<lambda>sn. user_log site_base env draw)),
       (''users'', lift_log snd (\<lambda>sn. users_log site_base env))] s)" for s
    using l [OF friend_keeper.log_keeper_axioms [of "add_friend_op env" site_base]] l [OF login_keeper.log_keeper_axioms [of env site_base]]
      l [OF keeper_silent [of "logout_response env"]] l [OF registration_keeper.log_keeper_axioms [of env site_base]]
      l [OF friend_keeper.log_keeper_axioms [of "remove_friend_op env" site_base]] l [OF keeper_user [of env draw]]
      l [OF users_keeper.log_keeper_axioms [of env site_base]]
    by (simp add: site_def add_friend_response_def remove_friend_response_def)
  have d: "rel_option (\<lambda>h l. keeper (vh_response h) l) (hi_default ?hi)
      (Some (lift_log fst (file_log fs (site_files root allow) (files_only popen fs))))"
    using keeper_lift [OF f] by (simp add: site_def lift_vhost_def file_vhost_def)
  show "keeper (hierarchy_response ?hi) (site_log popen fs env draw root allow)"
    unfolding site_log_def by (rule keeper_hierarchy [OF h d])
qed

text \<open>The site is the only host of its manager.\<close>

definition site_host_log ::
  "shell \<Rightarrow> file_system \<Rightarrow> 'w logic_env \<Rightarrow> (32 word \<Rightarrow> 'w \<Rightarrow> nat \<times> 'w) \<Rightarrow> string \<Rightarrow> regex \<Rightarrow> 'w site_state host_log" where
  "site_host_log popen fs env draw root allow host = site_log popen fs env draw root allow"

section \<open>The lines of the worker\<close>

abbreviation level_critical :: level where "level_critical \<equiv> Regular LOG_CRIT"

definition received :: "string \<Rightarrow> int \<Rightarrow> string \<Rightarrow> line list" where
  "received signal_str signal doing = log_stream level_info
     (''Recieved signal: '' @ signal_str @ '' ('' @ to_string (nat signal) @ ''). '' @ doing)"

fun reaction_lines :: "reaction \<Rightarrow> int \<Rightarrow> string \<Rightarrow> line list" where
  "reaction_lines Exit signal signal_str = received signal_str signal ''Stopping...''"
| "reaction_lines Ignore signal signal_str = received signal_str signal ''Ignoring...''"
| "reaction_lines Clear_caches signal signal_str = received signal_str signal ''Cleaning cache...''"

definition signal_error_line :: "string \<Rightarrow> line list" where
  "signal_error_line message = log_stream level_critical (''Signal handle error: '' @ message @ ''.'')"

text \<open>\<open>message\<close> is the message of the error code.\<close>

definition signal_lines :: "bool \<Rightarrow> string \<Rightarrow> int \<Rightarrow> line list" where
  "signal_lines err message signal =
     (if err then signal_error_line message
      else (case map_of signal_handlers signal of
          None \<Rightarrow> reaction_lines Exit signal ''Unknown''
        | Some (signal_str, reaction) \<Rightarrow> reaction_lines reaction signal signal_str))"

text \<open>The address is read before the \<open>try\<close> block of \<open>add_client\<close>: if that fails, nothing is written.\<close>

definition add_client_lines :: "socket \<Rightarrow> 'w \<Rightarrow> line list" where
  "add_client_lines sk w = (case sk_remote sk of
     Inl e \<Rightarrow> []
   | Inr client_address \<Rightarrow> (case session_of_socket sk w of
       Inl e \<Rightarrow> log_stream level_error (''Can'' @ [CHR 0x27] @ ''t process client: '' @ client_address @ '': '' @
         (if is_std_exception e then what e @ ''.'' else ''Unknown error.''))
     | Inr s \<Rightarrow> connected_line (rq_client_address (ss_request s))))"

definition accept_lines :: "port_type \<Rightarrow> bool \<Rightarrow> string \<Rightarrow> socket \<Rightarrow> 'w \<Rightarrow> line list" where
  "accept_lines port err message sk w =
     (if err then log_stream level_error (''Accepting on port: '' @ to_string (unat port) @ '': '' @ message @ ''.'')
      else add_client_lines sk w)"

section \<open>Steps with their lines\<close>

definition arrived_in :: "'w session \<Rightarrow> string \<Rightarrow> 'w session" where
  "arrived_in s arrived = s\<lparr>ss_read := No_read, ss_stream_buffer := ss_stream_buffer s @ arrived\<rparr>"

inductive session_logged_step ::
  "order \<Rightarrow> 'w host_log \<Rightarrow> req_env \<Rightarrow> 'w manager \<Rightarrow> string list \<Rightarrow> 'w session \<Rightarrow> line list \<Rightarrow> 'w session \<Rightarrow> bool"
  for ord hlog env mgr names where
  read_ok: "read_complete (ss_read s) (ss_stream_buffer s) arrived \<Longrightarrow>
     server_name \<in> set names \<or> names = [] \<and> server_name = [] \<Longrightarrow>
     process_request_logged ord hlog env mgr server_name (arrived_in s arrived) = Some (s', ls) \<Longrightarrow>
     session_logged_step ord hlog env mgr names s ls s'"
| read_error: "ss_read s \<noteq> No_read \<Longrightarrow>
     session_logged_step ord hlog env mgr names s (request_handler_line (rq_client_address (ss_request s)) reason) (arrived_in s arrived)"
| write_ok: "ss_sending s \<Longrightarrow> session_logged_step ord hlog env mgr names s [] (response_handler False s)"
| write_error: "ss_sending s \<Longrightarrow>
     session_logged_step ord hlog env mgr names s (response_handler_line (rq_client_address (ss_request s)) message) (response_handler True s)"

inductive worker_logged_step ::
  "order \<Rightarrow> 'w host_log \<Rightarrow> req_env \<Rightarrow> string list \<Rightarrow> 'w worker \<Rightarrow> line list \<Rightarrow> 'w process_state \<Rightarrow> bool"
  for ord hlog env names where
  signal: "\<not> wk_stopped wk \<Longrightarrow> wk_waiting wk \<Longrightarrow>
     worker_logged_step ord hlog env names wk (signal_lines err message sig) (signal_handler err sig (wk\<lparr>wk_waiting := False\<rparr>))"
| accept: "\<not> wk_stopped wk \<Longrightarrow> k < length (wk_acceptors wk) \<Longrightarrow> snd (wk_acceptors wk ! k) \<Longrightarrow>
     worker_logged_step ord hlog env names wk (accept_lines (fst (wk_acceptors wk ! k)) err message sk (wk_world wk))
       (accept_handler k err sk (accept_completes k wk))"
| client: "\<not> wk_stopped wk \<Longrightarrow> i < length (wk_sessions wk) \<Longrightarrow>
     session_logged_step ord hlog env (wk_manager wk) names (session_in wk i) ls s' \<Longrightarrow>
     worker_logged_step ord hlog env names wk ls (Runs (session_back wk i s'))"

text \<open>The event loop, with all that is written in it; and \<open>run\<close>, so far and when it has returned.\<close>

inductive worker_life :: "order \<Rightarrow> 'w host_log \<Rightarrow> req_env \<Rightarrow> string list \<Rightarrow> 'w worker \<Rightarrow> line list \<Rightarrow> 'w process_state \<Rightarrow> bool"
  for ord hlog env names wk0 where
  born: "worker_life ord hlog env names wk0 [] (Runs wk0)"
| lives: "worker_life ord hlog env names wk0 ls (Runs wk) \<Longrightarrow> worker_logged_step ord hlog env names wk new st \<Longrightarrow>
     worker_life ord hlog env names wk0 (ls @ new) st"

definition started_line :: "line list" where
  "started_line = [log level_info ''Started.'']"

definition stopped_line :: "line list" where
  "stopped_line = [log level_info ''Stopped.'']"

inductive logged_run :: "order \<Rightarrow> 'w host_log \<Rightarrow> req_env \<Rightarrow> string list \<Rightarrow> 'w worker \<Rightarrow> line list \<Rightarrow> 'w process_state \<Rightarrow> bool"
  for ord hlog env names wk0 where
  runs: "worker_life ord hlog env names wk0 ls st \<Longrightarrow> logged_run ord hlog env names wk0 (started_line @ ls) st"
| returns: "worker_life ord hlog env names wk0 ls (Runs wk) \<Longrightarrow> wk_stopped wk \<Longrightarrow>
     logged_run ord hlog env names wk0 (started_line @ ls @ stopped_line) (Runs wk)"

section \<open>The lines change nothing\<close>

lemma session_logged_step_step: "session_logged_step ord hlog env mgr names s ls s' \<Longrightarrow> session_step env mgr names s s'"
proof (induction rule: session_logged_step.induct)
  case (read_ok s arrived server_name s' ls)
  then have "process_request env mgr server_name (arrived_in s arrived) = Some s'"
    using logging_is_transparent [of ord hlog env mgr server_name "arrived_in s arrived"] by simp
  with read_ok(1,2) show ?case by (intro session_step.read_ok) (simp_all add: request_handler_def arrived_in_def)
next
  case (read_error s reason arrived)
  then show ?case using session_step.read_error [of s env mgr names arrived] by (simp add: arrived_in_def)
qed (rule session_step.write_ok session_step.write_error, assumption)+

lemma session_step_logged: "session_step env mgr names s s' \<Longrightarrow> \<exists>ls. session_logged_step ord hlog env mgr names s ls s'"
proof (induction rule: session_step.induct)
  case (read_ok s arrived server_name s')
  then have "map_option fst (process_request_logged ord hlog env mgr server_name (arrived_in s arrived)) = Some s'"
    by (simp add: logging_is_transparent request_handler_def arrived_in_def)
  then obtain ls where "process_request_logged ord hlog env mgr server_name (arrived_in s arrived) = Some (s', ls)" by auto
  with read_ok(1,2) show ?case by (blast intro: session_logged_step.read_ok)
next
  case (read_error s arrived)
  from session_logged_step.read_error [OF this, of ord hlog env mgr names Eof arrived] show ?case
    unfolding arrived_in_def by blast
qed (blast intro: session_logged_step.write_ok session_logged_step.write_error)+

lemma worker_logged_step_step: "worker_logged_step ord hlog env names wk ls st \<Longrightarrow> worker_step env names wk st"
  by (induction rule: worker_logged_step.induct)
    (auto intro: worker_step.signal worker_step.accept worker_step.client session_logged_step_step)

lemma worker_step_logged: "worker_step env names wk st \<Longrightarrow> st \<noteq> Hangs \<Longrightarrow> \<exists>ls. worker_logged_step ord hlog env names wk ls st"
proof (induction rule: worker_step.induct)
  case (signal wk err sig)
  then show ?case using worker_logged_step.signal by blast
next
  case (accept wk k err sk)
  then show ?case using worker_logged_step.accept by blast
next
  case (client wk i s')
  then show ?case using session_step_logged worker_logged_step.client by blast
qed simp

section \<open>Reading the log\<close>

text \<open>Which lines tell that the worker stops.\<close>

definition stop_line :: "line \<Rightarrow> bool" where
  "stop_line l \<longleftrightarrow> (\<exists>str sig. (str = ''Unknown'' \<or> (sig, str, Exit) \<in> set signal_handlers) \<and> l \<in> set (received str sig ''Stopping...'')) \<or>
     (\<exists>message. l \<in> set (signal_error_line message))"

definition begins :: "string \<Rightarrow> string \<Rightarrow> bool" where
  "begins p s \<longleftrightarrow> take (length p) s = p"

lemma begins_append [simp]: "begins p (p @ s)"
  by (simp add: begins_def)

text \<open>What serves a client never begins like the lines of signals.\<close>

definition client_line :: "line \<Rightarrow> bool" where
  "client_line l \<longleftrightarrow> begins ''Client: '' (snd l) \<or> begins log_security_prefix (snd l) \<or> begins ''Can'' (snd l) \<or> begins ''Accepting'' (snd l)"

lemma stop_line_begins: "stop_line l \<Longrightarrow> begins ''Recieved signal: '' (snd l) \<or> begins ''Signal handle error: '' (snd l)"
proof -
  have "begins ''Recieved signal: '' (c_str (''Recieved signal: '' @ x))" "begins ''Signal handle error: '' (c_str (''Signal handle error: '' @ x))" for x
    by (simp_all add: c_str_def begins_def)
  then show "stop_line l \<Longrightarrow> ?thesis"
    unfolding stop_line_def received_def signal_error_line_def log_stream_def by (auto split: if_splits)
qed

lemma client_line_no_stop: "client_line l \<Longrightarrow> \<not> stop_line l"
proof
  assume c: "client_line l" and "stop_line l"
  then have "hd (snd l) = CHR ''R'' \<or> hd (snd l) = CHR ''S''"
    using stop_line_begins unfolding begins_def by (metis (no_types) hd_take length_greater_0_conv list.discI list.sel(1))
  moreover have "hd (snd l) = CHR ''C'' \<or> hd (snd l) = CHR ''<'' \<or> hd (snd l) = CHR ''A''"
    using c unfolding client_line_def begins_def log_security_prefix_def
    by (metis (no_types) hd_take length_greater_0_conv list.discI list.sel(1))
  ultimately show False by auto
qed

lemma client_line_stream:
  "l \<in> set (log_stream (Regular p) (''Client: '' @ x)) \<Longrightarrow> client_line l"
  "l \<in> set (log_stream (Security p) x) \<Longrightarrow> client_line l"
  "l \<in> set (log_stream (Regular p) (''Can'' @ x)) \<Longrightarrow> client_line l"
  "l \<in> set (log_stream (Regular p) (''Accepting'' @ x)) \<Longrightarrow> client_line l"
  by (auto simp: log_stream_def client_line_def begins_def c_str_def log_security_prefix_def split: if_splits)

text \<open>Lists of such lines.\<close>

abbreviation client_lines :: "line list \<Rightarrow> bool" where
  "client_lines ls \<equiv> list_all client_line ls"

lemma client_lines_stream:
  "client_lines (log_stream (Regular p) (''Client: '' @ x))" "client_lines (log_stream (Security p) x)"
  "client_lines (log_stream (Regular p) (''Can'' @ x))" "client_lines (log_stream (Regular p) (''Accepting'' @ x))"
  unfolding list_all_iff using client_line_stream by blast+

lemmas client_lines_text [simp] = client_lines_stream [simplified]

lemma client_lines_of [simp]:
  "client_lines (log_stream level_info (request_text ord rq))" "client_lines (manager_host_log m n port)"
  "client_lines (error_line rq e)" "client_lines (port_warning rq)"
  "client_lines (log_error b rq x st)" "client_lines (request_handler_line a reason)" "client_lines (response_handler_line a message)" "client_lines (connected_line a)"
  by (auto simp: request_text_def manager_host_log_def error_line_def port_warning_def response_handler_line_def
      connected_line_def log_error_def log_error_line_def split: option.split) (cases reason, simp_all)

text \<open>
  The contract of the hosts: whatever they are asked, their lines are such lines too. The lemmas about
  the lines of a worker are proved once for all hosts that keep it.
\<close>

locale client_hosts =
  fixes hlog :: "'w host_log"
  assumes host_lines [simp]: "client_lines (hlog h sn rq w)"
begin

lemma dispatch_lines:
  assumes "dispatch_logged ord hlog mgr port sn rq w ls = Some y" "client_lines ls"
  shows "client_lines (snd y)"
proof -
  have "(\<forall>h sn rq w. client_lines (hlog h sn rq w)) \<longrightarrow> client_lines ls \<longrightarrow> client_lines (snd y)"
  proof (rule dispatch_logged.raw_induct [where P = "\<lambda>ord hlog mgr port sn rq w ls y.
      (\<forall>h sn rq w. client_lines (hlog h sn rq w)) \<longrightarrow> client_lines ls \<longrightarrow> client_lines (snd y)", OF _ assms(1)])
    fix f ord hlog mgr port sn rq w ls y
    assume IH: "\<And>ord hlog mgr port sn rq (w :: 'b) ls y. f ord hlog mgr port sn rq w ls = Some y \<Longrightarrow>
        (\<forall>h sn rq w. client_lines (hlog h sn rq w)) \<longrightarrow> client_lines ls \<longrightarrow> client_lines (snd y)"
      and body: "(let ls = ls @ log_stream level_info (request_text ord rq) in
        if rq_port rq \<noteq> port
        then Some ((Inl (Http (Incorrect_port (to_string (unat (rq_port rq))))), rq, w), ls @ port_warning rq)
        else (let ls = ls @ manager_host_log mgr (rq_host rq) (rq_port rq) in
          case manager_host mgr (rq_host rq) (rq_port rq) of
            Inl e \<Rightarrow> Some ((Inl e, rq, w), ls)
          | Inr host \<Rightarrow>
             (let ls = ls @ hlog host sn rq w in
              case vh_response host sn rq w of
                (Inl e, rq, w) \<Rightarrow> Some ((Inl e, rq, w), ls)
              | (Inr None, rq, w) \<Rightarrow> f ord hlog mgr port sn rq w ls
              | (Inr (Some r), rq, w) \<Rightarrow> Some ((Inr r, rq, w), ls)))) = Some y"
    then show "(\<forall>h sn rq w. client_lines (hlog h sn rq w)) \<longrightarrow> client_lines ls \<longrightarrow> client_lines (snd y)"
      by (auto simp: Let_def split: if_splits sum.splits prod.splits option.splits dest!: IH)
  qed
  then show ?thesis using assms(2) host_lines by blast
qed

lemma process_lines: "process_request_logged ord hlog env mgr sn s = Some (s', ls) \<Longrightarrow> client_lines ls"
  unfolding process_request_logged_def
  by (auto simp: Let_def split: sum.splits prod.splits option.splits if_splits dest!: dispatch_lines)

lemma session_lines: "session_logged_step ord hlog env mgr names s ls s' \<Longrightarrow> client_lines ls"
  by (induction rule: session_logged_step.induct) (simp_all add: process_lines)

end

lemma accept_client_lines: "client_lines (accept_lines port err message sk w)"
  by (simp add: accept_lines_def add_client_lines_def split: sum.split)

text \<open>Of the lines of signals, those that stop the worker end differently.\<close>

lemma received_no_nul:
  assumes "CHR 0x00 \<notin> set str" "CHR 0x00 \<notin> set doing"
  shows "received str sig doing = [(LOG_INFO, ''Recieved signal: '' @ str @ '' ('' @ to_string (nat sig) @ ''). '' @ doing)]"
proof -
  have "CHR 0x00 \<notin> set (to_string (nat sig))" by (auto dest: to_string_digits simp: is_digit_def)
  then show ?thesis using assms by (simp add: received_def log_stream_def c_str_no_nul)
qed

lemma signal_names: "(sig, str, r) \<in> set signal_handlers \<Longrightarrow> CHR 0x00 \<notin> set str"
  by (auto simp: signal_handlers_def)

lemma received_stop:
  assumes "(sig, str, r) \<in> set signal_handlers" "r \<noteq> Exit" "l \<in> set (reaction_lines r sig str)"
  shows "\<not> stop_line l"
proof
  have l: "take 8 (rev (snd l)) = rev ''oring...'' \<or> take 8 (rev (snd l)) = rev ''cache...''"
    using assms(2,3) received_no_nul [OF signal_names [OF assms(1)]] by (cases r) auto
  have b: "begins ''Recieved signal: '' (snd l)"
    using assms(2,3) received_no_nul [OF signal_names [OF assms(1)]] by (cases r) (auto simp: begins_def)
  assume "stop_line l"
  then consider str sig where "CHR 0x00 \<notin> set str" "l \<in> set (received str sig ''Stopping...'')"
    | message where "l \<in> set (signal_error_line message)"
    unfolding stop_line_def using signal_names by fastforce
  then show False
  proof cases
    case 1
    then have "take 8 (rev (snd l)) = rev ''pping...''" using received_no_nul [OF 1(1)] by auto
    with l show False by auto
  next
    case 2
    then have "hd (snd l) = CHR ''S''" by (auto simp: signal_error_line_def log_stream_def c_str_def)
    moreover have "hd (snd l) = CHR ''R''" using b by (cases "snd l") (auto simp: begins_def)
    ultimately show False by simp
  qed
qed

lemma run_lines_no_stop [simp]:
  "l \<in> set started_line \<Longrightarrow> \<not> stop_line l" "l \<in> set stopped_line \<Longrightarrow> \<not> stop_line l"
  by (auto simp: started_line_def stopped_line_def c_str_def begins_def dest!: stop_line_begins)

lemma no_stop_line: "client_lines ls \<Longrightarrow> l \<in> set ls \<Longrightarrow> \<not> stop_line l"
  by (auto simp: list_all_iff dest: client_line_no_stop)

section \<open>What a step writes\<close>

abbreviation stopped_state :: "'w process_state \<Rightarrow> bool" where
  "stopped_state st \<equiv> \<exists>wk. st = Runs wk \<and> wk_stopped wk"

lemma signal_lines_stop:
  assumes "\<not> wk_stopped wk"
  shows "(\<exists>l \<in> set (signal_lines err message sig). stop_line l) \<longleftrightarrow> stopped_state (signal_handler err sig (wk\<lparr>wk_waiting := False\<rparr>))"
proof (cases "err \<or> map_of signal_handlers sig = None")
  case True
  have "\<exists>l. l \<in> set (signal_error_line message)" "\<exists>l. l \<in> set (received ''Unknown'' sig ''Stopping...'')"
    by (auto simp: signal_error_line_def received_def log_stream_def)
  then show ?thesis using True unfolding signal_lines_def signal_handler_def stop_line_def exit_worker_def Let_def
    by (cases err) (simp, blast)+
next
  case False
  then obtain str r where h: "map_of signal_handlers sig = Some (str, r)" by auto
  then have m: "(sig, str, r) \<in> set signal_handlers" by (rule map_of_SomeD)
  have s: "signal_lines err message sig = reaction_lines r sig str"
      "signal_handler err sig (wk\<lparr>wk_waiting := False\<rparr>) = react r (add_signal_handler (wk\<lparr>wk_waiting := False\<rparr>))"
    using False h by (simp_all add: signal_lines_def signal_handler_def Let_def)
  show ?thesis
  proof (cases "r = Exit")
    case True
    have "\<exists>l. l \<in> set (received str sig ''Stopping...'')" by (auto simp: received_def log_stream_def)
    then show ?thesis using True s m unfolding stop_line_def by (simp add: exit_worker_def) blast
  next
    case False
    then have "\<not> stopped_state (react r (add_signal_handler (wk\<lparr>wk_waiting := False\<rparr>)))"
      using assms by (cases r) (auto simp: worker_clear_cache_def add_signal_handler_def split: option.splits)
    then show ?thesis using received_stop [OF m False] s by auto
  qed
qed

lemma no_step_hangs: "worker_logged_step ord hlog env names wk ls st \<Longrightarrow> st \<noteq> Hangs"
proof (induction rule: worker_logged_step.induct)
  case (signal wk err message sig)
  have "react r wk' \<noteq> Hangs" for r and wk' :: "'a worker"
    by (cases r) (auto simp: worker_clear_cache_def split: option.splits)
  then show ?case by (auto simp: signal_handler_def Let_def split: option.splits)
next
  case (accept wk k err message sk)
  show ?case by (auto simp: accept_handler_def add_client_def split: sum.splits process_state.splits)
qed simp

text \<open>
  Logging is only logging: a worker takes exactly the steps it would take without the lines it and its
  sessions write. Only a request that never ends, in which the same line would be written for ever, has none.
\<close>
lemma worker_logging_is_transparent:
  "(\<exists>ls. worker_logged_step ord hlog env names wk ls st) \<longleftrightarrow> worker_step env names wk st \<and> st \<noteq> Hangs"
  using worker_logged_step_step worker_step_logged no_step_hangs by metis

section \<open>What a life writes\<close>

context client_hosts
begin

lemma step_lines_stop:
  "worker_logged_step ord hlog env names wk ls st \<Longrightarrow> (\<exists>l \<in> set ls. stop_line l) \<longleftrightarrow> stopped_state st"
proof (induction rule: worker_logged_step.induct)
  case (signal wk err message sig)
  then show ?case using signal_lines_stop by blast
next
  case (accept wk k err message sk)
  have "\<not> stopped_state (accept_handler k err sk (accept_completes k wk))"
    using accept(1) by (auto simp: accept_handler_def accept_completes_def add_client_def add_accept_handler_def
        split: if_splits sum.splits process_state.splits)
  then show ?case
    using no_stop_line [OF accept_client_lines [of "fst (wk_acceptors wk ! k)" err message sk "wk_world wk"]] by auto
next
  case (client wk i ls s')
  then show ?case using no_stop_line [OF session_lines [OF client(3)]] by (auto simp: session_back_def)
qed

lemma life_lines_stop:
  assumes "worker_life ord hlog env names wk0 ls st" "\<not> wk_stopped wk0"
  shows "(\<exists>l \<in> set ls. stop_line l) \<longleftrightarrow> stopped_state st"
  using assms
proof (induction rule: worker_life.induct)
  case (lives ls wk new st)
  have "\<not> wk_stopped wk" using lives(2) by (auto elim: worker_logged_step.cases)
  then show ?case using lives.IH [OF lives.prems] step_lines_stop [OF lives(2)] by auto
qed simp

lemma run_lines_stop:
  assumes "logged_run ord hlog env names wk0 ls st" "\<not> wk_stopped wk0"
  shows "(\<exists>l \<in> set ls. stop_line l) \<longleftrightarrow> stopped_state st"
  using assms(1)
proof cases
  case (runs ls')
  then show ?thesis using life_lines_stop [OF runs(2) assms(2)] run_lines_no_stop by auto
next
  case (returns ls' wk)
  then show ?thesis using life_lines_stop [OF returns(3) assms(2)] run_lines_no_stop by auto
qed

end

lemma site_lines: "client_lines (site_host_log popen fs env draw root allow h sn rq v)"
proof (cases "site_log popen fs env draw root allow sn rq v = []")
  case False
  from site_keeper.line [OF this] show ?thesis by (auto simp: site_host_log_def)
qed (simp add: site_host_log_def)

interpretation site_hosts: client_hosts "site_host_log popen fs env draw root allow"
  by unfold_locales (rule site_lines)

section \<open>Properties\<close>

text \<open>
  C12: From the log of a worker that serves the site one can tell whether it was told to stop: from the start of
  \<open>run\<close> on, it has stopped if and only if one of the entries says so, that is, tells of a signal that stops or of a failure
  to receive signals. All entries count: those of \<open>run\<close>, of signals, of accepts, of the sessions with their
  requests, and of the hosts that answer. So no client can make the worker write such an entry, whatever
  it sends, and a worker that dies has written none. (What an entry may hold after a line feed is another matter.)
\<close>
theorem stop_is_in_log:
  assumes "mk_worker listening (Inr (Some [hierarchy_vhost (site popen fs env draw root allow)])) v = Inr wk0"
    and "logged_run ord (site_host_log popen fs env draw root allow) renv names wk0 ls st"
  shows "(\<exists>l \<in> set ls. stop_line l) \<longleftrightarrow> stopped_state st"
proof -
  have "\<not> wk_stopped wk0" using assms(1) by (auto simp: mk_worker_def Let_def add_signal_handler_def)
  from site_hosts.run_lines_stop [OF assms(2) this] show ?thesis .
qed

lemma stop_is_in_log_witness:
  "\<exists>wk0 wk. logged_run (\<lambda>ps. ps) (site_host_log (\<lambda>c. None) site_fs memory_env counting_draw ''/'' any_chars) decimal_env [] wk0
      [(LOG_INFO, ''Started.''), (LOG_INFO, ''Recieved signal: SIGHUP (1). Ignoring...''),
       (LOG_INFO, ''Recieved signal: SIGTERM (15). Stopping...''), (LOG_INFO, ''Stopped.'')] (Runs wk) \<and>
    stop_line (LOG_INFO, ''Recieved signal: SIGTERM (15). Stopping...'') \<and> wk_stopped wk"
proof -
  let ?hup = "(LOG_INFO, ''Recieved signal: SIGHUP (1). Ignoring...'')" and ?stop = "(LOG_INFO, ''Recieved signal: SIGTERM (15). Stopping...'')"
  let ?log = "site_host_log (\<lambda>c. None) site_fs memory_env counting_draw ''/'' any_chars"
  let ?mgr = "[hierarchy_vhost (site (\<lambda>c. None) site_fs memory_env counting_draw ''/'' any_chars)]"
  let ?run = "logged_run (\<lambda>ps. ps) ?log decimal_env []" and ?life = "worker_life (\<lambda>ps. ps) ?log decimal_env []"
  obtain wk where w: "mk_worker [] (Inr (Some ?mgr)) ([], sample_users) = Inr wk" "\<not> wk_stopped wk" "wk_waiting wk"
    by (simp add: mk_worker_def Let_def add_signal_handler_def)
  have n: "to_string (Suc 0) = ''1''" "to_string 15 = ''15''"
    by (simp_all add: to_string.simps [of "Suc 0"] to_string.simps [of 15] digit_char_def) code_simp+
  have l: "signal_lines False [] SIGHUP = [?hup]" "signal_lines False [] SIGTERM = [?stop]"
    by (simp_all add: signal_lines_def signal_handlers_def clear_cache_signal_def SIGHUP_def SIGTERM_def SIGQUIT_def SIGINT_def
        received_no_nul n)
  have h: "signal_handler False SIGHUP (wk\<lparr>wk_waiting := False\<rparr>) = Runs wk"
    using w(3) by (simp add: signal_handler_def signal_handlers_def add_signal_handler_def)
  have t: "signal_handler False SIGTERM (wk\<lparr>wk_waiting := False\<rparr>) = Runs (wk\<lparr>wk_stopped := True\<rparr>)"
    using w(3) by (simp add: signal_handler_def signal_handlers_def add_signal_handler_def exit_worker_def
        SIGHUP_def SIGTERM_def SIGQUIT_def SIGINT_def)
  have "?life wk ([] @ [?hup]) (Runs wk)"
    using worker_life.lives [OF worker_life.born worker_logged_step.signal [OF w(2,3), of _ _ _ _ False "[]" SIGHUP]] h l(1) by metis
  then have "?life wk (([] @ [?hup]) @ [?stop]) (Runs (wk\<lparr>wk_stopped := True\<rparr>))"
    using worker_life.lives [OF _ worker_logged_step.signal [OF w(2,3), of _ _ _ _ False "[]" SIGTERM]] t l(2) by metis
  from logged_run.returns [OF this]
  have run: "?run wk [(LOG_INFO, ''Started.''), ?hup, ?stop, (LOG_INFO, ''Stopped.'')] (Runs (wk\<lparr>wk_stopped := True\<rparr>))"
    by (simp add: started_line_def stopped_line_def c_str_no_nul)
  from stop_is_in_log [OF w(1) run]
  have "stop_line ?hup \<or> stop_line ?stop \<or> stop_line (LOG_INFO, ''Started.'') \<or> stop_line (LOG_INFO, ''Stopped.'')" by auto
  moreover have "\<not> stop_line ?hup"
    using received_stop [of SIGHUP "''SIGHUP''" Ignore ?hup] l(1) by (simp add: signal_lines_def signal_handlers_def)
  moreover have "\<not> stop_line (LOG_INFO, ''Started.'')" "\<not> stop_line (LOG_INFO, ''Stopped.'')"
    using run_lines_no_stop by (simp_all add: started_line_def stopped_line_def c_str_no_nul)
  ultimately have "stop_line ?stop" by blast
  then show ?thesis using run by (intro exI [of _ wk] exI [of _ "wk\<lparr>wk_stopped := True\<rparr>"]) simp
qed

end
