(* ===== verification/Friends_Shown.thy ===== *)
theory Friends_Shown
  imports Host_Logic Session_Table
begin

text \<open>
  The friends on the page of a user (\<open>user_info\<close> of \<open>logic/user.cpp\<close>): the loop that draws their
  places, the search for their documents and the text that is built, against an independent
  description of that text.
\<close>

section \<open>The text that is to be shown\<close>

definition friend_members :: "'w logic_env \<Rightarrow> millis \<Rightarrow> doc \<Rightarrow> (string \<times> string) list" where
  "friend_members env t d =
     map (\<lambda>k. (quoted k, quoted (el_str env (map_of d k)))) [''ref'', ''name'', ''surname''] @
     [(quoted ''last_visit_at'', quoted (iso_date env t))]"

definition friend_card :: "'w logic_env \<Rightarrow> (oid \<Rightarrow> doc) \<Rightarrow> (oid \<Rightarrow> millis) \<Rightarrow> oid \<Rightarrow> string" where
  "friend_card env who visit i = json_members (friend_members env (visit i) (who i))"

definition friends_text :: "string list \<Rightarrow> string" where
  "friends_text cards = (if cards = [] then [] else '','' @ quoted ''friends'' @ '':['' @ comma_list cards @ '']'')"

text \<open>The user \<open>i\<close> is in the collection, with the time of the last visit.\<close>

definition is_user :: "doc list \<Rightarrow> oid \<Rightarrow> doc \<Rightarrow> millis \<Rightarrow> bool" where
  "is_user us i d t \<longleftrightarrow> first_match [(''_id'', Boid i)] us = Some d \<and> map_of d ''last_visit_at'' = Some (Bdate t)"

section \<open>One friend, and the rest of them\<close>

lemma friend_field:
  "k \<in> {''ref'', ''name'', ''surname'', ''last_visit_at''} \<Longrightarrow> field (project friend_fields d) k = map_of d k"
  using field_project [of friend_fields k d] by (auto simp: friend_fields_def fields_to_return_def field_def)

context mongo_store
begin

lemma info_for_friend_text:
  assumes "is_user (coll w (collection_users env)) i (who i) (visit i)"
  shows "\<exists>w'. info_for_friend env separator (Boid i) w = (Inr (separator # friend_card env who visit i), w') \<and>
    coll w' = coll w"
proof -
  from assms have d: "first_match [(''_id'', Boid i)] (coll w (collection_users env)) = Some (who i)"
    and t: "map_of (who i) ''last_visit_at'' = Some (Bdate (visit i))" by (simp_all add: is_user_def)
  have "map_of friend_fields ''last_visit_at'' = Some (Bint 1)" by (simp add: friend_fields_def fields_to_return_def)
  from project_eq_Nil [OF t this] have ne: "project friend_fields (who i) \<noteq> []" .
  have v: "last_visit_info env (project friend_fields (who i)) =
      Inr (add_info CHR '','' ''last_visit_at'' (iso_date env (visit i)))"
    by (simp add: last_visit_info_def friend_field t)
  obtain w' where f: "find_one env (collection_users env) [(''_id'', Boid i)] friend_fields w =
      (Inr (project friend_fields (who i)), w')" "coll w' = coll w"
    using find_one_spec [of "collection_users env" "[(''_id'', Boid i)]" friend_fields w] d
    by (auto simp: found_doc_def)
  then have "info_for_friend env separator (Boid i) w = (Inr ([separator] @
      add_info_by_key env CHR ''{'' ''ref'' (project friend_fields (who i)) @
      add_info_by_key env CHR '','' ''name'' (project friend_fields (who i)) @
      add_info_by_key env CHR '','' ''surname'' (project friend_fields (who i)) @
      add_info CHR '','' ''last_visit_at'' (iso_date env (visit i)) @ ''}''), w')"
    by (simp add: info_for_friend_def sbind_def ne v)
  then show ?thesis using f(2)
    by (simp add: add_info_by_key_def add_info_def friend_field friend_card_def friend_members_def json_members_Cons quoted_def)
qed

lemma info_for_friends_text:
  assumes "\<And>i. i \<in> set fs \<Longrightarrow> is_user (coll w (collection_users env)) i (who i) (visit i)"
  shows "\<exists>w'. info_for_friends env (map Boid fs) w =
    (Inr (concat (map (\<lambda>i. '','' @ friend_card env who visit i) fs)), w') \<and> coll w' = coll w"
  using assms
proof (induction fs arbitrary: w)
  case (Cons i fs)
  obtain w1 where w1: "info_for_friend env CHR '','' (Boid i) w = (Inr (CHR '','' # friend_card env who visit i), w1)"
    "coll w1 = coll w" using info_for_friend_text [of w i who visit] Cons.prems by auto
  with Cons.IH [of w1] Cons.prems show ?case by (auto simp: sbind_def)
qed simp

lemma friends_info_text:
  assumes "\<And>n. quiet_draw coll now (draw n)" "\<And>n. fair (draw n) (unat n + 1)" "length fs < 2 ^ 32"
    "\<And>i. i \<in> set fs \<Longrightarrow> is_user (coll w (collection_users env)) i (who i) (visit i)"
  shows "\<exists>ids w'. friends_info env draw (map Boid fs) w =
      Some (Inr (friends_text (map (\<lambda>k. friend_card env who visit (fs ! k)) ids)), w') \<and>
    length ids = min (length fs) max_friends \<and> distinct ids \<and> set ids \<subseteq> {..<length fs} \<and> coll w' = coll w"
proof (cases "fs = []")
  case True
  then show ?thesis by (simp add: friends_info_def friends_text_def)
next
  case False
  let ?n = "of_nat (length fs) :: 32 word" and ?k = "min (length fs) max_friends"
  have n: "unat ?n = length fs" using assms(3) by (simp add: unsigned_of_nat take_bit_nat_eq_self)
  then have "?n \<noteq> 0" using False by (metis length_0_conv unsigned_0)
  then have "unat (?n - 1) + 1 = length fs" using False n by (simp add: unat_minus_one)
  then have "fair (draw (?n - 1)) (length fs)" using assms(2) [of "?n - 1"] by simp
  from random_indexes_fair [OF this, of "[]" ?k w] obtain ids w1 where
    ids: "random_indexes (draw (?n - 1)) ?k [] w = Some (ids, w1)" "length ids = ?k" "distinct ids" "set ids \<subseteq> {..<length fs}" by auto
  have c1: "coll w1 = coll w" using random_indexes_quiet [OF ids(1) assms(1)] by simp
  have "?k \<noteq> 0" using False by (simp add: max_friends_def)
  then obtain i js where i: "ids = i # js" using ids(2) by (metis length_0_conv neq_Nil_conv)
  have here: "is_user (coll w1 (collection_users env)) (fs ! k) (who (fs ! k)) (visit (fs ! k))" if "k \<in> set ids" for k
    using assms(4) [of "fs ! k"] ids(4) that c1 by auto
  obtain w2 where w2: "info_for_friend env CHR ''['' (Boid (fs ! i)) w1 = (Inr (CHR ''['' # friend_card env who visit (fs ! i)), w2)"
    "coll w2 = coll w1" using info_for_friend_text [of w1 "fs ! i" who visit] here [of i] i by auto
  have "is_user (coll w2 (collection_users env)) j (who j) (visit j)" if "j \<in> set (map (\<lambda>k. fs ! k) js)" for j
    using that here i w2(2) by auto
  from info_for_friends_text [OF this] obtain w3 where
    w3: "info_for_friends env (map Boid (map (\<lambda>k. fs ! k) js)) w2 =
      (Inr (concat (map (\<lambda>i. '','' @ friend_card env who visit i) (map (\<lambda>k. fs ! k) js))), w3)" "coll w3 = coll w2" by blast
  have js: "map (\<lambda>k. map Boid fs ! k) js = map Boid (map (\<lambda>k. fs ! k) js)" using ids(4) i by auto
  have "i < length fs" using ids(4) i by simp
  then have "friends_info env draw (map Boid fs) w =
      Some (Inr ('','' @ quoted ''friends'' @ '':'' @ (CHR ''['' # friend_card env who visit (fs ! i)) @
        concat (map (\<lambda>i. '','' @ friend_card env who visit i) (map (\<lambda>k. fs ! k) js)) @ '']''), w3)"
    using False ids(1) i w2(1) w3(1) by (simp add: friends_info_def n Let_def js sbind_def)
  then show ?thesis using ids i c1 w2(2) w3(2)
    by (intro exI [of _ ids] exI [of _ w3]) (simp add: friends_text_def comma_list_concat comp_def)
qed

end

section \<open>What is shown\<close>

text \<open>
  C34: The page of a user shows as many friends as there are, but no more than six. With a generator that
  draws every number sooner or later the loop that chooses them ends; the places it chooses in the list
  of the friends differ (so the friends differ, if the list names nobody twice), and the text is the
  JSON array of exactly the friends at these places, in the order of the choice: for each the reference,
  the two names and the time of the last visit, as the collection has them. Without friends the
  text is empty. The database is not changed.
\<close>
theorem friends_are_shown:
  assumes "mongo_store env coll now" "\<And>n. quiet_draw coll now (draw n)" "\<And>n. fair (draw n) (unat n + 1)"
    "length fs < 2 ^ 32"
    "\<And>i. i \<in> set fs \<Longrightarrow> is_user (coll w (collection_users env)) i (who i) (visit i)"
  shows "\<exists>ids w'. friends_info env draw (map Boid fs) w =
      Some (Inr (friends_text (map (\<lambda>k. friend_card env who visit (fs ! k)) ids)), w') \<and>
    length ids = min (length fs) 6 \<and> distinct ids \<and> set ids \<subseteq> {..<length fs} \<and>
    (distinct fs \<longrightarrow> distinct (map (\<lambda>k. fs ! k) ids)) \<and> coll w' = coll w"
proof -
  obtain ids w' where s: "friends_info env draw (map Boid fs) w =
      Some (Inr (friends_text (map (\<lambda>k. friend_card env who visit (fs ! k)) ids)), w')"
    "length ids = min (length fs) max_friends" "distinct ids" "set ids \<subseteq> {..<length fs}" "coll w' = coll w"
    using mongo_store.friends_info_text [OF assms] by blast
  moreover have "distinct (map (\<lambda>k. fs ! k) ids)" if "distinct fs"
    using s(3,4) that by (auto simp: distinct_map inj_on_def) (metis lessThan_iff nth_eq_iff_index_eq subsetD)
  ultimately show ?thesis by (auto simp: max_friends_def)
qed

definition friend_doc :: "oid \<Rightarrow> doc" where
  "friend_doc i = [(''_id'', Boid i), (''ref'', Bstr ''a0''), (''name'', Bstr ''Bob''), (''surname'', Bstr ''B''), (''last_visit_at'', Bdate 0)]"

definition seven_friends :: memory where
  "seven_friends = sample_users\<lparr>mem_colls := (\<lambda>c. map friend_doc [1, 2, 3, 4, 5, 6, 7])\<rparr>"

lemma friends_are_shown_witness:
  "\<exists>ids w'. friends_info memory_env counting_draw (map Boid [1, 2, 3, 4, 5, 6, 7]) seven_friends =
      Some (Inr (friends_text (map (\<lambda>k. friend_card memory_env friend_doc (\<lambda>i. 0) ([1, 2, 3, 4, 5, 6, 7] ! k)) ids)), w') \<and>
    length ids = 6 \<and> distinct ids \<and> set ids \<subseteq> {..<7}"
proof -
  let ?fs = "[1, 2, 3, 4, 5, 6, 7] :: oid list"
  have q: "quiet_draw mem_colls mem_now (counting_draw n)" for n
    by (simp add: quiet_draw_def counting_draw_def mem_now_def)
  have u: "is_user (mem_colls seven_friends (collection_users memory_env)) i (friend_doc i) 0" if "i \<in> set ?fs" for i
    using that by (auto simp: is_user_def seven_friends_def first_match_Cons friend_doc_def)
  have n: "length ?fs = 7" "length ?fs < 2 ^ 32" "min 7 6 = (6 :: nat)" by simp_all
  from friends_are_shown [OF memory_db.mongo_store_axioms q counting_draw_fair n(2), of seven_friends friend_doc "\<lambda>i. 0", OF u]
  show ?thesis unfolding n(1,3) by blast
qed

end
