(* ===== verification/Spec2Isabelle.thy ===== *)
theory Spec2Isabelle
  imports Prelude Regex Errors Http_Types Http_Utils Http_Request Http_Response Base_Utils System_Utils
    Host_Base File_Host Templatizer Template_Host Session Hierarchy Mongo Logic_Session Logic_Users
    Host_Logic Worker Site Application Http_Message Pipeline Worker_Serves Session_Table Logger Session_Log Acceptor Program
    Site_Service Host_Log Worker_Log Friends_Shown
begin

text \<open>
  UniTrack is an HTTP/1.1 server with a small social network behind it, written in C++14 over Boost.Asio
  and MongoDB. This development models the program under \<open>src/src/modules\<close> and
  \<open>src/src/targets/unitrack\<close>; names of files below are relative to the first.

  \<^bold>\<open>How the parts interact.\<close> \<open>main\<close> builds an \<open>application\<close>, which reads two JSON files and builds a
  \<open>server::server\<close>. That opens an acceptor for every port and forks the workers. A \<open>server::worker\<close> owns a
  host manager and an event loop in which signals, new clients and the reads and writes of its clients
  complete in any order. A \<open>server::session\<close> reads a request (\<open>protocol/http/request\<close>), has the manager
  find the host and asks the host for a response; a null pointer means that the host has changed the
  request and that it is to be dispatched again. Hosts are files, template pages, hierarchies of other
  hosts (by the first section of the path) and the hosts of the logic, which act on users and sessions in
  the database.

  \<^bold>\<open>Theories\<close>, in the order of their imports:

    \<^item> \<open>Prelude\<close>: exceptions as sums (\<open>rbind\<close>), computations with a state that may throw (\<open>sbind\<close>), the
      characters of the C locale, printing of numbers, list lemmas.
    \<^item> \<open>Regex\<close>: \<open>std::regex\<close>, as far as the program uses it: all matches in the order of backtracking,
      and the equations that turn the expressions of the code into scanners.
    \<^item> \<open>Errors\<close>: the classes of exceptions (all \<open>exceptions.h\<close> files) with their messages.
    \<^item> \<open>Http_Types\<close>, \<open>Http_Utils\<close>, \<open>Http_Request\<close>, \<open>Http_Response\<close> (\<open>server/protocol\<close>, \<open>base/buffer\<close>,
      \<open>base/strings_cache\<close>): constants; decoding of URIs and forms; the request, with every stage of
      \<open>process_stream\<close> and \<open>process_stream_again\<close>; responses as lists of buffers that know what they
      point to, so that \<open>wire\<close> is what the client gets, if no buffer dangles.
    \<^item> \<open>Http_Message\<close>: requests as a client means them, how they are printed, and what the parser makes of
      the print.
    \<^item> \<open>Base_Utils\<close>, \<open>System_Utils\<close> (\<open>base\<close>, \<open>system_\<close>): registrars of modules, file caches, mapped
      files, access to JSON; the MIME type of a file, child processes.
    \<^item> \<open>Host_Base\<close>, \<open>File_Host\<close> (\<open>server/host\<close>): a host is the record \<open>vhost\<close> of its virtual functions
      over a state of its own; the responses all hosts can build; the manager; the host of files.
    \<^item> \<open>Templatizer\<close>, \<open>Template_Host\<close> (\<open>templatizer\<close>, \<open>host/modules/file_handlers\<close>): the parser of pages,
      the chunks and their buffers; the handlers of template pages.
    \<^item> \<open>Session\<close> (\<open>server/session\<close>): the handlers of one connection and its step relation. Three fields
      of the record \<open>session\<close> are there for the statements only.
    \<^item> \<open>Pipeline\<close>: session and parser against a server that is handed whole messages (\<open>serves\<close>).
    \<^item> \<open>Worker_Serves\<close>: a worker with all its clients against a server without concurrency (\<open>site_serves\<close>).
    \<^item> \<open>Logger\<close>, \<open>Session_Log\<close> (\<open>logger\<close>): levels and lines of the log; the handlers of a session, the request
      (\<open>operator<<\<close>) and the manager with the lines they write. \<open>Host_Log\<close>: the lines that hosts write about
      the errors they answer. \<open>Worker_Log\<close>: the run of a worker of the site, each step with all its lines.
    \<^item> \<open>Hierarchy\<close> (\<open>host/generator\<close>, \<open>host/module\<close>, \<open>host/path_utils\<close>, \<open>host/modules/hierarchy\<close>): the
      routing by sections and the construction of hosts from a configuration.
    \<^item> \<open>Mongo\<close> (\<open>logic/global_instance\<close>, \<open>logic/random_hash\<close>, \<open>base/time\<close>): the parameters of the logic, what
      it computes from random numbers and the clock, and the contract of the database.
    \<^item> \<open>Logic_Session\<close>, \<open>Logic_Users\<close> (\<open>logic\<close>): login, logout, registration, the continuation and restart
      of sessions; lists of users, the page of a user, friends.
    \<^item> \<open>Session_Table\<close>: all operations of the logic against a table of users and times. \<open>Friends_Shown\<close>: the
      friends on the page of a user, against the text that is to be shown.
    \<^item> \<open>Host_Logic\<close> (\<open>host/modules/logic\<close>): the handlers of the requests to the logic.
    \<^item> \<open>Site_Service\<close>: requests, the site and the life of a worker as operations on the table of sessions.
    \<^item> \<open>Worker\<close> (\<open>server/worker\<close>, \<open>server/acceptor\<close>, \<open>server/server\<close>): signals, acceptors, the event loop over
      all sessions of a worker, and the start and stop of the server.
    \<^item> \<open>Acceptor\<close> (\<open>server/acceptor\<close>): how a socket comes to listen, call by call; it provides the parameter
      \<open>listen\<close> of \<open>Worker\<close>.
    \<^item> \<open>Site\<close>: the site of \<open>config/server.json\<close>, from the configuration to the answers.
    \<^item> \<open>Application\<close> (\<open>targets/unitrack\<close>): the program; \<open>Program\<close> (\<open>host/generator\<close>, \<open>config\<close>): from the shipped
      configuration files to the workers.

  \<^bold>\<open>Interfaces\<close> are locales, each with an interpretation on the code's own definitions: \<open>responder\<close> and
  \<open>final_responder\<close> (what a host promises: its responses are framed; it never hands a request on),
  \<open>file_handler\<close> (a handler of files makes a final responder), \<open>cached_source\<close> (a cache in front of its
  generator), \<open>mongo_store\<close> (what the database does), \<open>session_service\<close> (what the clients of the sessions
  rely on; every \<open>mongo_store\<close> gives two, for the accounts alone and for the whole service),
  \<open>service_client\<close> (a host performs at most one operation of the logic for a request, and only one that the
  request asks for), \<open>log_keeper\<close> (a host writes nothing about what it does not answer, and names the status
  of its answer), \<open>client_hosts\<close> (no line of a host looks like one about signals) and \<open>session_invariant\<close> (a property of sessions that holds for all sessions of a worker).

  \<^bold>\<open>What the lemmas show.\<close>

    \<^item> Requests: print and parse is the identity, with cookies, host, port and other headers; exactly the errors of the grammar; nothing of one
      request survives in the next; the body is what follows the headers, byte by byte, and complete when the
      announced bytes have arrived.
    \<^item> Responses: exact bytes; every response of every host is framed by one correct \<open>Content-Length\<close>.
    \<^item> Sessions and workers: responses leave in order, each once, for every interleaving, also with many
      sessions over one state; the pieces in which requests arrive do not matter, and a worker behaves
      as if it handled one whole message of one client at a time; errors are answered; signals
      always get through; which steps end the process of a worker.
    \<^item> Hosts: the file host answers everything and serves what is in the file; what the default deny list
      accepts; pages are parsed and generated exactly; nested hierarchies walk through their tree; the
      site of the repository answers every request.
    \<^item> Users: a session starts only with the password of its user, stays with the user, and is over for
      ever once it was finished, whatever operation of the service follows; what continuing a session does is determined
      by the session and the time; every operation is one step of a table of sessions; registration and friends
      change what they should, and the page of a user shows the friends it should.
      From requests this follows for the site and for the life of a worker: whatever clients send, a
      request touches no session but that of its cookie, and none is opened without a proof.
    \<^item> Log: a request is one line, and what can hide a part of it; a worker that stopped has said so in an entry,
      which no session and no host writes; what a refused login tells, the password included.
    \<^item> Server and program: the shipped configuration brings up three workers that answer; all workers or none; what is sent to them until the end.
    \<^item> Faults of the code that came to light are stated as theorems as well, for example a session that
      is lost when it should be restarted, a port that is closed by one error, a client that ends a worker.

  \<^bold>\<open>Loops and bounds.\<close> Structural recursion is used where the code has a bounded loop. The loop that
  dispatches a request is \<open>partial_function (option)\<close>; that it ends is proved for hosts that shorten the path
  (\<open>dispatch_returns\<close>), and that it need not end is proved too (\<open>dispatch_diverges\<close>). The random choice of
  friends is partial as well and ends for a fair generator. The construction of nested hosts takes a fuel;
  the nesting of the JSON value is enough (\<open>generate_host_terminates\<close>). Machine integers are words of
  their width: ports 16, workers and process ids 32, sizes and times 64 bits.

  \<^bold>\<open>Parameters.\<close> The file system, \<open>popen\<close>, \<open>fork\<close>, \<open>kill\<close>, sockets, the database and its driver, hash
  functions, random numbers, the clock, \<open>nlohmann::json\<close>, \<open>boost::lexical_cast\<close>, the allocation of memory
  and the compilation of regular expressions from the configuration. What the statements need of them is a
  hypothesis with its name, and each has an instance in memory: \<open>memory_env\<close>, \<open>json_memory\<close>,
  \<open>decimal_env\<close>, \<open>one_file\<close>. Of the random choice of friends it is assumed that it leaves the database alone
  (\<open>quiet_draw\<close>), of hashed containers that they list what they hold (\<open>reorders\<close>), and \<open>kernel\<close> is what the
  system calls of an acceptor answer. The JSON texts of the logic are those the code puts together.

  \<^bold>\<open>Not modelled.\<close> What \<open>syslog\<close> does with a line; the lines of the server and of \<open>process\<close>, the line \<open>Failed:\<close> of
  \<open>run\<close> and that of \<open>user_info\<close> about too many friends. That \<open>local_endpoint\<close> fails while an error of \<open>accept\<close> is logged. Workers share the database: what is said of one worker is said of one that has it to
  itself. \<open>notify_fork\<close> and other calls of Asio without an effect on the state are left out, as are allocation failures outside the body of a request. Signals that arrive
  before a worker has installed its handlers are not considered. A site has one file host; the caches of
  several would be further components of the state. Move constructors and accessors are the identity on
  values. Build files, pages, scripts and third-party libraries are no code of the program.
\<close>

end
